(* ===== verification/Prelude.thy ===== *)
theory Prelude
  imports Main "HOL-Library.AList" "HOL-Library.Multiset"
begin

text \<open>
  Shared vocabulary of the development.

  \<^item> \<open>exn\<close> and \<open>res\<close>: what a C++ call can end in. \<open>Ret\<close> is a normal return, \<open>Raise\<close> an
    exception, \<open>Abort\<close> a failed \<open>assert\<close> of a debug build and \<open>Undef\<close> undefined behaviour
    (here: an end iterator dereferenced or erased). The flag \<open>nd\<close> of many definitions is
    \<open>true\<close> when the code is compiled with NDEBUG (CMakeLists.txt, release flags), where
    \<open>assert\<close> evaluates nothing.
  \<^item> \<open>and_then\<close> sequences calls that also carry the state of an object.
  \<^item> \<open>umap\<close> and \<open>omap\<close>: \<open>std::unordered_map\<close> and \<open>std::map\<close> as association lists, and
    the locale \<open>dictionary\<close> for what the components rely on in both.
\<close>

section \<open>Outcomes of a call\<close>

datatype exn =
    RuntimeError string  \<comment> \<open>\<open>std::runtime_error\<close>\<close>
  | OtherStd string      \<comment> \<open>another class derived from \<open>std::exception\<close>, with its \<open>what()\<close>\<close>
  | NonStd               \<comment> \<open>anything else that can be thrown\<close>

datatype 'a res = Ret 'a | Raise exn | Abort | Undef

primrec res_bind :: "'a res \<Rightarrow> ('a \<Rightarrow> 'b res) \<Rightarrow> 'b res" where
  "res_bind (Ret x) f = f x"
| "res_bind (Raise e) f = Raise e"
| "res_bind Abort f = Abort"
| "res_bind Undef f = Undef"

definition res_map :: "('a \<Rightarrow> 'b) \<Rightarrow> 'a res \<Rightarrow> 'b res" where
  "res_map f m = res_bind m (\<lambda>x. Ret (f x))"

text \<open>\<open>assert(c)\<close>: checked in a debug build, nothing under NDEBUG.\<close>

definition cassert :: "bool \<Rightarrow> bool \<Rightarrow> unit res" where
  "cassert nd c = (if nd \<or> c then Ret () else Abort)"

text \<open>A call that does not end the program: it returns or throws.\<close>

primrec survives :: "'a res \<Rightarrow> bool" where
  "survives (Ret x) = True"
| "survives (Raise e) = True"
| "survives Abort = False"
| "survives Undef = False"

primrec returns :: "'a res \<Rightarrow> bool" where
  "returns (Ret x) = True"
| "returns (Raise e) = False"
| "returns Abort = False"
| "returns Undef = False"

text \<open>Calls on an object: the outcome, and the object's state when the call ends.\<close>

fun and_then :: "'a res \<times> 's \<Rightarrow> ('a \<Rightarrow> 's \<Rightarrow> 'b res \<times> 's) \<Rightarrow> 'b res \<times> 's" where
  "and_then (Ret x, s) k = k x s"
| "and_then (Raise e, s) k = (Raise e, s)"
| "and_then (Abort, s) k = (Abort, s)"
| "and_then (Undef, s) k = (Undef, s)"

fun map_res :: "('a \<Rightarrow> 'b res) \<Rightarrow> 'a list \<Rightarrow> 'b list res" where
  "map_res f [] = Ret []"
| "map_res f (x # xs) = res_bind (f x) (\<lambda>y. res_bind (map_res f xs) (\<lambda>ys. Ret (y # ys)))"

text \<open>\<open>catch (...)\<close> around a statement: exceptions end here, a crash does not.\<close>

fun catch_all :: "unit res \<times> 's \<Rightarrow> unit res \<times> 's" where
  "catch_all (Raise e, s) = (Ret (), s)"
| "catch_all (r, s) = (r, s)"

named_theorems res_simps \<open>case distinctions on outcomes\<close>

lemma res_bind_eq_Ret [res_simps]: "res_bind m f = Ret y \<longleftrightarrow> (\<exists>x. m = Ret x \<and> f x = Ret y)"
  by (cases m) auto

lemma res_bind_eq_Raise [res_simps]:
  "res_bind m f = Raise e \<longleftrightarrow> m = Raise e \<or> (\<exists>x. m = Ret x \<and> f x = Raise e)"
  by (cases m) auto

lemma map_res_eq_Ret: "map_res f xs = Ret ys \<longleftrightarrow> list_all2 (\<lambda>x y. f x = Ret y) xs ys"
  by (induction xs arbitrary: ys) (auto simp: res_bind_eq_Ret list_all2_Cons1)

lemma map_res_id: "(\<And>x. x \<in> set xs \<Longrightarrow> f x = Ret x) \<Longrightarrow> map_res f xs = Ret xs"
  by (induction xs) auto

lemma res_bind_assoc: "res_bind (res_bind m f) g = res_bind m (\<lambda>x. res_bind (f x) g)"
  by (cases m) auto

lemma res_bind_Ret_right [simp]: "res_bind m Ret = m"
  by (cases m) auto

lemma res_map_Ret [simp]: "res_map f (Ret x) = Ret (f x)"
  by (simp add: res_map_def)

lemma res_map_Raise [simp]: "res_map f (Raise e) = Raise e"
  by (simp add: res_map_def)

lemma cassert_NDEBUG [simp]: "cassert True c = Ret ()"
  by (simp add: cassert_def)

lemma cassert_holds [simp]: "cassert nd True = Ret ()"
  by (simp add: cassert_def)

lemma cassert_fails [simp]: "cassert False False = Abort"
  by (simp add: cassert_def)

lemma cassert_eq_Ret [res_simps]: "cassert nd c = Ret u \<longleftrightarrow> nd \<or> c"
  by (simp add: cassert_def)

lemma cassert_not_Raise [simp]: "cassert nd c \<noteq> Raise e" "cassert nd c \<noteq> Undef"
  by (simp_all add: cassert_def)

lemma and_then_eq_Ret [res_simps]:
  "and_then p k = (Ret y, t) \<longleftrightarrow> (\<exists>x s. p = (Ret x, s) \<and> k x s = (Ret y, t))"
  by (cases p; cases "fst p") auto

lemma and_then_eq_Raise [res_simps]:
  "and_then p k = (Raise e, t) \<longleftrightarrow>
    p = (Raise e, t) \<or> (\<exists>x s. p = (Ret x, s) \<and> k x s = (Raise e, t))"
  by (cases p; cases "fst p") auto

lemma and_then_assoc:
  "and_then (and_then p f) g = and_then p (\<lambda>x s. and_then (f x s) g)"
  by (cases p; cases "fst p") auto

lemma survives_iff: "survives m \<longleftrightarrow> m \<noteq> Abort \<and> m \<noteq> Undef"
  by (cases m) auto

lemma returns_iff: "returns m \<longleftrightarrow> (\<exists>x. m = Ret x)"
  by (cases m) auto

lemma returns_survives: "returns m \<Longrightarrow> survives m"
  by (cases m) auto


section \<open>Standard maps\<close>

text \<open>
  \<open>std::unordered_map\<close>: an association list with distinct keys. \<open>emplace\<close> inserts only when
  the key is absent and reports whether it did; \<open>it->second = v\<close> overwrites in place; \<open>erase\<close>
  by key reports how many entries it removed. The order of the list carries no meaning: every
  loop over such a map visits it through an order parameter of the model (see Static_Proxy).
\<close>

definition umap_emplace :: "'k \<Rightarrow> 'v \<Rightarrow> ('k \<times> 'v) list \<Rightarrow> ('k \<times> 'v) list \<times> bool" where
  "umap_emplace k v m = (if map_of m k = None then ((k, v) # m, True) else (m, False))"

definition umap_assign :: "'k \<Rightarrow> 'v \<Rightarrow> ('k \<times> 'v) list \<Rightarrow> ('k \<times> 'v) list" where
  "umap_assign k v m = AList.map_entry k (\<lambda>_. v) m"

definition umap_erase :: "'k \<Rightarrow> ('k \<times> 'v) list \<Rightarrow> ('k \<times> 'v) list \<times> nat" where
  "umap_erase k m = (AList.delete k m, if map_of m k = None then 0 else 1)"

definition umap_ok :: "('k \<times> 'v) list \<Rightarrow> bool" where
  "umap_ok m \<longleftrightarrow> distinct (map fst m)"

text \<open>\<open>std::map\<close>: the same, with the list kept in the key order that its iteration follows.\<close>

fun omap_emplace :: "'k::linorder \<Rightarrow> 'v \<Rightarrow> ('k \<times> 'v) list \<Rightarrow> ('k \<times> 'v) list \<times> bool" where
  "omap_emplace k v [] = ([(k, v)], True)"
| "omap_emplace k v ((a, b) # m) =
     (if k < a then ((k, v) # (a, b) # m, True)
      else if k = a then ((a, b) # m, False)
      else (let (m', new) = omap_emplace k v m in ((a, b) # m', new)))"

definition omap_ok :: "('k::linorder \<times> 'v) list \<Rightarrow> bool" where
  "omap_ok m \<longleftrightarrow> sorted_wrt (<) (map fst m)"

text \<open>
  Both callers of a map in this program that overwrite do it in two steps: insert, and when the
  key was there already, assign through the returned iterator.
\<close>

definition put_via ::
  "('k \<Rightarrow> 'v \<Rightarrow> 'm \<Rightarrow> 'm \<times> bool) \<Rightarrow> ('k \<Rightarrow> 'v \<Rightarrow> 'm \<Rightarrow> 'm) \<Rightarrow> 'k \<Rightarrow> 'v \<Rightarrow> 'm \<Rightarrow> 'm \<times> bool" where
  "put_via ins asg k v m =
     (let (m', new) = ins k v m in if new then (m', True) else (asg k v m', False))"

subsection \<open>The interface of a map\<close>

locale dictionary =
  fixes lookup :: "'m \<Rightarrow> 'k \<Rightarrow> 'v option"
    and insert_new :: "'k \<Rightarrow> 'v \<Rightarrow> 'm \<Rightarrow> 'm \<times> bool"
    and assign :: "'k \<Rightarrow> 'v \<Rightarrow> 'm \<Rightarrow> 'm"
    and remove :: "'k \<Rightarrow> 'm \<Rightarrow> 'm \<times> nat"
    and ok :: "'m \<Rightarrow> bool"
    and card_of :: "'m \<Rightarrow> nat"
  assumes new_iff: "ok m \<Longrightarrow> snd (insert_new k v m) \<longleftrightarrow> lookup m k = None"
    and lookup_new: "ok m \<Longrightarrow> lookup m k = None \<Longrightarrow>
           lookup (fst (insert_new k v m)) = (lookup m)(k \<mapsto> v)"
    and insert_old: "ok m \<Longrightarrow> lookup m k = Some w \<Longrightarrow> fst (insert_new k v m) = m"
    and lookup_assign: "ok m \<Longrightarrow> lookup m k = Some w \<Longrightarrow>
           lookup (assign k v m) = (lookup m)(k \<mapsto> v)"
    and lookup_remove: "ok m \<Longrightarrow> lookup (fst (remove k m)) = (lookup m)(k := None)"
    and removed_iff: "ok m \<Longrightarrow> snd (remove k m) = (if lookup m k = None then 0 else 1)"
    and ok_insert: "ok m \<Longrightarrow> ok (fst (insert_new k v m))"
    and ok_assign: "ok m \<Longrightarrow> ok (assign k v m)"
    and ok_remove: "ok m \<Longrightarrow> ok (fst (remove k m))"
    and card_lookup: "ok m \<Longrightarrow> card_of m = card (dom (lookup m))"
    and finite_lookup: "ok m \<Longrightarrow> finite (dom (lookup m))"
begin

lemma lookup_put: "ok m \<Longrightarrow> lookup (fst (put_via insert_new assign k v m)) = (lookup m)(k \<mapsto> v)"
proof (cases "lookup m k")
  case None
  moreover assume "ok m"
  ultimately show ?thesis
    using new_iff [of m k v] lookup_new [of m k v]
    by (auto simp: put_via_def Let_def split: prod.split)
next
  case (Some w)
  moreover assume "ok m"
  ultimately show ?thesis
    using new_iff [of m k v] insert_old [of m k w v] lookup_assign [of m k w v]
    by (auto simp: put_via_def Let_def split: prod.split)
qed

lemma put_new: "ok m \<Longrightarrow> snd (put_via insert_new assign k v m) \<longleftrightarrow> lookup m k = None"
  using new_iff [of m k v] by (auto simp: put_via_def Let_def split: prod.split)

lemma ok_put: "ok m \<Longrightarrow> ok (fst (put_via insert_new assign k v m))"
  using ok_insert [of m k v] ok_assign [of "fst (insert_new k v m)" k v]
  by (auto simp: put_via_def Let_def split: prod.split)

lemma card_put:
  assumes "ok m"
  shows "card_of (fst (put_via insert_new assign k v m)) =
           (if lookup m k = None then Suc (card_of m) else card_of m)"
proof -
  have "card (dom ((lookup m)(k \<mapsto> v))) =
      (if lookup m k = None then Suc (card (dom (lookup m))) else card (dom (lookup m)))"
    using finite_lookup [OF assms] by (auto simp: card_insert_if domIff)
  then show ?thesis
    using assms by (simp add: card_lookup ok_put lookup_put)
qed

lemma card_remove:
  assumes "ok m"
  shows "card_of (fst (remove k m)) + snd (remove k m) = card_of m"
proof -
  have "Suc (card (dom (lookup m) - {k})) = card (dom (lookup m))" if "lookup m k \<noteq> None"
    using that finite_lookup [OF assms] by (intro card_Suc_Diff1) auto
  then show ?thesis
    using assms by (auto simp: card_lookup ok_remove lookup_remove removed_iff domIff)
qed

lemma put_then_remove:
  "ok m \<Longrightarrow> lookup m k = None \<Longrightarrow>
   lookup (fst (remove k (fst (put_via insert_new assign k v m)))) = lookup m"
  by (simp add: lookup_remove lookup_put ok_put fun_upd_idem)

end

subsection \<open>The two maps provide it\<close>

lemma map_of_map_entry: "map_of (AList.map_entry k f m) = (map_of m)(k := map_option f (map_of m k))"
  by (induction m) auto

lemma delete_absent: "map_of m k = None \<Longrightarrow> AList.delete k m = m"
  by (induction m) (auto split: if_splits)

lemma map_entry_absent: "map_of m k = None \<Longrightarrow> AList.map_entry k f m = m"
  by (induction m) (auto split: if_splits)

lemma keys_map_entry [simp]: "map fst (AList.map_entry k f m) = map fst m"
  by (induction m) auto

lemma keys_delete: "map fst (AList.delete k m) = filter (\<lambda>k'. k' \<noteq> k) (map fst m)"
  by (induction m) auto

lemma length_card_dom: "distinct (map fst m) \<Longrightarrow> length m = card (dom (map_of m))"
  by (metis distinct_card dom_map_of_conv_image_fst length_map set_map)

lemma set_delete: "set (AList.delete k m) = {p \<in> set m. fst p \<noteq> k}"
  by (auto simp: AList.delete_eq)

interpretation umap: dictionary map_of umap_emplace umap_assign umap_erase umap_ok length
proof (unfold_locales, goal_cases)
  case (10 m)
  then show ?case by (simp add: umap_ok_def length_card_dom)
qed (auto simp: umap_emplace_def umap_assign_def umap_erase_def umap_ok_def fun_eq_iff
       map_of_map_entry keys_delete AList.delete_conv' finite_dom_map_of map_of_eq_None_iff)

lemma omap_emplace_Cons:
  "fst (omap_emplace k v ((a, b) # m)) =
     (if k < a then (k, v) # (a, b) # m else if k = a then (a, b) # m
      else (a, b) # fst (omap_emplace k v m))"
  "snd (omap_emplace k v ((a, b) # m)) \<longleftrightarrow> k < a \<or> k \<noteq> a \<and> snd (omap_emplace k v m)"
  by (auto split: prod.split)

lemma omap_emplace_keys:
  "fst ` set (fst (omap_emplace k v m)) = insert k (fst ` set m)"
proof (induction m)
  case (Cons p m)
  then show ?case by (cases p) (auto simp: omap_emplace_Cons simp del: omap_emplace.simps)
qed simp

lemma omap_ok_Cons:
  "omap_ok ((a, b) # m) \<longleftrightarrow> (\<forall>x \<in> fst ` set m. a < x) \<and> omap_ok m"
  by (simp add: omap_ok_def)

lemma omap_ok_distinct: "omap_ok m \<Longrightarrow> distinct (map fst m)"
  by (simp add: omap_ok_def strict_sorted_iff)

lemma omap_ok_emplace: "omap_ok m \<Longrightarrow> omap_ok (fst (omap_emplace k v m))"
proof (induction m)
  case (Cons p m)
  obtain a b where p: "p = (a, b)" by (cases p)
  with Cons show ?case
    by (auto simp: omap_emplace_Cons omap_ok_Cons omap_emplace_keys simp del: omap_emplace.simps)
qed (simp add: omap_ok_def)

lemma omap_lookup_below: "omap_ok ((a, b) # m) \<Longrightarrow> k < a \<Longrightarrow> map_of m k = None"
  by (auto simp: omap_ok_Cons map_of_eq_None_iff)

lemma omap_emplace_new: "omap_ok m \<Longrightarrow> snd (omap_emplace k v m) \<longleftrightarrow> map_of m k = None"
proof (induction m)
  case (Cons p m)
  obtain a b where p: "p = (a, b)" by (cases p)
  with Cons omap_lookup_below [of a b m k] show ?case
    by (auto simp: omap_emplace_Cons omap_ok_Cons simp del: omap_emplace.simps)
qed simp

lemma omap_emplace_lookup:
  "map_of m k = None \<Longrightarrow> map_of (fst (omap_emplace k v m)) = (map_of m)(k \<mapsto> v)"
proof (induction m)
  case (Cons p m)
  obtain a b where p: "p = (a, b)" by (cases p)
  with Cons show ?case
    by (auto simp: omap_emplace_Cons fun_eq_iff simp del: omap_emplace.simps)
qed simp

lemma omap_emplace_old:
  "omap_ok m \<Longrightarrow> map_of m k = Some w \<Longrightarrow> fst (omap_emplace k v m) = m"
proof (induction m)
  case (Cons p m)
  obtain a b where p: "p = (a, b)" by (cases p)
  with Cons omap_lookup_below [of a b m k] show ?case
    by (auto simp: omap_emplace_Cons omap_ok_Cons simp del: omap_emplace.simps split: if_splits)
qed simp

lemma omap_ok_assign: "omap_ok m \<Longrightarrow> omap_ok (umap_assign k v m)"
  by (simp add: omap_ok_def umap_assign_def)

lemma omap_ok_delete: "omap_ok m \<Longrightarrow> omap_ok (AList.delete k m)"
  by (simp add: omap_ok_def keys_delete sorted_wrt_filter)

interpretation omap: dictionary map_of omap_emplace umap_assign umap_erase omap_ok length
proof (unfold_locales, goal_cases)
  case (4 m k w v)
  then show ?case by (auto simp: umap_assign_def map_of_map_entry)
next
  case (10 m)
  then show ?case by (simp add: omap_ok_distinct length_card_dom)
qed (simp_all add: umap_erase_def omap_emplace_new omap_emplace_lookup
       omap_emplace_old omap_ok_emplace omap_ok_assign omap_ok_delete AList.delete_conv'
       finite_dom_map_of)

section \<open>Transition systems\<close>

inductive reachable :: "('s \<Rightarrow> bool) \<Rightarrow> ('s \<Rightarrow> 'e \<Rightarrow> 's \<Rightarrow> bool) \<Rightarrow> 's \<Rightarrow> bool"
  for init step where
  reachable_init: "init s \<Longrightarrow> reachable init step s"
| reachable_step: "reachable init step s \<Longrightarrow> step s e t \<Longrightarrow> reachable init step t"

inductive run :: "('s \<Rightarrow> 'e \<Rightarrow> 's \<Rightarrow> bool) \<Rightarrow> 's \<Rightarrow> 'e list \<Rightarrow> 's \<Rightarrow> bool" for step where
  run_nil: "run step s [] s"
| run_cons: "step s e t \<Longrightarrow> run step t es u \<Longrightarrow> run step s (e # es) u"

inductive_simps run_Nil [simp]: "run step s [] t"
inductive_simps run_Cons: "run step s (e # es) t"

lemma run_append: "run step s (xs @ ys) u \<longleftrightarrow> (\<exists>t. run step s xs t \<and> run step t ys u)"
  by (induction xs arbitrary: s) (auto simp: run_Cons)

lemma run_reachable: "run step s es t \<Longrightarrow> reachable init step s \<Longrightarrow> reachable init step t"
  by (induction rule: run.induct) (auto intro: reachable_step)

text \<open>An invariant of a system, and the simulation of a system by a more abstract one.\<close>

locale step_system =
  fixes init :: "'s \<Rightarrow> bool"
    and step :: "'s \<Rightarrow> 'e \<Rightarrow> 's \<Rightarrow> bool"
    and inv :: "'s \<Rightarrow> bool"
  assumes inv_init: "init s \<Longrightarrow> inv s"
    and inv_step: "inv s \<Longrightarrow> step s e t \<Longrightarrow> inv t"
begin

lemma inv_reachable: "reachable init step s \<Longrightarrow> inv s"
  by (induction rule: reachable.induct) (auto intro: inv_init inv_step)

lemma inv_run: "run step s es t \<Longrightarrow> inv s \<Longrightarrow> inv t"
  by (induction rule: run.induct) (auto intro: inv_step)

end

locale simulation = step_system init step inv
  for init :: "'s \<Rightarrow> bool" and step :: "'s \<Rightarrow> 'e \<Rightarrow> 's \<Rightarrow> bool" and inv :: "'s \<Rightarrow> bool" +
  fixes astep :: "'a \<Rightarrow> 'e \<Rightarrow> 'a \<Rightarrow> bool"
    and abs :: "'s \<Rightarrow> 'a"
  assumes sim: "inv s \<Longrightarrow> step s e t \<Longrightarrow> astep (abs s) e (abs t)"
begin

lemma run_simulated: "run step s es t \<Longrightarrow> inv s \<Longrightarrow> run astep (abs s) es (abs t)"
proof (induction rule: run.induct)
  case (run_cons s e t es u)
  then show ?case by (auto intro: run.run_cons sim dest: inv_step)
qed (simp add: run.run_nil)

end

end
