(* ===== verification/Rest_Api.thy ===== *)
theory Rest_Api
  imports Prelude "HOL-Library.Word"
begin

text \<open>
  The code of the repository is written against libraries that are not part of it: the JSON
  values and the HTTP library of cpprestsdk (\<open>web::json\<close>, \<open>web::http\<close>), and the \<open>rest\<close>
  submodule (\<open>rest::DataType\<close>, \<open>rest/utils.h\<close>, \<open>rest::ProblemDetails\<close>,
  \<open>support::Thrower\<close>). They are parameters here: a record of operations over an arbitrary
  type \<open>'j\<close> of JSON values and an arbitrary type \<open>'t\<close> of throwers, one field for each
  operation the sources call. Every definition that calls one takes the record as its first
  argument.

  What the sources rely on is stated once, as the predicates \<open>json_laws\<close>, \<open>thrower_laws\<close> and
  \<open>rest_laws\<close>; theorems that need it have the predicate as a hypothesis. Rest_Instance gives a
  concrete JSON library for which they hold.
\<close>

section \<open>The operations\<close>

record 'j json_api =
  \<comment> \<open>\<open>v.as_object().at(k)\<close>, \<open>v.at(k)\<close>: throw unless \<open>v\<close> is an object that has \<open>k\<close>\<close>
  json_object_at :: "'j \<Rightarrow> string \<Rightarrow> 'j res"
  json_at :: "'j \<Rightarrow> string \<Rightarrow> 'j res"
  \<comment> \<open>\<open>v[k] = w\<close>: the value after the assignment\<close>
  json_set :: "'j \<Rightarrow> string \<Rightarrow> 'j \<Rightarrow> 'j"
  \<comment> \<open>constructors: \<open>value()\<close>, \<open>value(std::string)\<close>, \<open>value(unsigned)\<close>, \<open>value(int)\<close>, an array\<close>
  json_null :: "'j"
  json_of_string :: "string \<Rightarrow> 'j"
  json_of_uint :: "32 word \<Rightarrow> 'j"
  json_of_int :: "int \<Rightarrow> 'j"
  json_of_array :: "'j list \<Rightarrow> 'j"
  \<comment> \<open>tests and readers; the readers throw on a value of another type\<close>
  is_object :: "'j \<Rightarrow> bool"
  is_array :: "'j \<Rightarrow> bool"
  as_string :: "'j \<Rightarrow> string res"
  as_integer :: "'j \<Rightarrow> int res"
  as_uint64 :: "'j \<Rightarrow> 64 word res"   \<comment> \<open>\<open>as_number().to_uint64()\<close>\<close>
  as_array :: "'j \<Rightarrow> 'j list res"
  has_string_field :: "'j \<Rightarrow> string \<Rightarrow> bool"
  has_object_field :: "'j \<Rightarrow> string \<Rightarrow> bool"
  has_number_field :: "'j \<Rightarrow> string \<Rightarrow> bool"
  has_array_field :: "'j \<Rightarrow> string \<Rightarrow> bool"

record ('j, 't) rest_api = "'j json_api" +
  \<comment> \<open>\<open>support::Thrower\<close>: built with a prefix, called with a condition and a message, checked\<close>
  thrower_new :: "string \<Rightarrow> 't"
  thrower_if :: "'t \<Rightarrow> bool \<Rightarrow> string \<Rightarrow> 't"
  thrower_check :: "'t \<Rightarrow> unit res"
  \<comment> \<open>\<open>theObject\<close> after \<open>rest::DataType()\<close>, after \<open>rest::DataType(json)\<close>; \<open>toJson()\<close>\<close>
  datatype_new :: "'j"
  datatype_of_json :: "'j \<Rightarrow> 'j"
  datatype_toJson :: "'j \<Rightarrow> 'j"
  \<comment> \<open>\<open>rest/utils.h\<close>; \<open>setIfNotEmpty\<close> gives the object after the call\<close>
  setIfNotEmpty :: "'j \<Rightarrow> string \<Rightarrow> string \<Rightarrow> bool \<Rightarrow> 'j"
  stringOrEmpty :: "'j \<Rightarrow> string \<Rightarrow> string"
  notEmpty :: "'j \<Rightarrow> string \<Rightarrow> 't \<Rightarrow> 't"
  notEmptyIfPresent :: "'j \<Rightarrow> string \<Rightarrow> 't \<Rightarrow> 't"
  tooLong :: "'j \<Rightarrow> string \<Rightarrow> nat \<Rightarrow> 't \<Rightarrow> 't"
  notNumberIfPresent :: "'j \<Rightarrow> string \<Rightarrow> 't \<Rightarrow> 't"
  \<comment> \<open>\<open>rest::ProblemDetails(status, detail)\<close>: its \<open>status()\<close> and \<open>toJson()\<close>, and
      \<open>rest::safeProblemDetailsString\<close>\<close>
  problem_status :: "nat \<Rightarrow> string \<Rightarrow> nat"
  problem_toJson :: "nat \<Rightarrow> string \<Rightarrow> 'j"
  safeProblemDetailsString :: "'j \<Rightarrow> string"

text \<open>The string held by a field, if the value is an object with such a field.\<close>

definition string_field :: "('j, 'z) json_api_scheme \<Rightarrow> 'j \<Rightarrow> string \<Rightarrow> string option" where
  "string_field J j k =
     (case json_object_at J j k of
        Ret v \<Rightarrow> (case as_string J v of Ret s \<Rightarrow> Some s | _ \<Rightarrow> None)
      | _ \<Rightarrow> None)"

definition absent_field :: "('j, 'z) json_api_scheme \<Rightarrow> 'j \<Rightarrow> string \<Rightarrow> bool" where
  "absent_field J j k \<longleftrightarrow> (\<exists>e. json_object_at J j k = Raise e)"

section \<open>What the sources rely on\<close>

text \<open>
  JSON values, as documented for \<open>web::json::value\<close>: reading a field throws or gives a value
  and \<open>at\<close> agrees with \<open>as_object().at\<close>; an assignment to a field of an object (or of a null
  value, which becomes an object) is read back and leaves the other fields alone; the
  \<open>has_*_field\<close> tests say that the field exists with that type; constructors are read back,
  and strings, numbers, arrays and objects are different types.
\<close>

definition json_read_laws :: "('j, 'z) json_api_scheme \<Rightarrow> bool" where
  "json_read_laws J \<longleftrightarrow>
     (\<forall>j k. json_at J j k = json_object_at J j k) \<and>
     (\<forall>j k. json_object_at J j k \<noteq> Abort \<and> json_object_at J j k \<noteq> Undef) \<and>
     (\<forall>v. as_string J v \<noteq> Abort \<and> as_string J v \<noteq> Undef) \<and>
     (\<forall>v. as_array J v \<noteq> Abort \<and> as_array J v \<noteq> Undef) \<and>
     (\<forall>j k. has_string_field J j k \<longleftrightarrow>
        (\<exists>v s. json_object_at J j k = Ret v \<and> as_string J v = Ret s)) \<and>
     (\<forall>j k. has_object_field J j k \<longleftrightarrow>
        (\<exists>v. json_object_at J j k = Ret v \<and> is_object J v)) \<and>
     (\<forall>j k. has_array_field J j k \<longleftrightarrow>
        (\<exists>v. json_object_at J j k = Ret v \<and> is_array J v)) \<and>
     (\<forall>j k. has_number_field J j k \<longrightarrow>
        (\<exists>v n. json_object_at J j k = Ret v \<and> as_integer J v = Ret n)) \<and>
     (\<forall>v. is_array J v \<longleftrightarrow> (\<exists>vs. as_array J v = Ret vs)) \<and>
     (\<forall>v s. as_string J v = Ret s \<longrightarrow> \<not> is_object J v \<and> \<not> is_array J v) \<and>
     (\<forall>v. is_array J v \<longrightarrow> \<not> is_object J v)"

definition json_write_laws :: "('j, 'z) json_api_scheme \<Rightarrow> bool" where
  "json_write_laws J \<longleftrightarrow>
     (\<forall>j k v k'. is_object J j \<longrightarrow>
        json_object_at J (json_set J j k v) k' =
          (if k' = k then Ret v else json_object_at J j k')) \<and>
     (\<forall>j k v. is_object J j \<longrightarrow> is_object J (json_set J j k v)) \<and>
     (\<forall>k v. is_object J (json_set J (json_null J) k v)) \<and>
     (\<forall>k v. json_object_at J (json_set J (json_null J) k v) k = Ret v) \<and>
     (\<forall>s. as_string J (json_of_string J s) = Ret s) \<and>
     (\<forall>vs. as_array J (json_of_array J vs) = Ret vs) \<and>
     (\<forall>n j k. json_object_at J j k = Ret (json_of_int J n) \<longrightarrow> has_number_field J j k) \<and>
     (\<forall>w j k. json_object_at J j k = Ret (json_of_uint J w) \<longrightarrow> has_number_field J j k) \<and>
     (\<forall>n. - (2 ^ 31) \<le> n \<and> n < 2 ^ 31 \<longrightarrow> as_integer J (json_of_int J n) = Ret n)"

text \<open>
  A thrower throws when it is checked iff one of the conditions it was called with held, and
  then a \<open>std::runtime_error\<close>; the checks of \<open>rest/utils.h\<close> call it with the condition their
  name states (where a field exists with a type the check is not about, nothing is assumed).
\<close>

definition thrower_laws :: "('j, 't, 'z) rest_api_scheme \<Rightarrow> bool" where
  "thrower_laws R \<longleftrightarrow>
     (\<forall>p. thrower_check R (thrower_new R p) = Ret ()) \<and>
     (\<forall>t. thrower_check R t = Ret () \<or> (\<exists>m. thrower_check R t = Raise (RuntimeError m))) \<and>
     (\<forall>t c m. thrower_check R (thrower_if R t c m) = Ret () \<longleftrightarrow>
        thrower_check R t = Ret () \<and> \<not> c)"

definition check_laws :: "('j, 't, 'z) rest_api_scheme \<Rightarrow> bool" where
  "check_laws R \<longleftrightarrow>
     (\<forall>j k t. thrower_check R (notEmpty R j k t) = Ret () \<longleftrightarrow>
        thrower_check R t = Ret () \<and> (\<exists>s. string_field R j k = Some s \<and> s \<noteq> [])) \<and>
     (\<forall>j k t. thrower_check R (notEmptyIfPresent R j k t) = Ret () \<longrightarrow>
        thrower_check R t = Ret () \<and> string_field R j k \<noteq> Some []) \<and>
     (\<forall>j k t. thrower_check R t = Ret () \<and>
        (absent_field R j k \<or> (\<exists>s. string_field R j k = Some s \<and> s \<noteq> [])) \<longrightarrow>
        thrower_check R (notEmptyIfPresent R j k t) = Ret ()) \<and>
     (\<forall>j k n t. thrower_check R (tooLong R j k n t) = Ret () \<longrightarrow>
        thrower_check R t = Ret () \<and> (\<forall>s. string_field R j k = Some s \<longrightarrow> length s \<le> n)) \<and>
     (\<forall>j k n t. thrower_check R t = Ret () \<and>
        (absent_field R j k \<or> (\<exists>s. string_field R j k = Some s \<and> length s \<le> n)) \<longrightarrow>
        thrower_check R (tooLong R j k n t) = Ret ()) \<and>
     (\<forall>j k t. thrower_check R (notNumberIfPresent R j k t) = Ret () \<longleftrightarrow>
        thrower_check R t = Ret () \<and> (absent_field R j k \<or> has_number_field R j k))"

definition datatype_laws :: "('j, 't, 'z) rest_api_scheme \<Rightarrow> bool" where
  "datatype_laws R \<longleftrightarrow>
     is_object R (datatype_new R) \<and>
     (\<forall>k. absent_field R (datatype_new R) k) \<and>
     (\<forall>j. datatype_of_json R j = j) \<and> (\<forall>j. datatype_toJson R j = j) \<and>
     (\<forall>j k s. setIfNotEmpty R j k s False =
        (if s = [] then j else json_set R j k (json_of_string R s))) \<and>
     (\<forall>j k. stringOrEmpty R j k = (case string_field R j k of Some s \<Rightarrow> s | None \<Rightarrow> [])) \<and>
     (\<forall>st d. problem_status R st d = st)"

definition rest_laws :: "('j, 't, 'z) rest_api_scheme \<Rightarrow> bool" where
  "rest_laws R \<longleftrightarrow>
     json_read_laws R \<and> json_write_laws R \<and> thrower_laws R \<and> check_laws R \<and> datatype_laws R"

section \<open>The laws as rewrite rules\<close>

named_theorems rest_simps \<open>the laws of the libraries, conditional on \<open>rest_laws\<close>\<close>

lemma rest_lawsD:
  assumes "rest_laws R"
  shows "json_read_laws R" "json_write_laws R" "thrower_laws R" "check_laws R" "datatype_laws R"
  using assms by (simp_all add: rest_laws_def)

definition object_field :: "('j, 'z) json_api_scheme \<Rightarrow> 'j \<Rightarrow> string \<Rightarrow> 'j option" where
  "object_field J j k =
     (case json_object_at J j k of Ret v \<Rightarrow> (if is_object J v then Some v else None) | _ \<Rightarrow> None)"

definition string_or_absent :: "('j, 'z) json_api_scheme \<Rightarrow> 'j \<Rightarrow> string \<Rightarrow> bool" where
  "string_or_absent J j k \<longleftrightarrow> absent_field J j k \<or> string_field J j k \<noteq> None"

subsection \<open>Reading\<close>

lemma json_at_eq [rest_simps]: "rest_laws R \<Longrightarrow> json_at R j k = json_object_at R j k"
  by (simp add: rest_laws_def json_read_laws_def)

lemma json_object_at_survives:
  assumes "rest_laws R"
  obtains v where "json_object_at R j k = Ret v" | e where "json_object_at R j k = Raise e"
  using assms by (cases "json_object_at R j k") (auto simp: rest_laws_def json_read_laws_def)

lemma string_field_eq_Some:
  "string_field J j k = Some s \<longleftrightarrow> (\<exists>v. json_object_at J j k = Ret v \<and> as_string J v = Ret s)"
  by (auto simp: string_field_def split: res.splits)

lemma object_field_eq_Some:
  "object_field J j k = Some v \<longleftrightarrow> json_object_at J j k = Ret v \<and> is_object J v"
  by (auto simp: object_field_def split: res.splits if_splits)

lemma has_string_field_iff [rest_simps]:
  "rest_laws R \<Longrightarrow> has_string_field R j k \<longleftrightarrow> string_field R j k \<noteq> None"
  using string_field_eq_Some [of R j k]
  by (auto simp: rest_laws_def json_read_laws_def)

lemma has_object_field_iff [rest_simps]:
  "rest_laws R \<Longrightarrow> has_object_field R j k \<longleftrightarrow> object_field R j k \<noteq> None"
  using object_field_eq_Some [of R j k]
  by (auto simp: rest_laws_def json_read_laws_def)

lemma has_array_field_iff [rest_simps]:
  "rest_laws R \<Longrightarrow> has_array_field R j k \<longleftrightarrow>
    (\<exists>v vs. json_object_at R j k = Ret v \<and> as_array R v = Ret vs)"
  by (auto simp: rest_laws_def json_read_laws_def)

lemma read_string_field [rest_simps]:
  "rest_laws R \<Longrightarrow> string_field R j k = Some s \<Longrightarrow>
    res_bind (json_object_at R j k) (as_string R) = Ret s"
  by (auto simp: string_field_eq_Some)

lemma read_object_field:
  "object_field R j k = Some v \<Longrightarrow> json_object_at R j k = Ret v"
  by (simp add: object_field_eq_Some)

lemma absent_no_string [simp]: "absent_field J j k \<Longrightarrow> string_field J j k = None"
  by (auto simp: absent_field_def string_field_def)

lemma absent_no_object [simp]: "absent_field J j k \<Longrightarrow> object_field J j k = None"
  by (auto simp: absent_field_def object_field_def)

lemma string_no_object:
  "rest_laws R \<Longrightarrow> string_field R j k = Some s \<Longrightarrow> object_field R j k = None"
  by (auto simp: rest_laws_def json_read_laws_def string_field_eq_Some object_field_def)

lemma stringOrEmpty_eq [rest_simps]:
  "rest_laws R \<Longrightarrow> stringOrEmpty R j k = (case string_field R j k of Some s \<Rightarrow> s | None \<Rightarrow> [])"
  by (simp add: rest_laws_def datatype_laws_def)

lemma string_or_absentI [intro]:
  "absent_field J j k \<Longrightarrow> string_or_absent J j k"
  "string_field J j k = Some s \<Longrightarrow> string_or_absent J j k"
  by (auto simp: string_or_absent_def)

lemma toJson_eq [rest_simps]: "rest_laws R \<Longrightarrow> datatype_toJson R j = j"
  by (simp add: rest_laws_def datatype_laws_def)

lemma of_json_eq [rest_simps]: "rest_laws R \<Longrightarrow> datatype_of_json R j = j"
  by (simp add: rest_laws_def datatype_laws_def)

lemma problem_status_eq [rest_simps]: "rest_laws R \<Longrightarrow> problem_status R st d = st"
  by (simp add: rest_laws_def datatype_laws_def)

subsection \<open>Writing\<close>

lemma as_string_of_string [rest_simps]: "rest_laws R \<Longrightarrow> as_string R (json_of_string R s) = Ret s"
  by (simp add: rest_laws_def json_write_laws_def)

lemma as_array_of_array [rest_simps]: "rest_laws R \<Longrightarrow> as_array R (json_of_array R vs) = Ret vs"
  by (simp add: rest_laws_def json_write_laws_def)

lemma not_object_of_string [rest_simps]: "rest_laws R \<Longrightarrow> \<not> is_object R (json_of_string R s)"
  using as_string_of_string [of R s] by (auto simp: rest_laws_def json_read_laws_def)

lemma object_no_string:
  "rest_laws R \<Longrightarrow> is_object R v \<Longrightarrow> as_string R v \<noteq> Ret s"
  by (auto simp: rest_laws_def json_read_laws_def)

lemma is_object_new [rest_simps]: "rest_laws R \<Longrightarrow> is_object R (datatype_new R)"
  by (simp add: rest_laws_def datatype_laws_def)

lemma absent_new [rest_simps]: "rest_laws R \<Longrightarrow> absent_field R (datatype_new R) k"
  by (simp add: rest_laws_def datatype_laws_def)

lemma is_object_set [rest_simps]:
  "rest_laws R \<Longrightarrow> is_object R j \<Longrightarrow> is_object R (json_set R j k v)"
  by (simp add: rest_laws_def json_write_laws_def)

lemma object_at_set [rest_simps]:
  "rest_laws R \<Longrightarrow> is_object R j \<Longrightarrow>
   json_object_at R (json_set R j k v) k' = (if k' = k then Ret v else json_object_at R j k')"
  by (simp add: rest_laws_def json_write_laws_def)

lemma object_at_set_null [rest_simps]:
  "rest_laws R \<Longrightarrow> json_object_at R (json_set R (json_null R) k v) k = Ret v"
  by (simp add: rest_laws_def json_write_laws_def)

lemma string_field_set_string [rest_simps]:
  "rest_laws R \<Longrightarrow> is_object R j \<Longrightarrow>
   string_field R (json_set R j k (json_of_string R s)) k' =
     (if k' = k then Some s else string_field R j k')"
  by (simp add: string_field_def rest_simps)

lemma string_field_set_object [rest_simps]:
  "rest_laws R \<Longrightarrow> is_object R j \<Longrightarrow> is_object R v \<Longrightarrow>
   string_field R (json_set R j k v) k' = (if k' = k then None else string_field R j k')"
  using object_no_string [of R v] by (auto simp: string_field_def rest_simps split: res.splits)

lemma object_field_set_string [rest_simps]:
  "rest_laws R \<Longrightarrow> is_object R j \<Longrightarrow>
   object_field R (json_set R j k (json_of_string R s)) k' =
     (if k' = k then None else object_field R j k')"
  by (simp add: object_field_def rest_simps)

lemma object_field_set_object [rest_simps]:
  "rest_laws R \<Longrightarrow> is_object R j \<Longrightarrow> is_object R v \<Longrightarrow>
   object_field R (json_set R j k v) k' = (if k' = k then Some v else object_field R j k')"
  by (simp add: object_field_def rest_simps)

lemma absent_field_set [rest_simps]:
  "rest_laws R \<Longrightarrow> is_object R j \<Longrightarrow>
   absent_field R (json_set R j k v) k' \<longleftrightarrow> k' \<noteq> k \<and> absent_field R j k'"
  by (simp add: absent_field_def rest_simps)

lemma setIfNotEmpty_eq:
  "rest_laws R \<Longrightarrow>
   setIfNotEmpty R j k s False = (if s = [] then j else json_set R j k (json_of_string R s))"
  by (simp add: rest_laws_def datatype_laws_def)

lemma is_object_setIfNotEmpty [rest_simps]:
  "rest_laws R \<Longrightarrow> is_object R j \<Longrightarrow> is_object R (setIfNotEmpty R j k s False)"
  by (simp add: setIfNotEmpty_eq rest_simps)

lemma string_field_setIfNotEmpty [rest_simps]:
  "rest_laws R \<Longrightarrow> is_object R j \<Longrightarrow>
   string_field R (setIfNotEmpty R j k s False) k' =
     (if k' = k \<and> s \<noteq> [] then Some s else string_field R j k')"
  by (simp add: setIfNotEmpty_eq rest_simps)

lemma object_field_setIfNotEmpty [rest_simps]:
  "rest_laws R \<Longrightarrow> is_object R j \<Longrightarrow>
   object_field R (setIfNotEmpty R j k s False) k' =
     (if k' = k \<and> s \<noteq> [] then None else object_field R j k')"
  by (simp add: setIfNotEmpty_eq rest_simps)

lemma absent_field_setIfNotEmpty [rest_simps]:
  "rest_laws R \<Longrightarrow> is_object R j \<Longrightarrow>
   absent_field R (setIfNotEmpty R j k s False) k' \<longleftrightarrow>
     absent_field R j k' \<and> (k' = k \<longrightarrow> s = [])"
  by (auto simp: setIfNotEmpty_eq rest_simps)

lemma has_number_field_of_uint:
  "rest_laws R \<Longrightarrow> json_object_at R j k = Ret (json_of_uint R w) \<Longrightarrow> has_number_field R j k"
  by (drule rest_lawsD(2), unfold json_write_laws_def, elim conjE, blast)

lemma has_number_field_of_int:
  "rest_laws R \<Longrightarrow> json_object_at R j k = Ret (json_of_int R n) \<Longrightarrow> has_number_field R j k"
  by (drule rest_lawsD(2), unfold json_write_laws_def, elim conjE, blast)

lemma as_integer_of_int [rest_simps]:
  assumes "rest_laws R" "- (2 ^ 31) \<le> n" "n < 2 ^ 31"
  shows "as_integer R (json_of_int R n) = Ret n"
  using rest_lawsD(2) [OF assms(1)] assms(2,3) unfolding json_write_laws_def by blast

subsection \<open>Throwers\<close>

lemma check_new [rest_simps]: "rest_laws R \<Longrightarrow> thrower_check R (thrower_new R p) = Ret ()"
  by (simp add: rest_laws_def thrower_laws_def)

lemma check_if [rest_simps]:
  "rest_laws R \<Longrightarrow>
   thrower_check R (thrower_if R t c m) = Ret () \<longleftrightarrow> thrower_check R t = Ret () \<and> \<not> c"
  by (simp add: rest_laws_def thrower_laws_def)

lemma check_cases:
  assumes "rest_laws R"
  obtains "thrower_check R t = Ret ()" | m where "thrower_check R t = Raise (RuntimeError m)"
  using assms unfolding rest_laws_def thrower_laws_def by blast

lemma check_notEmpty [rest_simps]:
  "rest_laws R \<Longrightarrow> thrower_check R (notEmpty R j k t) = Ret () \<longleftrightarrow>
     thrower_check R t = Ret () \<and> (\<exists>s. string_field R j k = Some s \<and> s \<noteq> [])"
  by (drule rest_lawsD(4), unfold check_laws_def, elim conjE, blast)

lemma check_notEmptyIfPresentD:
  "rest_laws R \<Longrightarrow> thrower_check R (notEmptyIfPresent R j k t) = Ret () \<Longrightarrow>
     thrower_check R t = Ret () \<and> string_field R j k \<noteq> Some []"
  by (drule rest_lawsD(4), unfold check_laws_def, elim conjE, blast)

lemma check_notEmptyIfPresent [rest_simps]:
  "rest_laws R \<Longrightarrow> string_or_absent R j k \<Longrightarrow>
   thrower_check R (notEmptyIfPresent R j k t) = Ret () \<longleftrightarrow>
     thrower_check R t = Ret () \<and> string_field R j k \<noteq> Some []"
  (is "_ \<Longrightarrow> _ \<Longrightarrow> ?check \<longleftrightarrow> ?ok")
proof
  assume R: "rest_laws R" and k: "string_or_absent R j k"
  show "?ok" if "?check"
    using R that by (rule check_notEmptyIfPresentD)
  assume ?ok
  with k have "thrower_check R t = Ret () \<and>
      (absent_field R j k \<or> (\<exists>s. string_field R j k = Some s \<and> s \<noteq> []))"
    by (auto simp: string_or_absent_def)
  with rest_lawsD(4) [OF R] show ?check unfolding check_laws_def by blast
qed

lemma check_tooLongD:
  "rest_laws R \<Longrightarrow> thrower_check R (tooLong R j k n t) = Ret () \<Longrightarrow>
     thrower_check R t = Ret () \<and> (\<forall>s. string_field R j k = Some s \<longrightarrow> length s \<le> n)"
  by (drule rest_lawsD(4), unfold check_laws_def, elim conjE, blast)

lemma check_tooLong [rest_simps]:
  "rest_laws R \<Longrightarrow> string_or_absent R j k \<Longrightarrow>
   thrower_check R (tooLong R j k n t) = Ret () \<longleftrightarrow>
     thrower_check R t = Ret () \<and> (\<forall>s. string_field R j k = Some s \<longrightarrow> length s \<le> n)"
  (is "_ \<Longrightarrow> _ \<Longrightarrow> ?check \<longleftrightarrow> ?ok")
proof
  assume R: "rest_laws R" and k: "string_or_absent R j k"
  show "?ok" if "?check"
    using R that by (rule check_tooLongD)
  assume ?ok
  with k have "thrower_check R t = Ret () \<and>
      (absent_field R j k \<or> (\<exists>s. string_field R j k = Some s \<and> length s \<le> n))"
    by (auto simp: string_or_absent_def)
  with rest_lawsD(4) [OF R] show ?check unfolding check_laws_def by blast
qed

lemma check_notNumberIfPresent [rest_simps]:
  assumes "rest_laws R"
  shows "thrower_check R (notNumberIfPresent R j k t) = Ret () \<longleftrightarrow>
     thrower_check R t = Ret () \<and> (absent_field R j k \<or> has_number_field R j k)"
proof -
  have "\<forall>j k t. thrower_check R (notNumberIfPresent R j k t) = Ret () \<longleftrightarrow>
      thrower_check R t = Ret () \<and> (absent_field R j k \<or> has_number_field R j k)"
    using rest_lawsD(4) [OF assms] unfolding check_laws_def by (elim conjE)
  then show ?thesis by (elim allE)
qed

end
