(* ===== verification/Rest_Instance.thy ===== *)
theory Rest_Instance
  imports Rest_Api
begin

text \<open>
  A concrete JSON library: the instance at which theorems with the hypothesis \<open>rest_laws\<close> are
  evaluated, and the proof that the hypothesis can hold. Nothing here models code of the
  repository.
\<close>

datatype json =
    JNull
  | JNumber int
  | JString string
  | JArray "json list"
  | JObject "(string \<times> json) list"

fun jobject_at :: "json \<Rightarrow> string \<Rightarrow> json res" where
  "jobject_at (JObject fs) k =
     (case map_of fs k of Some v \<Rightarrow> Ret v | None \<Rightarrow> Raise (OtherStd ''Key not found''))"
| "jobject_at _ k = Raise (OtherStd ''not an object'')"

fun jset :: "json \<Rightarrow> string \<Rightarrow> json \<Rightarrow> json" where
  "jset (JObject fs) k v = JObject (AList.update k v fs)"
| "jset _ k v = JObject [(k, v)]"

fun jis_object :: "json \<Rightarrow> bool" where
  "jis_object (JObject fs) = True"
| "jis_object _ = False"

fun jis_array :: "json \<Rightarrow> bool" where
  "jis_array (JArray vs) = True"
| "jis_array _ = False"

fun jas_string :: "json \<Rightarrow> string res" where
  "jas_string (JString s) = Ret s"
| "jas_string _ = Raise (OtherStd ''not a string'')"

fun jas_integer :: "json \<Rightarrow> int res" where
  "jas_integer (JNumber n) = Ret n"
| "jas_integer _ = Raise (OtherStd ''not a number'')"

fun jas_uint64 :: "json \<Rightarrow> 64 word res" where
  "jas_uint64 (JNumber n) = Ret (word_of_int n)"
| "jas_uint64 _ = Raise (OtherStd ''not a number'')"

fun jas_array :: "json \<Rightarrow> json list res" where
  "jas_array (JArray vs) = Ret vs"
| "jas_array _ = Raise (OtherStd ''not an array'')"

text \<open>The string of a field of an object, if it has one; whether it has the field at all.\<close>

fun jstring_field :: "json \<Rightarrow> string \<Rightarrow> string option" where
  "jstring_field (JObject fs) k = (case map_of fs k of Some (JString s) \<Rightarrow> Some s | _ \<Rightarrow> None)"
| "jstring_field _ k = None"

fun jhas :: "json \<Rightarrow> string \<Rightarrow> bool" where
  "jhas (JObject fs) k = (map_of fs k \<noteq> None)"
| "jhas _ k = False"

fun jhas_number :: "json \<Rightarrow> string \<Rightarrow> bool" where
  "jhas_number (JObject fs) k = (case map_of fs k of Some (JNumber n) \<Rightarrow> True | _ \<Rightarrow> False)"
| "jhas_number _ k = False"

text \<open>A thrower is the messages collected so far; it throws when there are any.\<close>

definition jthrow :: "string list \<Rightarrow> bool \<Rightarrow> string \<Rightarrow> string list" where
  "jthrow t c m = (if c then t @ [m] else t)"

definition jcheck :: "string list \<Rightarrow> unit res" where
  "jcheck t = (if t = [] then Ret () else Raise (RuntimeError (concat t)))"

definition jrest :: "(json, string list) rest_api" where
  "jrest = \<lparr>
     json_object_at = jobject_at, json_at = jobject_at, json_set = jset,
     json_null = JNull, json_of_string = JString, json_of_uint = (\<lambda>w. JNumber (uint w)),
     json_of_int = JNumber, json_of_array = JArray,
     is_object = jis_object, is_array = jis_array,
     as_string = jas_string, as_integer = jas_integer, as_uint64 = jas_uint64,
     as_array = jas_array,
     has_string_field = (\<lambda>j k. jstring_field j k \<noteq> None),
     has_object_field = (\<lambda>j k. case jobject_at j k of Ret v \<Rightarrow> jis_object v | _ \<Rightarrow> False),
     has_number_field = jhas_number,
     has_array_field = (\<lambda>j k. case jobject_at j k of Ret v \<Rightarrow> jis_array v | _ \<Rightarrow> False),
     thrower_new = (\<lambda>p. []), thrower_if = jthrow, thrower_check = jcheck,
     datatype_new = JObject [], datatype_of_json = id, datatype_toJson = id,
     setIfNotEmpty = (\<lambda>j k s _. if s = [] then j else jset j k (JString s)),
     stringOrEmpty = (\<lambda>j k. case jstring_field j k of Some s \<Rightarrow> s | None \<Rightarrow> []),
     notEmpty = (\<lambda>j k t. jthrow t (jstring_field j k \<in> {None, Some []}) (k @ '' missing'')),
     notEmptyIfPresent = (\<lambda>j k t. jthrow t (jstring_field j k = Some []) (k @ '' empty'')),
     tooLong = (\<lambda>j k n t. jthrow t
        (case jstring_field j k of Some s \<Rightarrow> n < length s | None \<Rightarrow> False) (k @ '' too long'')),
     notNumberIfPresent = (\<lambda>j k t. jthrow t (jhas j k \<and> \<not> jhas_number j k) (k @ '' bad'')),
     problem_status = (\<lambda>st d. st),
     problem_toJson = (\<lambda>st d. JObject [(''status'', JNumber (int st)), (''detail'', JString d)]),
     safeProblemDetailsString = (\<lambda>j. case jstring_field j ''detail'' of Some s \<Rightarrow> s | None \<Rightarrow> [])
   \<rparr>"

lemmas jrest_simps = jrest_def jthrow_def jcheck_def

lemma jobject_at_survives: "jobject_at j k \<noteq> Abort" "jobject_at j k \<noteq> Undef"
  by (cases j; simp split: option.split)+

lemma jstring_field_eq: "string_field jrest j k = jstring_field j k"
  by (cases j) (auto simp: string_field_def jrest_def split: option.split json.split)

lemma jabsent_eq: "absent_field jrest j k \<longleftrightarrow> \<not> jhas j k"
  by (cases j) (auto simp: absent_field_def jrest_def split: option.split)

lemma jas_string_eq_Ret: "jas_string v = Ret s \<longleftrightarrow> v = JString s"
  by (cases v) auto

lemma jas_array_eq_Ret: "jas_array v = Ret vs \<longleftrightarrow> v = JArray vs"
  by (cases v) auto

lemma jstring_field_iff:
  "jstring_field j k = Some s \<longleftrightarrow> jobject_at j k = Ret (JString s)"
  by (cases j) (auto split: option.split json.split)

lemma jhas_number_iff: "jhas_number j k \<longleftrightarrow> (\<exists>n. jobject_at j k = Ret (JNumber n))"
  by (cases j) (auto split: option.split json.split)

lemma jstring_field_has: "jstring_field j k = Some s \<Longrightarrow> jhas j k"
  by (cases j) (auto split: option.splits)

lemma jas_survives: "jas_string v \<noteq> Abort" "jas_string v \<noteq> Undef"
    "jas_array v \<noteq> Abort" "jas_array v \<noteq> Undef"
  by (cases v; simp)+

lemma jis_iffs: "jis_object v \<longleftrightarrow> (\<exists>fs. v = JObject fs)" "jis_array v \<longleftrightarrow> (\<exists>vs. v = JArray vs)"
  by (cases v; simp)+

lemma jrest_read_laws: "json_read_laws jrest"
  by (auto simp: json_read_laws_def jrest_def jobject_at_survives jas_survives jstring_field_iff
      jas_string_eq_Ret jas_array_eq_Ret jis_iffs jhas_number_iff split: res.split)

lemma jrest_write_laws: "json_write_laws jrest"
  by (auto simp: json_write_laws_def jrest_def jis_iffs jhas_number_iff AList.update_conv')

lemma jrest_thrower_laws: "thrower_laws jrest"
  by (auto simp: thrower_laws_def jrest_simps)

lemma jrest_check_laws: "check_laws jrest"
  unfolding check_laws_def jstring_field_eq jabsent_eq
  by (auto simp: jrest_simps jstring_field_has split: option.splits if_splits)

lemma jrest_datatype_laws: "datatype_laws jrest"
  unfolding datatype_laws_def jstring_field_eq jabsent_eq
  by (auto simp: jrest_simps)

lemma jrest_laws [simp]: "rest_laws jrest"
  by (simp add: rest_laws_def jrest_read_laws jrest_write_laws jrest_thrower_laws
      jrest_check_laws jrest_datatype_laws)

subsection \<open>Sample messages\<close>

definition sample_info :: json where
  "sample_info = JObject [(''appName'', JString ''app''), (''appProvider'', JString ''prov''),
     (''appSoftVersion'', JString ''1.0'')]"

definition sample_response_info :: json where
  "sample_response_info = JObject [(''appName'', JString ''app''), (''appProvider'', JString ''prov''),
     (''appSoftVersion'', JString ''1.0''), (''referenceURI'', JString ''http://r1'')]"

definition sample_request :: json where
  "sample_request = JObject [(''associateUeAppId'', JString ''ue1''),
     (''callbackReference'', JString ''http://cb''), (''appInfo'', sample_info)]"

definition sample_response :: json where
  "sample_response = JObject [(''contextId'', JString ''c1''), (''associateUeAppId'', JString ''ue1''),
     (''callbackReference'', JString ''http://cb''), (''appInfo'', sample_response_info)]"

end
