(* ===== verification/App_Charcs.thy ===== *)
theory App_Charcs
  imports Rest_Instance
begin

text \<open>
  \<open>AppCharcs\<close> (EtsiMec/appcharcs.h, appcharcs.cpp): the application characteristics of an
  application-list entry. An object of the class is its \<open>theObject\<close>, a JSON value. The unsigned
  members are \<open>unsigned int\<close>, 32 bits wide.
\<close>

datatype ServiceCont = NOT_REQUIRED | REQUIRED

primrec ServiceCont_int :: "ServiceCont \<Rightarrow> int" where
  "ServiceCont_int NOT_REQUIRED = 0"
| "ServiceCont_int REQUIRED = 1"

definition AppCharcs ::
  "('j, 't, 'z) rest_api_scheme \<Rightarrow> 32 word \<Rightarrow> 32 word \<Rightarrow> 32 word \<Rightarrow> 32 word \<Rightarrow> ServiceCont \<Rightarrow> 'j"
where
  "AppCharcs R aMemory aStorage aLatency aBandwidth aServiceCont =
     (let theObject = datatype_new R;
          theObject = json_set R theObject ''memory'' (json_of_uint R aMemory);
          theObject = json_set R theObject ''storage'' (json_of_uint R aStorage);
          theObject = json_set R theObject ''latency'' (json_of_uint R aLatency);
          theObject = json_set R theObject ''bandwidth'' (json_of_uint R aBandwidth)
      in json_set R theObject ''serviceCont'' (json_of_int R (ServiceCont_int aServiceCont)))"

definition AppCharcs_default :: "('j, 't, 'z) rest_api_scheme \<Rightarrow> 'j" where
  "AppCharcs_default R = AppCharcs R 0 0 0 0 NOT_REQUIRED"

definition AppCharcs_of_json :: "('j, 't, 'z) rest_api_scheme \<Rightarrow> 'j \<Rightarrow> 'j res" where
  "AppCharcs_of_json R aJson =
     (let theObject = datatype_of_json R aJson;
          myThrower = thrower_new R ''Invalid AppCharcs: '';
          myThrower = notNumberIfPresent R aJson ''memory'' myThrower;
          myThrower = notNumberIfPresent R aJson ''storage'' myThrower;
          myThrower = notNumberIfPresent R aJson ''latency'' myThrower;
          myThrower = notNumberIfPresent R aJson ''bandwidth'' myThrower;
          myThrower = notNumberIfPresent R aJson ''serviceCont'' myThrower
      in res_bind
           (if has_number_field R aJson ''serviceCont'' then
              res_bind (json_at R aJson ''serviceCont'') (\<lambda>v.
              res_bind (as_integer R v) (\<lambda>myServiceCont.
                Ret (thrower_if R myThrower
                  (myServiceCont \<noteq> ServiceCont_int NOT_REQUIRED \<and>
                   myServiceCont \<noteq> ServiceCont_int REQUIRED)
                  ''invalid serviceCont value'')))
            else Ret myThrower)
           (\<lambda>myThrower. res_bind (thrower_check R myThrower) (\<lambda>_. Ret theObject)))"

lemma AppCharcs_is_object [rest_simps]: "rest_laws R \<Longrightarrow> is_object R (AppCharcs R m s l b c)"
  by (simp add: AppCharcs_def Let_def rest_simps)

lemma AppCharcs_at:
  assumes "rest_laws R"
  shows "json_object_at R (AppCharcs R m s l b c) ''memory'' = Ret (json_of_uint R m)"
    "json_object_at R (AppCharcs R m s l b c) ''storage'' = Ret (json_of_uint R s)"
    "json_object_at R (AppCharcs R m s l b c) ''latency'' = Ret (json_of_uint R l)"
    "json_object_at R (AppCharcs R m s l b c) ''bandwidth'' = Ret (json_of_uint R b)"
    "json_object_at R (AppCharcs R m s l b c) ''serviceCont'' =
       Ret (json_of_int R (ServiceCont_int c))"
  using assms by (simp_all add: AppCharcs_def Let_def rest_simps)

lemma AppCharcs_number_fields:
  assumes R: "rest_laws R"
    and k: "k \<in> {''memory'', ''storage'', ''latency'', ''bandwidth'', ''serviceCont''}"
  shows "has_number_field R (AppCharcs R m s l b c) k"
  using k AppCharcs_at [OF R, of m s l b c]
  by (auto intro: has_number_field_of_uint [OF R] has_number_field_of_int [OF R])

lemma as_integer_ServiceCont:
  "rest_laws R \<Longrightarrow> as_integer R (json_of_int R (ServiceCont_int c)) = Ret (ServiceCont_int c)"
  by (cases c) (simp_all add: rest_simps)

text \<open>Round trip: what the first constructor builds, the JSON constructor accepts unchanged.\<close>

lemma AppCharcs_of_AppCharcs [rest_simps]:
  assumes R: "rest_laws R"
  shows "AppCharcs_of_json R (AppCharcs R m s l b c) = Ret (AppCharcs R m s l b c)"
proof -
  have c: "\<not> (ServiceCont_int c \<noteq> 0 \<and> ServiceCont_int c \<noteq> 1)" by (cases c) auto
  show ?thesis
    using R c
    by (simp add: AppCharcs_of_json_def Let_def AppCharcs_at AppCharcs_number_fields
        as_integer_ServiceCont res_bind_eq_Ret rest_simps)
qed

text \<open>What the JSON constructor accepts: only numbers in the five fields, and 0 or 1 in the last.\<close>

lemma AppCharcs_of_json_accepts:
  assumes R: "rest_laws R" and acc: "AppCharcs_of_json R j = Ret obj"
  shows "obj = j"
    and "k \<in> {''memory'', ''storage'', ''latency'', ''bandwidth'', ''serviceCont''} \<Longrightarrow>
           absent_field R j k \<or> has_number_field R j k"
    and "has_number_field R j ''serviceCont'' \<Longrightarrow>
           \<exists>v. json_object_at R j ''serviceCont'' = Ret v \<and>
               (as_integer R v = Ret 0 \<or> as_integer R v = Ret 1)"
  using assms
  by (auto simp: AppCharcs_of_json_def Let_def rest_simps res_bind_eq_Ret split: if_splits)

text \<open>It throws nothing but \<open>std::runtime_error\<close>.\<close>

lemma AppCharcs_of_json_refuses:
  assumes R: "rest_laws R"
  shows "AppCharcs_of_json R j = Ret j \<or> (\<exists>m. AppCharcs_of_json R j = Raise (RuntimeError m))"
proof -
  have num: "\<exists>v n. json_at R j k = Ret v \<and> as_integer R v = Ret n" if "has_number_field R j k" for k
    using R that by (simp add: rest_laws_def json_read_laws_def)
  obtain t where "AppCharcs_of_json R j = res_bind (thrower_check R t) (\<lambda>_. Ret (datatype_of_json R j))"
    using num [of "''serviceCont''"] by (force simp: AppCharcs_of_json_def Let_def split: if_splits)
  then show ?thesis by (cases rule: check_cases [OF R, of t]) (auto simp: of_json_eq [OF R])
qed

end
