(* ===== verification/App_Info.thy ===== *)
theory App_Info
  imports App_Charcs
begin

text \<open>
  \<open>AppInfo\<close> (EtsiMec/appinfo.h, appinfo.cpp): the description of an application, in the three
  shapes the ETSI messages use. An object of the class is its \<open>theObject\<close>, a JSON value; the
  three constructors from strings, the constructor from JSON, the conversions and the getters
  are one definition each. \<open>nd\<close> is NDEBUG.
\<close>

section \<open>The class\<close>

datatype Message = AppContextRequest | AppContextResponse | ApplicationList

definition commonSetup ::
  "('j, 't, 'z) rest_api_scheme \<Rightarrow> string \<Rightarrow> string \<Rightarrow> string \<Rightarrow> string \<Rightarrow> 't \<Rightarrow> 'j \<Rightarrow> 'j \<times> 't" where
  "commonSetup R aAppName aAppProvider aAppSoftVersion aAppDescription aThrower theObject =
     (let aThrower = thrower_if R aThrower (aAppName = []) ''appName missing'';
          aThrower = thrower_if R aThrower (aAppProvider = []) ''appProvider missing'';
          aThrower = thrower_if R aThrower (length aAppName > 32)
                       ''appName exceeds 32 characters'';
          aThrower = thrower_if R aThrower (length aAppProvider > 32)
                       ''appProvider exceeds 32 characters'';
          aThrower = thrower_if R aThrower (length aAppSoftVersion > 32)
                       ''appSoftVersion exceeds 32 characters'';
          aThrower = thrower_if R aThrower (length aAppDescription > 128)
                       ''appDescription exceeds 128 characters'';
          theObject = setIfNotEmpty R theObject ''appName'' aAppName False;
          theObject = setIfNotEmpty R theObject ''appProvider'' aAppProvider False;
          theObject = setIfNotEmpty R theObject ''appSoftVersion'' aAppSoftVersion False;
          theObject = setIfNotEmpty R theObject ''appDescription'' aAppDescription False
      in (theObject, aThrower))"

definition AppInfo_request ::
  "('j, 't, 'z) rest_api_scheme \<Rightarrow> string \<Rightarrow> string \<Rightarrow> string \<Rightarrow> string \<Rightarrow> string \<Rightarrow> 'j res" where
  "AppInfo_request R aAppName aAppProvider aAppSoftVersion aAppDescription aAppPackageSource =
     (let myThrower = thrower_new R ''Invalid AppInfo: '';
          (theObject, myThrower) = commonSetup R aAppName aAppProvider aAppSoftVersion
             aAppDescription myThrower (datatype_new R)
      in res_bind (thrower_check R myThrower) (\<lambda>_.
           Ret (setIfNotEmpty R theObject ''appPackageSource'' aAppPackageSource False)))"

definition AppInfo_response ::
  "('j, 't, 'z) rest_api_scheme \<Rightarrow>
     string \<Rightarrow> string \<Rightarrow> string \<Rightarrow> string \<Rightarrow> string \<Rightarrow> string \<Rightarrow> 'j res" where
  "AppInfo_response R aAppName aAppProvider aAppSoftVersion aAppDescription aReferenceUri
       aAppPackageSource =
     (let myThrower = thrower_new R ''Invalid AppInfo: '';
          myThrower = thrower_if R myThrower (aReferenceUri = []) ''referenceURI missing'';
          (theObject, myThrower) = commonSetup R aAppName aAppProvider aAppSoftVersion
             aAppDescription myThrower (datatype_new R)
      in res_bind (thrower_check R myThrower) (\<lambda>_.
           Ret (setIfNotEmpty R (setIfNotEmpty R theObject ''referenceURI'' aReferenceUri False)
                 ''appPackageSource'' aAppPackageSource False)))"

definition AppInfo_list ::
  "('j, 't, 'z) rest_api_scheme \<Rightarrow> string \<Rightarrow> string \<Rightarrow> string \<Rightarrow> string \<Rightarrow> 'j \<Rightarrow> 'j res" where
  "AppInfo_list R aAppName aAppProvider aAppSoftVersion aAppDescription aAppCharcs =
     (let myThrower = thrower_new R ''Invalid AppInfo: '';
          (theObject, myThrower) = commonSetup R aAppName aAppProvider aAppSoftVersion
             aAppDescription myThrower (datatype_new R)
      in res_bind (thrower_check R myThrower) (\<lambda>_.
           Ret (json_set R theObject ''appCharcs'' (datatype_toJson R aAppCharcs))))"

definition AppInfo_of_json :: "('j, 't, 'z) rest_api_scheme \<Rightarrow> 'j \<Rightarrow> 'j res" where
  "AppInfo_of_json R aJson =
     (let theObject = datatype_of_json R aJson;
          myThrower = thrower_new R ''Invalid AppInfo: '';
          myThrower = notEmpty R aJson ''appName'' myThrower;
          myThrower = notEmpty R aJson ''appProvider'' myThrower;
          myThrower = tooLong R aJson ''appName'' 32 myThrower;
          myThrower = tooLong R aJson ''appProvider'' 32 myThrower;
          myThrower = tooLong R aJson ''appSoftVersion'' 32 myThrower;
          myThrower = tooLong R aJson ''appDescription'' 128 myThrower;
          myThrower = thrower_if R myThrower
            (has_string_field R aJson ''referenceURI'' \<and> has_object_field R aJson ''appCharcs'')
            ''referenceURI and appCharcs cannot be both present in AppInfo'';
          myThrower = (if has_string_field R aJson ''referenceURI''
                       then notEmpty R aJson ''referenceURI'' myThrower else myThrower)
      in res_bind (thrower_check R myThrower) (\<lambda>_.
           if has_object_field R aJson ''appCharcs'' then
             res_bind (json_at R aJson ''appCharcs'') (\<lambda>v.
             res_bind (AppCharcs_of_json R v) (\<lambda>_. Ret theObject))
           else Ret theObject))"

definition appName :: "('j, 'z) json_api_scheme \<Rightarrow> bool \<Rightarrow> 'j \<Rightarrow> string res" where
  "appName R nd theObject =
     res_bind (cassert nd (has_string_field R theObject ''appName'')) (\<lambda>_.
     res_bind (json_object_at R theObject ''appName'') (as_string R))"

definition appProvider :: "('j, 'z) json_api_scheme \<Rightarrow> bool \<Rightarrow> 'j \<Rightarrow> string res" where
  "appProvider R nd theObject =
     res_bind (cassert nd (has_string_field R theObject ''appProvider'')) (\<lambda>_.
     res_bind (json_object_at R theObject ''appProvider'') (as_string R))"

definition appSoftVersion :: "('j, 't, 'z) rest_api_scheme \<Rightarrow> 'j \<Rightarrow> string" where
  "appSoftVersion R theObject = stringOrEmpty R theObject ''appSoftVersion''"

definition appDescription :: "('j, 't, 'z) rest_api_scheme \<Rightarrow> 'j \<Rightarrow> string" where
  "appDescription R theObject = stringOrEmpty R theObject ''appDescription''"

definition appPackageSource :: "('j, 't, 'z) rest_api_scheme \<Rightarrow> 'j \<Rightarrow> string" where
  "appPackageSource R theObject = stringOrEmpty R theObject ''appPackageSource''"

definition message :: "('j, 'z) json_api_scheme \<Rightarrow> bool \<Rightarrow> 'j \<Rightarrow> Message res" where
  "message R nd theObject =
     (if has_object_field R theObject ''appCharcs'' then
        res_bind (cassert nd (\<not> has_string_field R theObject ''referenceURI''))
          (\<lambda>_. Ret ApplicationList)
      else if has_string_field R theObject ''referenceURI'' then Ret AppContextResponse
      else Ret AppContextRequest)"

definition referenceUri :: "('j, 'z) json_api_scheme \<Rightarrow> bool \<Rightarrow> 'j \<Rightarrow> string res" where
  "referenceUri R nd theObject =
     res_bind (message R nd theObject) (\<lambda>m.
     if m \<noteq> AppContextResponse then
       Raise (RuntimeError ''This message type does not have a referenceURI field'')
     else
       res_bind (cassert nd (has_string_field R theObject ''referenceURI'')) (\<lambda>_.
       res_bind (json_object_at R theObject ''referenceURI'') (as_string R)))"

definition makeAppContextResponse ::
  "('j, 't, 'z) rest_api_scheme \<Rightarrow> bool \<Rightarrow> 'j \<Rightarrow> string \<Rightarrow> 'j res" where
  "makeAppContextResponse R nd theObject aReferenceUri =
     res_bind (message R nd theObject) (\<lambda>m.
     if m \<noteq> AppContextRequest then Raise (RuntimeError ''Invalid AppContext structure type'')
     else if aReferenceUri = [] then Raise (RuntimeError ''referenceURI cannot be empty'')
     else
       res_bind (appName R nd theObject) (\<lambda>myName.
       res_bind (appProvider R nd theObject) (\<lambda>myProvider.
       AppInfo_response R myName myProvider (appSoftVersion R theObject)
         (appDescription R theObject) aReferenceUri (appPackageSource R theObject))))"

definition makeAppContextRequest ::
  "('j, 't, 'z) rest_api_scheme \<Rightarrow> bool \<Rightarrow> 'j \<Rightarrow> string \<Rightarrow> 'j res" where
  "makeAppContextRequest R nd theObject aAppPackageSource =
     res_bind (message R nd theObject) (\<lambda>m.
     if m \<noteq> ApplicationList then Raise (RuntimeError ''Invalid ApplicationList structure type'')
     else
       res_bind (appName R nd theObject) (\<lambda>myName.
       res_bind (appProvider R nd theObject) (\<lambda>myProvider.
       AppInfo_request R myName myProvider (appSoftVersion R theObject)
         (appDescription R theObject) aAppPackageSource)))"

definition toString_Message :: "Message \<Rightarrow> string" where
  "toString_Message aMessage =
     (if aMessage = AppContextRequest then ''AppContext (request)''
      else if aMessage = AppContextResponse then ''AppContext (response)''
      else if aMessage = ApplicationList then ''ApplicationList''
      else ''unknown'')"

text \<open>\<open>operator<<\<close>: the text it appends to the stream.\<close>

definition print_AppInfo :: "('j, 't, 'z) rest_api_scheme \<Rightarrow> bool \<Rightarrow> 'j \<Rightarrow> string res" where
  "print_AppInfo R nd theObject =
     res_bind (appName R nd theObject) (\<lambda>myName.
     res_bind (appProvider R nd theObject) (\<lambda>myProvider.
     res_bind (message R nd theObject) (\<lambda>myMessage.
     Ret (''appName '' @ myName @ '', '' @ ''appProvider '' @ myProvider @ '', '' @
          ''appSoftVersion '' @ appSoftVersion R theObject @ '', '' @
          ''appDescription '' @ appDescription R theObject @ '', '' @
          ''appPackageSource '' @ appPackageSource R theObject @ '', '' @
          toString_Message myMessage))))"

section \<open>What the constructors build\<close>

definition valid_app_args :: "string \<Rightarrow> string \<Rightarrow> string \<Rightarrow> string \<Rightarrow> bool" where
  "valid_app_args name prov ver desc \<longleftrightarrow>
     name \<noteq> [] \<and> prov \<noteq> [] \<and> length name \<le> 32 \<and> length prov \<le> 32 \<and>
     length ver \<le> 32 \<and> length desc \<le> 128"

definition non_empty :: "string \<Rightarrow> string option" where
  "non_empty s = (if s = [] then None else Some s)"

text \<open>The six string fields of an object, and the characteristics.\<close>

record app_fields =
  fName :: "string option"
  fProvider :: "string option"
  fVersion :: "string option"
  fDescription :: "string option"
  fPackage :: "string option"
  fReference :: "string option"

definition app_fields_of :: "('j, 'z) json_api_scheme \<Rightarrow> 'j \<Rightarrow> app_fields" where
  "app_fields_of R j =
     \<lparr>fName = string_field R j ''appName'', fProvider = string_field R j ''appProvider'',
      fVersion = string_field R j ''appSoftVersion'',
      fDescription = string_field R j ''appDescription'',
      fPackage = string_field R j ''appPackageSource'',
      fReference = string_field R j ''referenceURI''\<rparr>"

text \<open>No field of an object built by the code has a surprising type.\<close>

definition app_typed :: "('j, 'z) json_api_scheme \<Rightarrow> 'j \<Rightarrow> bool" where
  "app_typed R j \<longleftrightarrow> is_object R j \<and>
     string_or_absent R j ''appSoftVersion'' \<and> string_or_absent R j ''appDescription''"

lemmas app_ctor_defs = AppInfo_request_def AppInfo_response_def AppInfo_list_def commonSetup_def
  Let_def

lemma check_bind:
  "res_bind (thrower_check R t) (\<lambda>_. Ret x) = Ret y \<longleftrightarrow> thrower_check R t = Ret () \<and> y = x"
  by (cases "thrower_check R t") auto

lemma check_bind_fails:
  assumes R: "rest_laws R" and "thrower_check R t \<noteq> Ret ()"
  shows "\<exists>m. res_bind (thrower_check R t) f = Raise (RuntimeError m)"
  using R by (rule check_cases [of R t]) (use assms in auto)

lemma AppInfo_request_Ret:
  assumes R: "rest_laws R" and c: "AppInfo_request R name prov ver desc pkg = Ret obj"
  shows "valid_app_args name prov ver desc" "app_typed R obj"
    "app_fields_of R obj = \<lparr>fName = Some name, fProvider = Some prov, fVersion = non_empty ver,
       fDescription = non_empty desc, fPackage = non_empty pkg, fReference = None\<rparr>"
    "absent_field R obj ''appCharcs''"
  using assms
  by (auto simp: app_ctor_defs check_bind rest_simps valid_app_args_def app_typed_def
      app_fields_of_def non_empty_def string_or_absent_def)

lemma AppInfo_response_Ret:
  assumes R: "rest_laws R" and c: "AppInfo_response R name prov ver desc uri pkg = Ret obj"
  shows "valid_app_args name prov ver desc" "uri \<noteq> []" "app_typed R obj"
    "app_fields_of R obj = \<lparr>fName = Some name, fProvider = Some prov, fVersion = non_empty ver,
       fDescription = non_empty desc, fPackage = non_empty pkg, fReference = Some uri\<rparr>"
    "absent_field R obj ''appCharcs''"
  using assms
  by (auto simp: app_ctor_defs check_bind rest_simps valid_app_args_def app_typed_def
      app_fields_of_def non_empty_def string_or_absent_def)

lemma AppInfo_list_Ret:
  assumes R: "rest_laws R" and c: "AppInfo_list R name prov ver desc charcs = Ret obj"
    and obj: "is_object R charcs"
  shows "valid_app_args name prov ver desc" "app_typed R obj"
    "app_fields_of R obj = \<lparr>fName = Some name, fProvider = Some prov, fVersion = non_empty ver,
       fDescription = non_empty desc, fPackage = None, fReference = None\<rparr>"
    "object_field R obj ''appCharcs'' = Some charcs"
  using assms
  by (auto simp: app_ctor_defs check_bind rest_simps valid_app_args_def app_typed_def
      app_fields_of_def non_empty_def string_or_absent_def)

lemma AppInfo_request_valid:
  "rest_laws R \<Longrightarrow> valid_app_args name prov ver desc \<Longrightarrow>
   \<exists>obj. AppInfo_request R name prov ver desc pkg = Ret obj"
  by (simp add: app_ctor_defs check_bind rest_simps valid_app_args_def)

lemma AppInfo_response_valid:
  "rest_laws R \<Longrightarrow> valid_app_args name prov ver desc \<Longrightarrow> uri \<noteq> [] \<Longrightarrow>
   \<exists>obj. AppInfo_response R name prov ver desc uri pkg = Ret obj"
  by (simp add: app_ctor_defs check_bind rest_simps valid_app_args_def)

lemma AppInfo_list_valid:
  "rest_laws R \<Longrightarrow> valid_app_args name prov ver desc \<Longrightarrow>
   \<exists>obj. AppInfo_list R name prov ver desc charcs = Ret obj"
  by (simp add: app_ctor_defs check_bind rest_simps valid_app_args_def)

lemma AppInfo_request_invalid:
  "rest_laws R \<Longrightarrow> \<not> valid_app_args name prov ver desc \<Longrightarrow>
   \<exists>m. AppInfo_request R name prov ver desc pkg = Raise (RuntimeError m)"
  unfolding app_ctor_defs prod.case
  by (rule check_bind_fails) (auto simp: rest_simps valid_app_args_def)

lemma AppInfo_response_invalid:
  "rest_laws R \<Longrightarrow> \<not> (valid_app_args name prov ver desc \<and> uri \<noteq> []) \<Longrightarrow>
   \<exists>m. AppInfo_response R name prov ver desc uri pkg = Raise (RuntimeError m)"
  unfolding app_ctor_defs prod.case
  by (rule check_bind_fails) (auto simp: rest_simps valid_app_args_def)

lemma AppInfo_list_invalid:
  "rest_laws R \<Longrightarrow> \<not> valid_app_args name prov ver desc \<Longrightarrow>
   \<exists>m. AppInfo_list R name prov ver desc charcs = Raise (RuntimeError m)"
  unfolding app_ctor_defs prod.case
  by (rule check_bind_fails) (auto simp: rest_simps valid_app_args_def)

section \<open>Reading an object back\<close>

lemma appName_Ret:
  "rest_laws R \<Longrightarrow> string_field R j ''appName'' = Some s \<Longrightarrow> appName R nd j = Ret s"
  by (simp add: appName_def rest_simps)

lemma appProvider_Ret:
  "rest_laws R \<Longrightarrow> string_field R j ''appProvider'' = Some s \<Longrightarrow> appProvider R nd j = Ret s"
  by (simp add: appProvider_def rest_simps)

lemma message_eq:
  "rest_laws R \<Longrightarrow> message R nd j =
     (if object_field R j ''appCharcs'' \<noteq> None
      then (if nd \<or> string_field R j ''referenceURI'' = None then Ret ApplicationList else Abort)
      else if string_field R j ''referenceURI'' \<noteq> None then Ret AppContextResponse
      else Ret AppContextRequest)"
  by (simp add: message_def rest_simps cassert_def)

definition or_empty :: "string option \<Rightarrow> string" where
  "or_empty x = (case x of Some s \<Rightarrow> s | None \<Rightarrow> [])"

lemma or_empty_simps [simp]: "or_empty None = []" "or_empty (Some s) = s"
  "or_empty (non_empty s) = s"
  by (simp_all add: or_empty_def non_empty_def)

lemma optional_getters:
  "rest_laws R \<Longrightarrow> appSoftVersion R j = or_empty (fVersion (app_fields_of R j))"
  "rest_laws R \<Longrightarrow> appDescription R j = or_empty (fDescription (app_fields_of R j))"
  "rest_laws R \<Longrightarrow> appPackageSource R j = or_empty (fPackage (app_fields_of R j))"
  by (simp_all add: appSoftVersion_def appDescription_def appPackageSource_def app_fields_of_def
      or_empty_def rest_simps)

lemma fields_appName:
  "rest_laws R \<Longrightarrow> fName (app_fields_of R j) = Some s \<Longrightarrow> appName R nd j = Ret s"
  "rest_laws R \<Longrightarrow> fProvider (app_fields_of R j) = Some s \<Longrightarrow> appProvider R nd j = Ret s"
  by (simp_all add: app_fields_of_def appName_Ret appProvider_Ret)

text \<open>What the JSON constructor demands of a value.\<close>

definition app_acceptable :: "('j, 't, 'z) rest_api_scheme \<Rightarrow> 'j \<Rightarrow> bool" where
  "app_acceptable R j \<longleftrightarrow>
     (\<exists>n. fName (app_fields_of R j) = Some n \<and> n \<noteq> [] \<and> length n \<le> 32) \<and>
     (\<exists>p. fProvider (app_fields_of R j) = Some p \<and> p \<noteq> [] \<and> length p \<le> 32) \<and>
     length (or_empty (fVersion (app_fields_of R j))) \<le> 32 \<and>
     length (or_empty (fDescription (app_fields_of R j))) \<le> 128 \<and>
     fReference (app_fields_of R j) \<noteq> Some [] \<and>
     (fReference (app_fields_of R j) = None \<or> object_field R j ''appCharcs'' = None) \<and>
     (\<forall>c. object_field R j ''appCharcs'' = Some c \<longrightarrow> (\<exists>c'. AppCharcs_of_json R c = Ret c'))"

lemma AppInfo_of_json_sound:
  assumes R: "rest_laws R" and acc: "AppInfo_of_json R j = Ret obj"
  shows "obj = j \<and> app_acceptable R j"
proof -
  let ?t = "notEmpty R j ''appProvider'' (notEmpty R j ''appName''
    (thrower_new R ''Invalid AppInfo: ''))"
  let ?u = "tooLong R j ''appProvider'' 32 (tooLong R j ''appName'' 32 ?t)"
  let ?v = "tooLong R j ''appDescription'' 128 (tooLong R j ''appSoftVersion'' 32 ?u)"
  let ?both = "has_string_field R j ''referenceURI'' \<and> has_object_field R j ''appCharcs''"
  let ?w = "thrower_if R ?v ?both ''referenceURI and appCharcs cannot be both present in AppInfo''"
  from acc have w: "thrower_check R (if has_string_field R j ''referenceURI''
        then notEmpty R j ''referenceURI'' ?w else ?w) = Ret ()"
    and obj: "obj = j"
    and charcs: "has_object_field R j ''appCharcs'' \<Longrightarrow>
        \<exists>v c'. json_at R j ''appCharcs'' = Ret v \<and> AppCharcs_of_json R v = Ret c'"
    unfolding AppInfo_of_json_def Let_def res_bind_eq_Ret
    by (auto simp: of_json_eq [OF R] res_bind_eq_Ret split: if_split_asm)
  have charcs: "\<exists>c'. AppCharcs_of_json R c = Ret c'"
    if "object_field R j ''appCharcs'' = Some c" for c
    using charcs that by (auto simp: has_object_field_iff [OF R] json_at_eq [OF R] object_field_eq_Some)
  from w have "thrower_check R ?w = Ret ()"
    and ref: "string_field R j ''referenceURI'' \<noteq> Some []"
    by (auto simp: check_notEmpty [OF R] has_string_field_iff [OF R] split: if_split_asm)
  then have v: "thrower_check R ?v = Ret ()" and both: "\<not> ?both"
    by (simp_all add: check_if [OF R])
  note d = check_tooLongD [OF R v]
  note ver = check_tooLongD [OF R d [THEN conjunct1]]
  note prov = check_tooLongD [OF R ver [THEN conjunct1]]
  note name = check_tooLongD [OF R prov [THEN conjunct1]]
  have len: "length (or_empty (string_field R j k)) \<le> n"
    if "\<forall>s. string_field R j k = Some s \<longrightarrow> length s \<le> n" for k n
    using that by (cases "string_field R j k") auto
  from name have np: "(\<exists>s. string_field R j ''appName'' = Some s \<and> s \<noteq> [])"
      "(\<exists>s. string_field R j ''appProvider'' = Some s \<and> s \<noteq> [])"
    by (simp_all add: check_notEmpty [OF R])
  have "app_acceptable R j"
    unfolding app_acceptable_def app_fields_of_def app_fields.simps
    using d ver prov name np both ref charcs
    by (intro conjI len) (auto simp: has_string_field_iff [OF R] has_object_field_iff [OF R])
  with obj show ?thesis by simp
qed

lemma AppInfo_of_json_refuses:
  assumes R: "rest_laws R"
  shows "AppInfo_of_json R j = Ret j \<or> (\<exists>m. AppInfo_of_json R j = Raise (RuntimeError m))"
proof -
  let ?rest = "if has_object_field R j ''appCharcs'' then
      res_bind (json_at R j ''appCharcs'') (\<lambda>v. res_bind (AppCharcs_of_json R v) (\<lambda>_. Ret j))
    else Ret j"
  have "?rest = Ret j \<or> (\<exists>m. ?rest = Raise (RuntimeError m))"
  proof (cases "object_field R j ''appCharcs''")
    case (Some v)
    then have "json_at R j ''appCharcs'' = Ret v" by (simp add: json_at_eq [OF R] object_field_eq_Some)
    then show ?thesis using AppCharcs_of_json_refuses [OF R, of v] by auto
  qed (simp add: has_object_field_iff [OF R])
  moreover obtain t where "AppInfo_of_json R j = res_bind (thrower_check R t) (\<lambda>_. ?rest)"
    by (simp add: AppInfo_of_json_def Let_def of_json_eq [OF R])
  ultimately show ?thesis by (cases rule: check_cases [OF R, of t]) auto
qed

lemma AppInfo_of_json_complete:
  assumes R: "rest_laws R" and acc: "app_acceptable R j"
    and typed: "string_or_absent R j ''appSoftVersion''" "string_or_absent R j ''appDescription''"
  shows "AppInfo_of_json R j = Ret j"
proof -
  have *: "\<forall>s. string_field R j k = Some s \<longrightarrow> length s \<le> n"
    if "length (or_empty (string_field R j k)) \<le> n" for k n
    using that by auto
  obtain n p where np: "string_field R j ''appName'' = Some n" "n \<noteq> []" "length n \<le> 32"
      "string_field R j ''appProvider'' = Some p" "p \<noteq> []" "length p \<le> 32"
    using acc by (auto simp: app_acceptable_def app_fields_of_def)
  have soa: "string_or_absent R j ''appName''" "string_or_absent R j ''appProvider''"
    using np by auto
  have vd: "\<forall>s. string_field R j ''appSoftVersion'' = Some s \<longrightarrow> length s \<le> 32"
      "\<forall>s. string_field R j ''appDescription'' = Some s \<longrightarrow> length s \<le> 128"
    using acc by (auto simp: app_acceptable_def app_fields_of_def)
  have ref: "string_field R j ''referenceURI'' \<noteq> Some []"
      "string_field R j ''referenceURI'' = None \<or> object_field R j ''appCharcs'' = None"
    using acc by (auto simp: app_acceptable_def app_fields_of_def)
  let ?t1 = "notEmpty R j ''appProvider'' (notEmpty R j ''appName''
    (thrower_new R ''Invalid AppInfo: ''))"
  let ?t2 = "tooLong R j ''appProvider'' 32 (tooLong R j ''appName'' 32 ?t1)"
  let ?t3 = "tooLong R j ''appDescription'' 128 (tooLong R j ''appSoftVersion'' 32 ?t2)"
  have "thrower_check R ?t1 = Ret ()"
    using np by (simp add: R check_notEmpty check_new)
  then have "thrower_check R ?t2 = Ret ()"
    using np soa by (simp add: R check_tooLong)
  then have t3: "thrower_check R ?t3 = Ret ()"
    using typed vd by (simp add: R check_tooLong)
  have "thrower_check R (thrower_if R ?t3
      (has_string_field R j ''referenceURI'' \<and> has_object_field R j ''appCharcs'') m') = Ret ()"
    for m'
    using t3 ref by (auto simp: R check_if has_string_field_iff has_object_field_iff)
  then have check: "thrower_check R
      (if has_string_field R j ''referenceURI''
       then notEmpty R j ''referenceURI'' (thrower_if R ?t3
         (has_string_field R j ''referenceURI'' \<and> has_object_field R j ''appCharcs'') m')
       else thrower_if R ?t3
         (has_string_field R j ''referenceURI'' \<and> has_object_field R j ''appCharcs'') m') = Ret ()"
    for m'
    using ref(1) by (cases "string_field R j ''referenceURI''")
      (simp_all add: R check_notEmpty has_string_field_iff)
  have charcs: "\<exists>c c'. json_object_at R j ''appCharcs'' = Ret c \<and> AppCharcs_of_json R c = Ret c'"
    if "object_field R j ''appCharcs'' \<noteq> None"
    using acc that by (auto simp: app_acceptable_def object_field_eq_Some)
  show ?thesis
    using R charcs unfolding AppInfo_of_json_def Let_def check
    by (auto simp: rest_simps)
qed

lemma constructed_acceptable:
  assumes R: "rest_laws R"
  shows "AppInfo_request R name prov ver desc pkg = Ret obj \<Longrightarrow> app_acceptable R obj"
    and "AppInfo_response R name prov ver desc uri pkg = Ret obj \<Longrightarrow> app_acceptable R obj"
    and "AppInfo_list R name prov ver desc (AppCharcs R m s l b c) = Ret obj \<Longrightarrow>
           app_acceptable R obj"
proof -
  show "app_acceptable R obj" if "AppInfo_request R name prov ver desc pkg = Ret obj"
    using AppInfo_request_Ret [OF R that] by (auto simp: app_acceptable_def valid_app_args_def)
  show "app_acceptable R obj" if "AppInfo_response R name prov ver desc uri pkg = Ret obj"
    using AppInfo_response_Ret [OF R that] by (auto simp: app_acceptable_def valid_app_args_def)
  show "app_acceptable R obj" if "AppInfo_list R name prov ver desc (AppCharcs R m s l b c) = Ret obj"
    using AppInfo_list_Ret [OF R that AppCharcs_is_object [OF R]] AppCharcs_of_AppCharcs [OF R]
    by (auto simp: app_acceptable_def valid_app_args_def)
qed

lemma app_typedD:
  "app_typed R j \<Longrightarrow> string_or_absent R j ''appSoftVersion''"
  "app_typed R j \<Longrightarrow> string_or_absent R j ''appDescription''"
  by (simp_all add: app_typed_def)

section \<open>Converting a request into a response\<close>

lemma makeAppContextResponse_request:
  assumes R: "rest_laws R"
    and req: "object_field R j ''appCharcs'' = None" "string_field R j ''referenceURI'' = None"
    and acc: "app_acceptable R j" and uri: "uri \<noteq> []"
  shows "\<exists>obj. makeAppContextResponse R nd j uri = Ret obj \<and>
    app_fields_of R obj = (app_fields_of R j)
      \<lparr>fVersion := non_empty (appSoftVersion R j), fDescription := non_empty (appDescription R j),
       fPackage := non_empty (appPackageSource R j), fReference := Some uri\<rparr> \<and>
    message R nd obj = Ret AppContextResponse \<and> referenceUri R nd obj = Ret uri \<and>
    app_acceptable R obj \<and> app_typed R obj"
proof -
  obtain n p where np: "string_field R j ''appName'' = Some n" "n \<noteq> []" "length n \<le> 32"
      "string_field R j ''appProvider'' = Some p" "p \<noteq> []" "length p \<le> 32"
      and "length (appSoftVersion R j) \<le> 32" "length (appDescription R j) \<le> 128"
    using acc R by (auto simp: app_acceptable_def app_fields_of_def optional_getters)
  then have "valid_app_args n p (appSoftVersion R j) (appDescription R j)"
    by (simp add: valid_app_args_def)
  then obtain obj where obj: "AppInfo_response R n p (appSoftVersion R j) (appDescription R j)
      uri (appPackageSource R j) = Ret obj"
    using AppInfo_response_valid [OF R _ uri] by blast
  note f = AppInfo_response_Ret [OF R obj]
  have "makeAppContextResponse R nd j uri = Ret obj"
    using R np req uri obj
    by (simp add: makeAppContextResponse_def message_eq appName_Ret appProvider_Ret)
  moreover have "string_field R obj ''referenceURI'' = Some uri" "object_field R obj ''appCharcs'' = None"
    using f by (auto simp: app_fields_of_def)
  moreover from this have "message R nd obj = Ret AppContextResponse" "referenceUri R nd obj = Ret uri"
    using R by (simp_all add: message_eq referenceUri_def rest_simps)
  moreover have "app_fields_of R obj = (app_fields_of R j)
      \<lparr>fVersion := non_empty (appSoftVersion R j), fDescription := non_empty (appDescription R j),
       fPackage := non_empty (appPackageSource R j), fReference := Some uri\<rparr>"
    using f(4) np by (simp add: app_fields_of_def)
  ultimately show ?thesis
    using constructed_acceptable(2) [OF R obj] f(3) by blast
qed

lemma makeAppContextResponse_refuses:
  assumes R: "rest_laws R"
    and "object_field R j ''appCharcs'' \<noteq> None \<and> string_field R j ''referenceURI'' = None \<or>
         object_field R j ''appCharcs'' = None \<and> string_field R j ''referenceURI'' \<noteq> None \<or>
         uri = [] \<and> object_field R j ''appCharcs'' = None"
  shows "\<exists>m. makeAppContextResponse R nd j uri = Raise (RuntimeError m)"
  using assms by (auto simp: makeAppContextResponse_def message_eq)

section \<open>Properties\<close>

lemma getters_of_fields:
  assumes R: "rest_laws R"
    and f: "app_fields_of R obj = \<lparr>fName = Some n, fProvider = Some p, fVersion = non_empty v,
      fDescription = non_empty d, fPackage = pk, fReference = ref\<rparr>"
  shows "appName R nd obj = Ret n" "appProvider R nd obj = Ret p" "appSoftVersion R obj = v"
    "appDescription R obj = d" "appPackageSource R obj = or_empty pk"
  using f by (simp_all add: optional_getters [OF R] fields_appName [OF R])

text \<open>The three constructors from strings accept exactly the arguments with a non-empty name and
  provider within the length limits of the standard (32 and 128 characters), the one for a
  response also only a non-empty referenceURI; on any other arguments they throw
  std::runtime_error.\<close>

theorem AppInfo_constructors_accept:
  assumes R: "rest_laws R"
  shows "(if valid_app_args n p v d then \<exists>obj. AppInfo_request R n p v d pkg = Ret obj
      else \<exists>m. AppInfo_request R n p v d pkg = Raise (RuntimeError m)) \<and>
    (if valid_app_args n p v d \<and> uri \<noteq> [] then \<exists>obj. AppInfo_response R n p v d uri pkg = Ret obj
      else \<exists>m. AppInfo_response R n p v d uri pkg = Raise (RuntimeError m)) \<and>
    (if valid_app_args n p v d then \<exists>obj. AppInfo_list R n p v d charcs = Ret obj
      else \<exists>m. AppInfo_list R n p v d charcs = Raise (RuntimeError m))"
  using AppInfo_request_valid [OF R] AppInfo_request_invalid [OF R]
    AppInfo_response_valid [OF R] AppInfo_response_invalid [OF R]
    AppInfo_list_valid [OF R] AppInfo_list_invalid [OF R]
  by simp

theorem AppInfo_constructors_accept_witness:
  "(\<exists>obj. AppInfo_request jrest ''app'' ''prov'' ''1.0'' [] [] = Ret obj) \<and>
   (\<exists>m. AppInfo_response jrest ''app'' ''prov'' ''1.0'' [] [] [] = Raise (RuntimeError m))"
  using AppInfo_constructors_accept [OF jrest_laws,
      of "''app''" "''prov''" "''1.0''" "[]" "[]" "[]" JNull]
  by (simp add: valid_app_args_def)

text \<open>C24. Round trip: the JSON of an object that a constructor built is accepted by the constructor
  from JSON and gives the same object; the getters return the constructor's arguments, and
  message() the kind of the constructor used.\<close>

theorem AppInfo_roundtrip:
  assumes R: "rest_laws R"
  shows "(AppInfo_request R n p v d pkg = Ret obj \<longrightarrow>
      AppInfo_of_json R (datatype_toJson R obj) = Ret obj \<and>
      appName R nd obj = Ret n \<and> appProvider R nd obj = Ret p \<and> appSoftVersion R obj = v \<and>
      appDescription R obj = d \<and> appPackageSource R obj = pkg \<and>
      message R nd obj = Ret AppContextRequest) \<and>
    (AppInfo_response R n p v d uri pkg = Ret obj \<longrightarrow>
      AppInfo_of_json R (datatype_toJson R obj) = Ret obj \<and>
      appName R nd obj = Ret n \<and> appProvider R nd obj = Ret p \<and> appSoftVersion R obj = v \<and>
      appDescription R obj = d \<and> appPackageSource R obj = pkg \<and>
      message R nd obj = Ret AppContextResponse \<and> referenceUri R nd obj = Ret uri) \<and>
    (AppInfo_list R n p v d (AppCharcs R mem sto lat bw sc) = Ret obj \<longrightarrow>
      AppInfo_of_json R (datatype_toJson R obj) = Ret obj \<and>
      appName R nd obj = Ret n \<and> appProvider R nd obj = Ret p \<and> appSoftVersion R obj = v \<and>
      appDescription R obj = d \<and> message R nd obj = Ret ApplicationList)"
proof (intro conjI impI)
  assume c: "AppInfo_request R n p v d pkg = Ret obj"
  note f = AppInfo_request_Ret [OF R c] and g = getters_of_fields [OF R AppInfo_request_Ret(3) [OF R c]]
  show "AppInfo_of_json R (datatype_toJson R obj) = Ret obj"
    using AppInfo_of_json_complete [OF R constructed_acceptable(1) [OF R c]] app_typedD [OF f(2)]
    by (simp add: toJson_eq [OF R])
  show "appName R nd obj = Ret n" "appProvider R nd obj = Ret p" "appSoftVersion R obj = v"
    "appDescription R obj = d" "appPackageSource R obj = pkg" using g by simp_all
  show "message R nd obj = Ret AppContextRequest"
    using f(3,4) by (simp add: message_eq [OF R] app_fields_of_def)
next
  assume c: "AppInfo_response R n p v d uri pkg = Ret obj"
  note f = AppInfo_response_Ret [OF R c] and g = getters_of_fields [OF R AppInfo_response_Ret(4) [OF R c]]
  show "AppInfo_of_json R (datatype_toJson R obj) = Ret obj"
    using AppInfo_of_json_complete [OF R constructed_acceptable(2) [OF R c]] app_typedD [OF f(3)]
    by (simp add: toJson_eq [OF R])
  show "appName R nd obj = Ret n" "appProvider R nd obj = Ret p" "appSoftVersion R obj = v"
    "appDescription R obj = d" "appPackageSource R obj = pkg" using g by simp_all
  show m: "message R nd obj = Ret AppContextResponse"
    using f(4,5) by (simp add: message_eq [OF R] app_fields_of_def)
  show "referenceUri R nd obj = Ret uri"
    using f(4) m by (simp add: referenceUri_def app_fields_of_def rest_simps R)
next
  assume c: "AppInfo_list R n p v d (AppCharcs R mem sto lat bw sc) = Ret obj"
  note f = AppInfo_list_Ret [OF R c AppCharcs_is_object [OF R]]
  note g = getters_of_fields [OF R f(3)]
  show "AppInfo_of_json R (datatype_toJson R obj) = Ret obj"
    using AppInfo_of_json_complete [OF R constructed_acceptable(3) [OF R c]] app_typedD [OF f(2)]
    by (simp add: toJson_eq [OF R])
  show "appName R nd obj = Ret n" "appProvider R nd obj = Ret p" "appSoftVersion R obj = v"
    "appDescription R obj = d" using g by simp_all
  show "message R nd obj = Ret ApplicationList"
    using f(3,4) by (simp add: message_eq [OF R] app_fields_of_def)
qed

theorem AppInfo_roundtrip_witness:
  "AppInfo_response jrest ''app'' ''prov'' ''1.0'' [] ''http://r1'' [] = Ret sample_response_info \<and>
   AppInfo_of_json jrest (datatype_toJson jrest sample_response_info) = Ret sample_response_info \<and>
   referenceUri jrest False sample_response_info = Ret ''http://r1''"
proof -
  have c: "AppInfo_response jrest ''app'' ''prov'' ''1.0'' [] ''http://r1'' [] = Ret sample_response_info"
    by code_simp
  show ?thesis using AppInfo_roundtrip [OF jrest_laws, of "''app''" "''prov''" "''1.0''" "[]" "[]"
      sample_response_info False "''http://r1''" 0 0 0 0 NOT_REQUIRED] c by blast
qed

text \<open>C25. The constructor from JSON accepts only values whose name and provider are non-empty strings
  within 32 characters, with version and description within their limits where they are strings, a
  referenceURI that is not empty and not combined with appCharcs, and acceptable appCharcs; the object
  is then the value itself. It accepts every such value whose version and description are strings or
  absent, and every value that it does not accept makes it throw std::runtime_error.\<close>

theorem AppInfo_of_json_exact:
  assumes R: "rest_laws R"
  shows "(AppInfo_of_json R j = Ret obj \<longrightarrow> obj = j \<and> app_acceptable R j) \<and>
    (app_acceptable R j \<and> string_or_absent R j ''appSoftVersion'' \<and> string_or_absent R j ''appDescription'' \<longrightarrow>
      AppInfo_of_json R j = Ret j) \<and>
    (AppInfo_of_json R j = Ret j \<or> (\<exists>m. AppInfo_of_json R j = Raise (RuntimeError m)))"
  using AppInfo_of_json_sound [OF R] AppInfo_of_json_complete [OF R] AppInfo_of_json_refuses [OF R] by blast

theorem AppInfo_of_json_exact_witness:
  "AppInfo_of_json jrest sample_info = Ret sample_info \<and> app_acceptable jrest sample_info \<and>
   (\<exists>m. AppInfo_of_json jrest JNull = Raise (RuntimeError m))"
proof -
  have "AppInfo_of_json jrest sample_info = Ret sample_info" "AppInfo_of_json jrest JNull \<noteq> Ret JNull" by code_simp+
  then show ?thesis using AppInfo_of_json_exact [OF jrest_laws] by blast
qed

text \<open>makeAppContextResponse turns a request into a response that keeps the name, the provider,
  the version, the description and the package source and has the given referenceURI; on an
  object of another kind, or with an empty referenceURI, it throws std::runtime_error.\<close>

theorem makeAppContextResponse_correct:
  assumes R: "rest_laws R" and acc: "app_acceptable R j"
  shows "if object_field R j ''appCharcs'' = None \<and> string_field R j ''referenceURI'' = None \<and> uri \<noteq> []
    then \<exists>obj. makeAppContextResponse R nd j uri = Ret obj \<and>
      message R nd obj = Ret AppContextResponse \<and> referenceUri R nd obj = Ret uri \<and>
      appName R nd obj = appName R nd j \<and> appProvider R nd obj = appProvider R nd j \<and>
      appSoftVersion R obj = appSoftVersion R j \<and> appDescription R obj = appDescription R j \<and>
      appPackageSource R obj = appPackageSource R j \<and> app_acceptable R obj
    else \<exists>m. makeAppContextResponse R nd j uri = Raise (RuntimeError m)"
proof (cases "object_field R j ''appCharcs'' = None \<and> string_field R j ''referenceURI'' = None \<and> uri \<noteq> []")
  case True
  then obtain obj where obj: "makeAppContextResponse R nd j uri = Ret obj"
    "app_fields_of R obj = (app_fields_of R j)
      \<lparr>fVersion := non_empty (appSoftVersion R j), fDescription := non_empty (appDescription R j),
       fPackage := non_empty (appPackageSource R j), fReference := Some uri\<rparr>"
    "message R nd obj = Ret AppContextResponse" "referenceUri R nd obj = Ret uri" "app_acceptable R obj"
    using makeAppContextResponse_request [OF R _ _ acc, of uri nd] by blast
  obtain n p where np: "fName (app_fields_of R j) = Some n" "fProvider (app_fields_of R j) = Some p"
    using acc by (auto simp: app_acceptable_def)
  have "fName (app_fields_of R obj) = Some n" "fProvider (app_fields_of R obj) = Some p"
    using np by (simp_all add: obj(2))
  then show ?thesis
    using True obj np by (auto simp: optional_getters [OF R] fields_appName [OF R])
next
  case False
  have "fReference (app_fields_of R j) = None \<or> object_field R j ''appCharcs'' = None"
    using acc by (simp add: app_acceptable_def)
  then have "object_field R j ''appCharcs'' \<noteq> None \<and> string_field R j ''referenceURI'' = None \<or>
      object_field R j ''appCharcs'' = None \<and> string_field R j ''referenceURI'' \<noteq> None \<or>
      uri = [] \<and> object_field R j ''appCharcs'' = None"
    using False by (auto simp: app_fields_of_def)
  from makeAppContextResponse_refuses [OF R this] show ?thesis by (simp add: False)
qed

theorem makeAppContextResponse_correct_witness:
  "\<exists>obj. makeAppContextResponse jrest False sample_info ''http://r1'' = Ret obj \<and>
     referenceUri jrest False obj = Ret ''http://r1''"
proof -
  have "AppInfo_of_json jrest sample_info = Ret sample_info" by code_simp
  then have "app_acceptable jrest sample_info"
    using AppInfo_of_json_sound [OF jrest_laws, of sample_info sample_info] by simp
  moreover have "object_field jrest sample_info ''appCharcs'' = None"
    "string_field jrest sample_info ''referenceURI'' = None" by code_simp+
  ultimately show ?thesis
    using makeAppContextResponse_correct [OF jrest_laws, of sample_info "''http://r1''" False] by auto
qed

end
