(* ===== verification/App_Context.thy ===== *)
theory App_Context
  imports App_Info
begin

text \<open>
  \<open>AppContext\<close> (EtsiMec/appcontext.h, appcontext.cpp): the context of an application, as sent by
  a user in a request and by the proxy in a response. An object of the class is its
  \<open>theObject\<close>; the nested \<open>AppInfo\<close> is parsed again on every call of \<open>appInfo()\<close>. Also here:
  \<open>NotificationEvent\<close> (notificationevent.cpp) and \<open>ApplicationList\<close> (applicationlist.cpp).
\<close>

section \<open>The class\<close>

datatype ContextType = Request | Response

definition AppContext_make ::
  "('j, 't, 'z) rest_api_scheme \<Rightarrow> bool \<Rightarrow> string \<Rightarrow> string \<Rightarrow> string \<Rightarrow> 'j \<Rightarrow> ContextType \<Rightarrow> 'j res"
where
  "AppContext_make R nd aContextId aAssociateUeAppId aCallbackReference aAppInfo aType =
     (let myThrower = thrower_new R ''Invalid AppContext: '';
          myThrower = thrower_if R myThrower (aType = Response \<and> aContextId = [])
                        ''contextId missing'';
          myThrower = thrower_if R myThrower (aAssociateUeAppId = [])
                        ''associateUeAppId missing''
      in res_bind (message R nd aAppInfo) (\<lambda>myMessage.
      let myThrower = thrower_if R myThrower
            (aType = Request \<and> myMessage \<noteq> AppContextRequest \<or>
             aType = Response \<and> myMessage \<noteq> AppContextResponse)
            ''wrong appInfo structure used''
      in res_bind (thrower_check R myThrower) (\<lambda>_.
      let theObject = datatype_new R;
          theObject = setIfNotEmpty R theObject ''contextId'' aContextId False;
          theObject = setIfNotEmpty R theObject ''associateUeAppId'' aAssociateUeAppId False;
          theObject = setIfNotEmpty R theObject ''callbackReference'' aCallbackReference False
      in Ret (json_set R theObject ''appInfo'' (datatype_toJson R aAppInfo)))))"

definition AppContext_request ::
  "('j, 't, 'z) rest_api_scheme \<Rightarrow> bool \<Rightarrow> string \<Rightarrow> string \<Rightarrow> 'j \<Rightarrow> 'j res" where
  "AppContext_request R nd aAssociateUeAppId aCallbackReference aAppInfo =
     AppContext_make R nd [] aAssociateUeAppId aCallbackReference aAppInfo Request"

definition AppContext_response ::
  "('j, 't, 'z) rest_api_scheme \<Rightarrow> bool \<Rightarrow> string \<Rightarrow> string \<Rightarrow> string \<Rightarrow> 'j \<Rightarrow> 'j res" where
  "AppContext_response R nd aContextId aAssociateUeAppId aCallbackReference aAppInfo =
     AppContext_make R nd aContextId aAssociateUeAppId aCallbackReference aAppInfo Response"

definition AppContext_of_json :: "('j, 't, 'z) rest_api_scheme \<Rightarrow> 'j \<Rightarrow> 'j res" where
  "AppContext_of_json R aJson =
     (let theObject = datatype_of_json R aJson;
          myThrower = thrower_new R ''Invalid AppContext: '';
          myThrower = notEmptyIfPresent R aJson ''contextId'' myThrower;
          myThrower = notEmpty R aJson ''associateUeAppId'' myThrower;
          myThrower = thrower_if R myThrower (\<not> has_object_field R aJson ''appInfo'')
                        ''missing appInfo''
      in res_bind (thrower_check R myThrower) (\<lambda>_.
         res_bind (json_at R aJson ''appInfo'') (\<lambda>v.
         res_bind (AppInfo_of_json R v) (\<lambda>_. Ret theObject))))"

definition contextId :: "('j, 't, 'z) rest_api_scheme \<Rightarrow> 'j \<Rightarrow> string" where
  "contextId R theObject = stringOrEmpty R theObject ''contextId''"

definition associateUeAppId :: "('j, 't, 'z) rest_api_scheme \<Rightarrow> bool \<Rightarrow> 'j \<Rightarrow> string res" where
  "associateUeAppId R nd theObject =
     (let ret = stringOrEmpty R theObject ''associateUeAppId''
      in res_bind (cassert nd (ret \<noteq> [])) (\<lambda>_. Ret ret))"

definition callbackReference :: "('j, 't, 'z) rest_api_scheme \<Rightarrow> 'j \<Rightarrow> string" where
  "callbackReference R theObject = stringOrEmpty R theObject ''callbackReference''"

definition appInfo :: "('j, 't, 'z) rest_api_scheme \<Rightarrow> bool \<Rightarrow> 'j \<Rightarrow> 'j res" where
  "appInfo R nd theObject =
     res_bind (cassert nd (has_object_field R theObject ''appInfo'')) (\<lambda>_.
     res_bind (json_at R theObject ''appInfo'') (AppInfo_of_json R))"

text \<open>The condition of the assertion in \<open>type()\<close> calls \<open>appInfo()\<close>, which may throw.\<close>

definition AppContext_type :: "('j, 't, 'z) rest_api_scheme \<Rightarrow> bool \<Rightarrow> 'j \<Rightarrow> ContextType res" where
  "AppContext_type R nd theObject =
     res_bind
       (if nd then Ret ()
        else res_bind (appInfo R nd theObject) (\<lambda>i.
             res_bind (message R nd i) (\<lambda>m.
             cassert nd
               (\<not> has_string_field R theObject ''contextId'' \<and> m = AppContextRequest \<or>
                has_string_field R theObject ''contextId'' \<and> m = AppContextResponse))))
       (\<lambda>_. Ret (if has_string_field R theObject ''contextId'' then Response else Request))"

definition makeResponse ::
  "('j, 't, 'z) rest_api_scheme \<Rightarrow> bool \<Rightarrow> 'j \<Rightarrow> string \<Rightarrow> string \<Rightarrow> 'j res" where
  "makeResponse R nd theObject aContextId aReferenceUri =
     res_bind (AppContext_type R nd theObject) (\<lambda>ty.
     if ty \<noteq> Request then Raise (RuntimeError ''Invalid AppContext structure type'')
     else if aContextId = [] then Raise (RuntimeError ''contextId cannot be empty'')
     else if aReferenceUri = [] then Raise (RuntimeError ''referenceURI cannot be empty'')
     else
       res_bind (associateUeAppId R nd theObject) (\<lambda>myUeAppId.
       res_bind (appInfo R nd theObject) (\<lambda>myInfo.
       res_bind (makeAppContextResponse R nd myInfo aReferenceUri) (\<lambda>myInfo'.
       AppContext_response R nd aContextId myUeAppId (callbackReference R theObject) myInfo'))))"

section \<open>Notifications and application lists\<close>

definition NotificationEvent :: "('j, 't, 'z) rest_api_scheme \<Rightarrow> string \<Rightarrow> 'j res" where
  "NotificationEvent R aUri =
     (if aUri = [] then
        Raise (RuntimeError ''Invalid NotificationEvent: empty referenceURI'')
      else Ret (json_set R (datatype_new R) ''referenceURI'' (json_of_string R aUri)))"

definition ApplicationList_of_vector :: "('j, 't, 'z) rest_api_scheme \<Rightarrow> 'j list \<Rightarrow> 'j" where
  "ApplicationList_of_vector R aAppInfos =
     json_set R (datatype_new R) ''appInfo'' (json_of_array R (map (datatype_toJson R) aAppInfos))"

text \<open>From a map: its values, in key order.\<close>

definition ApplicationList_of_map ::
  "('j, 't, 'z) rest_api_scheme \<Rightarrow> (string \<times> 'j) list \<Rightarrow> 'j" where
  "ApplicationList_of_map R aAppInfos =
     json_set R (datatype_new R) ''appInfo''
       (json_of_array R (map (\<lambda>elem. datatype_toJson R (snd elem)) aAppInfos))"

section \<open>What the constructors accept and build\<close>

text \<open>What an \<open>AppContext\<close> parsed from JSON satisfies, with its nested \<open>AppInfo\<close>.\<close>

definition context_ok :: "('j, 't, 'z) rest_api_scheme \<Rightarrow> 'j \<Rightarrow> string \<Rightarrow> 'j \<Rightarrow> bool" where
  "context_ok R j ue info \<longleftrightarrow>
     string_field R j ''associateUeAppId'' = Some ue \<and> ue \<noteq> [] \<and>
     object_field R j ''appInfo'' = Some info \<and> AppInfo_of_json R info = Ret info \<and>
     string_field R j ''contextId'' \<noteq> Some []"

definition request_info :: "('j, 'z) json_api_scheme \<Rightarrow> 'j \<Rightarrow> bool" where
  "request_info R info \<longleftrightarrow>
     object_field R info ''appCharcs'' = None \<and> string_field R info ''referenceURI'' = None"

definition response_info :: "('j, 'z) json_api_scheme \<Rightarrow> 'j \<Rightarrow> bool" where
  "response_info R info \<longleftrightarrow>
     object_field R info ''appCharcs'' = None \<and> string_field R info ''referenceURI'' \<noteq> None"

lemma message_request_iff:
  "rest_laws R \<Longrightarrow> message R nd i = Ret AppContextRequest \<longleftrightarrow> request_info R i"
  by (auto simp: message_eq request_info_def)

lemma message_response_iff:
  "rest_laws R \<Longrightarrow> message R nd i = Ret AppContextResponse \<longleftrightarrow> response_info R i"
  by (auto simp: message_eq response_info_def)

lemmas message_request = message_request_iff [THEN iffD2]
lemmas message_response = message_response_iff [THEN iffD2]

lemma AppContext_of_json_sound:
  assumes R: "rest_laws R" and acc: "AppContext_of_json R j = Ret obj"
  shows "obj = j \<and> (\<exists>ue info. context_ok R j ue info)"
proof -
  let ?t = "notEmptyIfPresent R j ''contextId'' (thrower_new R ''Invalid AppContext: '')"
  from acc have "thrower_check R (thrower_if R (notEmpty R j ''associateUeAppId'' ?t)
        (\<not> has_object_field R j ''appInfo'') ''missing appInfo'') = Ret ()"
    and obj: "obj = j"
    and info: "\<exists>v i. json_at R j ''appInfo'' = Ret v \<and> AppInfo_of_json R v = Ret i"
    unfolding AppContext_of_json_def Let_def res_bind_eq_Ret
    by (auto simp: of_json_eq [OF R])
  then have t: "thrower_check R ?t = Ret ()" and "has_object_field R j ''appInfo''"
    and ue: "\<exists>ue. string_field R j ''associateUeAppId'' = Some ue \<and> ue \<noteq> []"
    by (simp_all add: check_if [OF R] check_notEmpty [OF R])
  then obtain v where v: "object_field R j ''appInfo'' = Some v"
    using has_object_field_iff [OF R] by auto
  with info obtain i where "AppInfo_of_json R v = Ret i"
    by (auto simp: json_at_eq [OF R] object_field_eq_Some)
  with AppInfo_of_json_sound [OF R this] have "AppInfo_of_json R v = Ret v" by simp
  with obj ue v check_notEmptyIfPresentD [OF R t] show ?thesis
    by (auto simp: context_ok_def)
qed

lemma AppContext_of_json_complete:
  assumes R: "rest_laws R" and ok: "context_ok R j ue info"
    and typed: "string_or_absent R j ''contextId''"
  shows "AppContext_of_json R j = Ret j"
proof -
  have "json_at R j ''appInfo'' = Ret info" "has_object_field R j ''appInfo''"
    using ok by (simp_all add: context_ok_def object_field_eq_Some json_at_eq [OF R]
        has_object_field_iff [OF R])
  moreover have "thrower_check R (thrower_if R (notEmpty R j ''associateUeAppId''
      (notEmptyIfPresent R j ''contextId'' (thrower_new R m))) False m') = Ret ()" for m m'
    using ok typed by (simp add: context_ok_def check_if [OF R] check_notEmpty [OF R]
        check_notEmptyIfPresent [OF R] check_new [OF R])
  ultimately show ?thesis
    using ok by (simp add: AppContext_of_json_def context_ok_def of_json_eq [OF R] Let_def)
qed

lemma context_ok_getters:
  assumes R: "rest_laws R" and ok: "context_ok R j ue info"
  shows "associateUeAppId R nd j = Ret ue" "appInfo R nd j = Ret info"
    "callbackReference R j = or_empty (string_field R j ''callbackReference'')"
    "contextId R j = or_empty (string_field R j ''contextId'')"
  using R ok
  by (simp_all add: context_ok_def associateUeAppId_def appInfo_def callbackReference_def
      contextId_def or_empty_def stringOrEmpty_eq has_object_field_iff json_at_eq
      object_field_eq_Some)

lemma AppContext_type_eq:
  assumes R: "rest_laws R" and ok: "context_ok R j ue info"
  shows "string_field R j ''contextId'' = None \<Longrightarrow> request_info R info \<Longrightarrow>
           AppContext_type R nd j = Ret Request"
    and "string_field R j ''contextId'' \<noteq> None \<Longrightarrow> response_info R info \<Longrightarrow>
           AppContext_type R nd j = Ret Response"
    and "AppContext_type R True j =
           Ret (if string_field R j ''contextId'' = None then Request else Response)"
  using context_ok_getters [OF assms]
  by (auto simp: AppContext_type_def has_string_field_iff [OF R] message_request [OF R]
      message_response [OF R])

lemma AppContext_make_Ret:
  assumes R: "rest_laws R" and info: "is_object R info"
    and c: "AppContext_make R nd cid ue cb info ty = Ret obj"
  shows "string_field R obj ''contextId'' = non_empty cid"
    "string_field R obj ''associateUeAppId'' = Some ue" "ue \<noteq> []"
    "string_field R obj ''callbackReference'' = non_empty cb"
    "object_field R obj ''appInfo'' = Some info"
    "string_or_absent R obj ''contextId''" "is_object R obj"
    "ty = Request \<Longrightarrow> request_info R info"
    "ty = Response \<Longrightarrow> response_info R info \<and> cid \<noteq> []"
proof -
  from c obtain m where m: "message R nd info = Ret m"
    and t: "ue \<noteq> []" "ty = Response \<longrightarrow> cid \<noteq> []" "ty = Request \<longrightarrow> m = AppContextRequest"
      "ty = Response \<longrightarrow> m = AppContextResponse"
    and obj: "obj = json_set R (setIfNotEmpty R (setIfNotEmpty R (setIfNotEmpty R (datatype_new R)
      ''contextId'' cid False) ''associateUeAppId'' ue False) ''callbackReference'' cb False)
      ''appInfo'' info"
    unfolding AppContext_make_def Let_def res_bind_eq_Ret
    by (auto simp: check_if [OF R] check_new [OF R] toJson_eq [OF R])
  show "ty = Request \<Longrightarrow> request_info R info" "ty = Response \<Longrightarrow> response_info R info \<and> cid \<noteq> []"
    using m t message_request_iff [OF R] message_response_iff [OF R] by auto
  show "ue \<noteq> []" by (fact t(1))
  show "string_field R obj ''contextId'' = non_empty cid"
    "string_field R obj ''associateUeAppId'' = Some ue"
    "string_field R obj ''callbackReference'' = non_empty cb"
    "object_field R obj ''appInfo'' = Some info"
    "string_or_absent R obj ''contextId''" "is_object R obj"
    using R info t(1) by (auto simp: obj rest_simps non_empty_def string_or_absent_def)
qed

lemma AppContext_make_valid:
  assumes R: "rest_laws R" and "ue \<noteq> []"
    and "ty = Request \<and> request_info R info \<or> ty = Response \<and> response_info R info \<and> cid \<noteq> []"
  shows "\<exists>obj. AppContext_make R nd cid ue cb info ty = Ret obj"
  using assms
  by (auto simp: AppContext_make_def Let_def res_bind_eq_Ret message_request [OF R]
      message_response [OF R] check_if [OF R] check_new [OF R])

lemma made_context_ok:
  assumes R: "rest_laws R" and info: "is_object R info" "AppInfo_of_json R info = Ret info"
    and c: "AppContext_make R nd cid ue cb info ty = Ret obj"
  shows "context_ok R obj ue info"
  using AppContext_make_Ret [OF R info(1) c] info(2)
  by (simp add: context_ok_def non_empty_def)

section \<open>Answering a request\<close>

lemma makeResponse_request:
  assumes R: "rest_laws R" and ok: "context_ok R j ue info"
    and req: "string_field R j ''contextId'' = None" "request_info R info"
    and cid: "cid \<noteq> []" and uri: "uri \<noteq> []"
  obtains resp info' where "makeResponse R nd j cid uri = Ret resp"
    "context_ok R resp ue info'" "string_or_absent R resp ''contextId''"
    "contextId R resp = cid" "callbackReference R resp = callbackReference R j"
    "AppContext_type R nd resp = Ret Response" "AppContext_type R True resp = Ret Response"
    "referenceUri R nd info' = Ret uri" "response_info R info'"
    "app_fields_of R info' = (app_fields_of R info)
      \<lparr>fVersion := non_empty (appSoftVersion R info),
       fDescription := non_empty (appDescription R info),
       fPackage := non_empty (appPackageSource R info), fReference := Some uri\<rparr>"
proof -
  have "AppInfo_of_json R info = Ret info" using ok by (simp add: context_ok_def)
  then have acc: "app_acceptable R info" using AppInfo_of_json_sound [OF R] by blast
  obtain info' where i': "makeAppContextResponse R nd info uri = Ret info'"
      "message R nd info' = Ret AppContextResponse" "referenceUri R nd info' = Ret uri"
      "app_acceptable R info'" "app_typed R info'"
    and f: "app_fields_of R info' = (app_fields_of R info)
      \<lparr>fVersion := non_empty (appSoftVersion R info),
       fDescription := non_empty (appDescription R info),
       fPackage := non_empty (appPackageSource R info), fReference := Some uri\<rparr>"
    using makeAppContextResponse_request [OF R _ _ acc uri, of nd] req(2)
    by (auto simp: request_info_def)
  have resp_i: "response_info R info'" using i'(2) message_response_iff [OF R] by blast
  have obj_i: "is_object R info'" using i'(5) by (simp add: app_typed_def)
  have json_i: "AppInfo_of_json R info' = Ret info'"
    using AppInfo_of_json_complete [OF R i'(4)] app_typedD [OF i'(5)] by blast
  have ue: "ue \<noteq> []" using ok by (simp add: context_ok_def)
  obtain resp where resp: "AppContext_make R nd cid ue (callbackReference R j) info' Response = Ret resp"
    using AppContext_make_valid [OF R ue, of Response info' cid] resp_i cid by blast
  note fields = AppContext_make_Ret [OF R obj_i resp]
  note rok = made_context_ok [OF R obj_i json_i resp]
  have "makeResponse R nd j cid uri = Ret resp"
    using AppContext_type_eq(1) [OF R ok req] context_ok_getters [OF R ok] cid uri i'(1) resp
    by (simp add: makeResponse_def AppContext_response_def)
  moreover have "string_field R resp ''contextId'' \<noteq> None"
    using fields(1) cid by (simp add: non_empty_def)
  then have "AppContext_type R nd' resp = Ret Response" for nd'
    by (rule AppContext_type_eq(2) [OF R rok _ resp_i])
  moreover have "contextId R resp = cid" "callbackReference R resp = callbackReference R j"
    using fields by (simp_all add: context_ok_getters [OF R rok])
  ultimately show thesis
    using that rok fields(6) i'(3) resp_i f by blast
qed

lemma makeResponse_response_refused:
  assumes R: "rest_laws R" and ok: "context_ok R j ue info"
    and "string_field R j ''contextId'' \<noteq> None" and "nd \<or> response_info R info"
  shows "makeResponse R nd j cid uri = Raise (RuntimeError ''Invalid AppContext structure type'')"
  using assms AppContext_type_eq(2) [OF R ok, of nd] AppContext_type_eq(3) [OF R ok]
  by (cases nd) (auto simp: makeResponse_def)

text \<open>A context that is no plain request: the assertion of \<open>type()\<close> is left in a debug build.\<close>

lemma makeResponse_refused:
  assumes R: "rest_laws R" and ok: "context_ok R j ue info"
    and other: "\<not> (string_field R j ''contextId'' = None \<and> request_info R info)"
  shows "if nd \<or> string_field R j ''contextId'' \<noteq> None \<and> response_info R info
    then \<exists>m. makeResponse R nd j cid uri = Raise (RuntimeError m)
    else makeResponse R nd j cid uri = Abort"
proof (cases "nd \<or> string_field R j ''contextId'' \<noteq> None \<and> response_info R info")
  case True
  show ?thesis
  proof (cases "string_field R j ''contextId'' = None")
    case new: True
    then have "nd" "\<not> request_info R info" using True other by auto
    moreover have "app_acceptable R info"
      using ok AppInfo_of_json_sound [OF R] by (auto simp: context_ok_def)
    ultimately obtain m where "makeAppContextResponse R nd info uri = Raise (RuntimeError m)"
      using makeAppContextResponse_refuses [OF R, of info uri nd]
      by (auto simp: request_info_def app_acceptable_def app_fields_of_def)
    then show ?thesis
      using AppContext_type_eq(3) [OF R ok] new \<open>nd\<close> context_ok_getters [OF R ok] by (auto simp: makeResponse_def)
  next
    case False
    with True makeResponse_response_refused [OF R ok this, of nd] show ?thesis by auto
  qed
next
  case False
  have "AppContext_type R False j = Abort"
    using False other context_ok_getters(2) [OF R ok, of False]
    by (auto simp: AppContext_type_def has_string_field_iff [OF R] message_eq [OF R] cassert_def
        request_info_def response_info_def)
  then show ?thesis using False by (simp add: makeResponse_def)
qed

section \<open>Notification events\<close>

lemma NotificationEvent_fields:
  "rest_laws R \<Longrightarrow> uri \<noteq> [] \<Longrightarrow>
   \<exists>j. NotificationEvent R uri = Ret j \<and> is_object R j \<and>
       string_field R j ''referenceURI'' = Some uri"
  by (simp add: NotificationEvent_def rest_simps)

section \<open>Properties\<close>

text \<open>C26. A context that a constructor built survives the trip through its JSON: the constructor from
  JSON gives the same object back, its getters return the arguments, and type() tells the two
  constructors apart.\<close>

theorem AppContext_roundtrip:
  assumes R: "rest_laws R" and info: "is_object R info" "AppInfo_of_json R info = Ret info"
    and c: "AppContext_make R nd cid ue cb info ty = Ret obj" and ty: "ty = Request \<longrightarrow> cid = []"
  shows "AppContext_of_json R (datatype_toJson R obj) = Ret obj \<and>
      contextId R obj = cid \<and> associateUeAppId R nd obj = Ret ue \<and>
      callbackReference R obj = cb \<and> appInfo R nd obj = Ret info \<and> AppContext_type R nd obj = Ret ty"
proof -
  note f = AppContext_make_Ret [OF R info(1) c] and ok = made_context_ok [OF R info c]
  have "AppContext_of_json R (datatype_toJson R obj) = Ret obj"
    using AppContext_of_json_complete [OF R ok f(6)] by (simp add: toJson_eq [OF R])
  moreover have "AppContext_type R nd obj = Ret ty"
  proof (cases ty)
    case Request
    then show ?thesis
      using AppContext_type_eq(1) [OF R ok _ f(8)] f(1) ty by (simp add: non_empty_def)
  next
    case Response
    then show ?thesis
      using AppContext_type_eq(2) [OF R ok] f(1,9) by (simp add: non_empty_def)
  qed
  ultimately show ?thesis using context_ok_getters [OF R ok] f(1,4) by simp
qed

theorem AppContext_roundtrip_witness:
  "AppContext_of_json jrest sample_response = Ret sample_response \<and>
   contextId jrest sample_response = ''c1'' \<and> AppContext_type jrest False sample_response = Ret Response"
proof -
  have "AppContext_make jrest False ''c1'' ''ue1'' ''http://cb'' sample_response_info Response =
      Ret sample_response" "is_object jrest sample_response_info"
    "AppInfo_of_json jrest sample_response_info = Ret sample_response_info"
    "datatype_toJson jrest sample_response = sample_response" by code_simp+
  then show ?thesis
    using AppContext_roundtrip [OF jrest_laws, of sample_response_info False "''c1''" "''ue1''"
        "''http://cb''" Response sample_response] by simp
qed

text \<open>C27. makeResponse, on every branch, for a context that was parsed. A request (without contextId, its
  appInfo a request) is answered, when both arguments are not empty, with a context of the response
  kind that has the given contextId, the request's UE application ID and callback reference, and an
  appInfo with the given referenceURI and the request's name, provider, version, description and
  package source; an empty argument makes it throw. For any other context it throws, but for the
  assertion of type(), which aborts a debug build unless the context is a complete response.\<close>

theorem makeResponse_correct:
  assumes R: "rest_laws R" and ok: "context_ok R j ue info"
  shows "if string_field R j ''contextId'' = None \<and> request_info R info then
      (if cid \<noteq> [] \<and> uri \<noteq> [] then
        \<exists>resp info'. makeResponse R nd j cid uri = Ret resp \<and>
          AppContext_type R nd resp = Ret Response \<and> contextId R resp = cid \<and>
          associateUeAppId R nd resp = Ret ue \<and> callbackReference R resp = callbackReference R j \<and>
          appInfo R nd resp = Ret info' \<and> referenceUri R nd info' = Ret uri \<and>
          appName R nd info' = appName R nd info \<and> appProvider R nd info' = appProvider R nd info \<and>
          appSoftVersion R info' = appSoftVersion R info \<and> appDescription R info' = appDescription R info \<and>
          appPackageSource R info' = appPackageSource R info
       else \<exists>m. makeResponse R nd j cid uri = Raise (RuntimeError m))
    else if nd \<or> string_field R j ''contextId'' \<noteq> None \<and> response_info R info
      then \<exists>m. makeResponse R nd j cid uri = Raise (RuntimeError m)
    else makeResponse R nd j cid uri = Abort"
proof (cases "string_field R j ''contextId'' = None \<and> request_info R info")
  case plain: True
  show ?thesis
  proof (cases "cid \<noteq> [] \<and> uri \<noteq> []")
    case True
    have acc: "app_acceptable R info"
      using ok AppInfo_of_json_sound [OF R] by (auto simp: context_ok_def)
    obtain resp info' where r: "makeResponse R nd j cid uri = Ret resp"
      "context_ok R resp ue info'" "contextId R resp = cid"
      "callbackReference R resp = callbackReference R j" "AppContext_type R nd resp = Ret Response"
      "referenceUri R nd info' = Ret uri"
      "app_fields_of R info' = (app_fields_of R info)
        \<lparr>fVersion := non_empty (appSoftVersion R info),
         fDescription := non_empty (appDescription R info),
         fPackage := non_empty (appPackageSource R info), fReference := Some uri\<rparr>"
      using makeResponse_request [OF R ok, of cid uri nd] plain True by metis
    obtain n p where np: "fName (app_fields_of R info) = Some n"
      "fProvider (app_fields_of R info) = Some p" using acc by (auto simp: app_acceptable_def)
    then have "fName (app_fields_of R info') = Some n" "fProvider (app_fields_of R info') = Some p"
      by (simp_all add: r(7))
    with np have "appName R nd info' = appName R nd info" "appProvider R nd info' = appProvider R nd info"
      by (simp_all add: fields_appName [OF R])
    moreover have "appSoftVersion R info' = appSoftVersion R info" "appDescription R info' = appDescription R info"
      "appPackageSource R info' = appPackageSource R info"
      using optional_getters [OF R, of info'] by (simp_all add: r(7))
    ultimately show ?thesis using plain True r context_ok_getters [OF R r(2)] by auto
  next
    case False
    then show ?thesis using plain AppContext_type_eq(1) [OF R ok] by (auto simp: makeResponse_def)
  qed
next
  case False
  from makeResponse_refused [OF R ok this, of nd cid uri] show ?thesis by (simp only: False if_False)
qed

theorem makeResponse_correct_witness:
  "\<exists>resp. makeResponse jrest False sample_request ''c1'' ''http://r1'' = Ret resp \<and>
     contextId jrest resp = ''c1''"
proof -
  have "AppContext_of_json jrest sample_request = Ret sample_request" by code_simp
  then obtain ue info where ok: "context_ok jrest sample_request ue info"
    using AppContext_of_json_sound [OF jrest_laws, of sample_request sample_request] by auto
  have "object_field jrest sample_request ''appInfo'' = Some sample_info" by code_simp
  then have "info = sample_info" using ok by (simp add: context_ok_def)
  moreover have "string_field jrest sample_request ''contextId'' = None"
    "request_info jrest sample_info" by code_simp+
  ultimately show ?thesis
    using makeResponse_correct [OF jrest_laws ok, of "''c1''" "''http://r1''" False] by auto
qed

end
