(* ===== verification/Ue_App_Lcm_Proxy.thy ===== *)
theory Ue_App_Lcm_Proxy
  imports App_Context "HOL-Library.List_Lexorder" "HOL-Library.Char_ord"
begin

text \<open>
  \<open>UeAppLcmProxy\<close> (EtsiMec/ueapplcmproxy.h, ueapplcmproxy.cpp): the base class of the LCM
  proxies. Its state is the map of the applications on offer; the contexts are kept by a derived
  class behind the virtual functions \<open>createContext\<close>, \<open>updateContext\<close> and \<open>deleteContext\<close>,
  which the HTTP handlers take as arguments. The locale \<open>lcm_backend\<close> states what a derived
  class promises and what follows for the handlers.

  The mutex of the class makes each member function one atomic step on the state. \<open>std::map\<close>
  orders its keys as \<open>std::string\<close> does, by unsigned characters.
\<close>

section \<open>The applications\<close>

record 'j lcm_state =
  theApplications :: "(string \<times> 'j) list"

definition lcm_init :: "'j lcm_state" where
  "lcm_init = \<lparr>theApplications = []\<rparr>"

definition mangle :: "('j, 't, 'z) rest_api_scheme \<Rightarrow> bool \<Rightarrow> 'j \<Rightarrow> string res" where
  "mangle R nd aAppInfo =
     res_bind (appName R nd aAppInfo) (\<lambda>myName.
     res_bind (appProvider R nd aAppInfo) (\<lambda>myProvider.
     Ret (myName @ ''+'' @ myProvider @ ''+'' @ appSoftVersion R aAppInfo)))"

definition addApp ::
  "('j, 't, 'z) rest_api_scheme \<Rightarrow> bool \<Rightarrow> 'j \<Rightarrow>
     ('j, 's) lcm_state_scheme \<Rightarrow> bool res \<times> ('j, 's) lcm_state_scheme" where
  "addApp R nd aAppInfo s =
     and_then (mangle R nd aAppInfo, s) (\<lambda>myKey s.
       let (apps, new) = omap_emplace myKey aAppInfo (theApplications s)
       in if \<not> new
          then (Ret False, s\<lparr>theApplications := umap_assign myKey aAppInfo apps\<rparr>)
          else (Ret True, s\<lparr>theApplications := apps\<rparr>))"

definition delApp ::
  "('j, 't, 'z) rest_api_scheme \<Rightarrow> bool \<Rightarrow> 'j \<Rightarrow>
     ('j, 's) lcm_state_scheme \<Rightarrow> bool res \<times> ('j, 's) lcm_state_scheme" where
  "delApp R nd aAppInfo s =
     and_then (mangle R nd aAppInfo, s) (\<lambda>myKey s.
       let (apps, n) = umap_erase myKey (theApplications s)
       in (Ret (n > 0), s\<lparr>theApplications := apps\<rparr>))"

definition exists_app ::
  "('j, 't, 'z) rest_api_scheme \<Rightarrow> bool \<Rightarrow> 'j \<Rightarrow> ('j, 's) lcm_state_scheme \<Rightarrow> bool res" where
  "exists_app R nd aAppInfo s =
     res_bind (mangle R nd aAppInfo) (\<lambda>myKey.
     Ret (map_of (theApplications s) myKey \<noteq> None))"

section \<open>The HTTP handlers\<close>

text \<open>
  What a handler reads of a request: the address of the client, the body as the task of
  \<open>extract_json\<close> ends (it throws when the body is not JSON), the path and the whole relative URI.
  A reply is a status and perhaps a JSON body.
\<close>

record 'j http_request =
  remote_address :: string
  json_body :: "'j res"
  relative_path :: string
  relative_uri :: string

datatype 'j http_reply = Reply (reply_status: nat) (reply_body: "'j option")

abbreviation (input) status_OK :: nat where "status_OK \<equiv> 200"
abbreviation (input) status_Created :: nat where "status_Created \<equiv> 201"
abbreviation (input) status_NoContent :: nat where "status_NoContent \<equiv> 204"
abbreviation (input) status_Unauthorized :: nat where "status_Unauthorized \<equiv> 401"
abbreviation (input) status_Forbidden :: nat where "status_Forbidden \<equiv> 403"

text \<open>
  \<open>parseJson\<close> (EtsiMec/utils.cpp): the continuation assigns what \<open>get\<close> returns to a local that is
  \<open>null\<close> until then, or throws what the task threw, and \<open>wait\<close> throws it again.
\<close>

definition parseJson :: "('j, 't, 'z) rest_api_scheme \<Rightarrow> 'j http_request \<Rightarrow> 'j res" where
  "parseJson R aReq =
     (let (waited, myJson) = and_then (json_body aReq, json_null R) (\<lambda>aPrevTask myJson. (Ret (), aPrevTask))
      in res_bind waited (\<lambda>_. Ret myJson))"

lemma parseJson_eq [simp]: "parseJson R aReq = json_body aReq"
  by (cases "json_body aReq") (simp_all add: parseJson_def)

definition problem_reply :: "('j, 't, 'z) rest_api_scheme \<Rightarrow> nat \<Rightarrow> string \<Rightarrow> 'j http_reply" where
  "problem_reply R aStatus aDetail =
     Reply (problem_status R aStatus aDetail) (Some (problem_toJson R aStatus aDetail))"

definition handleAppList ::
  "('j, 't, 'z) rest_api_scheme \<Rightarrow> ('j, 's) lcm_state_scheme \<Rightarrow> 'j http_reply" where
  "handleAppList R s =
     Reply status_OK (Some (json_set R (json_null R) ''ApplicationList''
       (datatype_toJson R (ApplicationList_of_map R (theApplications s)))))"

definition handleContextCreate ::
  "('j, 't, 'z) rest_api_scheme \<Rightarrow> bool \<Rightarrow> (string \<Rightarrow> 'j \<Rightarrow> 's \<Rightarrow> 'j res \<times> 's) \<Rightarrow>
     'j http_request \<Rightarrow> 's \<Rightarrow> 'j http_reply res \<times> 's" where
  "handleContextCreate R nd createContext aReq s =
     and_then (res_bind (parseJson R aReq) (AppContext_of_json R), s) (\<lambda>myRequest s.
     and_then (createContext (remote_address aReq) myRequest s) (\<lambda>myResponse s.
     and_then (AppContext_type R nd myResponse, s) (\<lambda>ty s.
       if ty = Response then
         and_then (cassert nd (contextId R myResponse \<noteq> []), s) (\<lambda>_ s.
         and_then
           (if nd then Ret ()
            else res_bind (appInfo R nd myResponse) (\<lambda>i.
                 res_bind (referenceUri R nd i) (\<lambda>u. cassert nd (u \<noteq> []))), s) (\<lambda>_ s.
         (Ret (Reply status_Created (Some (datatype_toJson R myResponse))), s)))
       else
         (Ret (problem_reply R status_Forbidden
            (''Could not create the requested UE application context because of the '' @
             ''current status of the mobile edge system'')), s))))"

definition handleContextUpdate ::
  "('j, 't, 'z) rest_api_scheme \<Rightarrow> ('j \<Rightarrow> 's \<Rightarrow> bool res \<times> 's) \<Rightarrow>
     'j http_request \<Rightarrow> 's \<Rightarrow> 'j http_reply res \<times> 's" where
  "handleContextUpdate R updateContext aReq s =
     and_then (res_bind (parseJson R aReq) (AppContext_of_json R), s) (\<lambda>myRequest s.
     and_then (updateContext myRequest s) (\<lambda>mySuccess s.
       (Ret (if mySuccess then Reply status_NoContent None
             else problem_reply R status_Forbidden
               ''Unknown or invalid UE application context''), s)))"

definition contexts_prefix :: string where
  "contexts_prefix = ''app_contexts/''"

definition handleContextDelete ::
  "('j, 't, 'z) rest_api_scheme \<Rightarrow> bool \<Rightarrow> (string \<Rightarrow> 's \<Rightarrow> bool res \<times> 's) \<Rightarrow>
     'j http_request \<Rightarrow> 's \<Rightarrow> 'j http_reply res \<times> 's" where
  "handleContextDelete R nd deleteContext aReq s =
     (let myPath = relative_path aReq
      in and_then (cassert nd (take (length contexts_prefix) myPath = contexts_prefix), s) (\<lambda>_ s.
         and_then (deleteContext (drop (length contexts_prefix) myPath) s) (\<lambda>mySuccess s.
           (Ret (if mySuccess then Reply status_NoContent None
                 else problem_reply R status_Forbidden ''Unknown UE application context''), s))))"

text \<open>The four routes the constructor registers with the server.\<close>

datatype http_method = GET | POST | PUT | DEL

datatype lcm_handler = HandleAppList | HandleContextCreate | HandleContextUpdate | HandleContextDelete

definition UeAppLcmProxy_routes :: "(http_method \<times> string \<times> lcm_handler) list" where
  "UeAppLcmProxy_routes =
     [(GET, ''app_list'', HandleAppList),
      (POST, ''app_contexts'', HandleContextCreate),
      (PUT, ''app_contexts/(.*)'', HandleContextUpdate),
      (DEL, ''app_contexts/(.*)'', HandleContextDelete)]"

text \<open>One request, once the server has chosen the handler.\<close>

definition serve ::
  "('j, 't, 'z) rest_api_scheme \<Rightarrow> bool \<Rightarrow>
     (string \<Rightarrow> 'j \<Rightarrow> ('j, 's) lcm_state_scheme \<Rightarrow> 'j res \<times> ('j, 's) lcm_state_scheme) \<Rightarrow>
     ('j \<Rightarrow> ('j, 's) lcm_state_scheme \<Rightarrow> bool res \<times> ('j, 's) lcm_state_scheme) \<Rightarrow>
     (string \<Rightarrow> ('j, 's) lcm_state_scheme \<Rightarrow> bool res \<times> ('j, 's) lcm_state_scheme) \<Rightarrow>
     lcm_handler \<Rightarrow> 'j http_request \<Rightarrow> ('j, 's) lcm_state_scheme \<Rightarrow>
     'j http_reply res \<times> ('j, 's) lcm_state_scheme" where
  "serve R nd create update del h aReq s =
     (case h of
        HandleAppList \<Rightarrow> (Ret (handleAppList R s), s)
      | HandleContextCreate \<Rightarrow> handleContextCreate R nd create aReq s
      | HandleContextUpdate \<Rightarrow> handleContextUpdate R update aReq s
      | HandleContextDelete \<Rightarrow> handleContextDelete R nd del aReq s)"

section \<open>The map of applications\<close>

lemma mangle_Ret:
  assumes "rest_laws R"
  shows "mangle R nd i = Ret k \<longleftrightarrow>
    (\<exists>n p. appName R nd i = Ret n \<and> appProvider R nd i = Ret p \<and>
           k = n @ ''+'' @ p @ ''+'' @ appSoftVersion R i)"
  by (auto simp: mangle_def res_bind_eq_Ret)

lemma mangle_fields:
  assumes "rest_laws R" "fName (app_fields_of R i) = Some n" "fProvider (app_fields_of R i) = Some p"
  shows "mangle R nd i = Ret (n @ ''+'' @ p @ ''+'' @ appSoftVersion R i)"
  using assms by (simp add: mangle_def fields_appName)

lemma mangle_acceptable:
  assumes R: "rest_laws R" and "app_acceptable R i"
  obtains n p where "fName (app_fields_of R i) = Some n" "fProvider (app_fields_of R i) = Some p"
    "mangle R nd i = Ret (n @ ''+'' @ p @ ''+'' @ appSoftVersion R i)"
  using assms mangle_fields [OF R] unfolding app_acceptable_def by blast

lemma addApp_eq:
  "mangle R nd i = Ret k \<Longrightarrow>
   addApp R nd i s =
     (let (apps, new) = put_via omap_emplace umap_assign k i (theApplications s)
      in (Ret new, s\<lparr>theApplications := apps\<rparr>))"
  by (auto simp: addApp_def put_via_def Let_def split: prod.splits)

lemma addApp_Ret:
  assumes ok: "omap_ok (theApplications s)" and k: "mangle R nd i = Ret k"
  obtains s' where "addApp R nd i s = (Ret (map_of (theApplications s) k = None), s')"
    "map_of (theApplications s') = (map_of (theApplications s))(k \<mapsto> i)"
    "omap_ok (theApplications s')" "lcm_state.more s' = lcm_state.more s"
proof -
  let ?p = "put_via omap_emplace umap_assign k i (theApplications s)"
  have "addApp R nd i s = (Ret (snd ?p), s\<lparr>theApplications := fst ?p\<rparr>)"
    by (simp add: addApp_eq [OF k] split: prod.splits)
  then show thesis
    using that omap.put_new [OF ok, of k i] omap.lookup_put [OF ok, of k i] omap.ok_put [OF ok, of k i]
    by auto
qed

lemma delApp_Ret:
  assumes ok: "omap_ok (theApplications s)" and k: "mangle R nd i = Ret k"
  obtains s' where "delApp R nd i s = (Ret (map_of (theApplications s) k \<noteq> None), s')"
    "map_of (theApplications s') = (map_of (theApplications s))(k := None)"
    "omap_ok (theApplications s')" "lcm_state.more s' = lcm_state.more s"
proof -
  let ?p = "umap_erase k (theApplications s)"
  have "delApp R nd i s = (Ret (snd ?p > 0), s\<lparr>theApplications := fst ?p\<rparr>)"
    by (simp add: delApp_def k split: prod.splits)
  then show thesis
    using that omap.removed_iff [OF ok, of k] omap.lookup_remove [OF ok, of k]
      omap.ok_remove [OF ok, of k]
    by auto
qed

text \<open>The key determines name, provider and version when neither of the first two has a plus.\<close>

lemma split_at_plus:
  "CHR ''+'' \<notin> set a \<Longrightarrow> CHR ''+'' \<notin> set c \<Longrightarrow> a @ ''+'' @ b = c @ ''+'' @ d \<Longrightarrow> a = c \<and> b = d"
proof (induction a arbitrary: c)
  case Nil
  then show ?case by (cases c) auto
next
  case (Cons x a)
  then show ?case by (cases c) auto
qed

section \<open>The virtual functions\<close>

definition accepted_response :: "('j, 't, 'z) rest_api_scheme \<Rightarrow> 'j \<Rightarrow> bool" where
  "accepted_response R resp \<longleftrightarrow>
     (\<exists>ue info. context_ok R resp ue info \<and> response_info R info \<and>
        string_field R resp ''contextId'' \<noteq> None)"

definition plain_request :: "('j, 't, 'z) rest_api_scheme \<Rightarrow> 'j \<Rightarrow> bool" where
  "plain_request R req \<longleftrightarrow>
     (\<exists>ue info. context_ok R req ue info \<and> request_info R info \<and>
        string_field R req ''contextId'' = None)"

lemma contextId_present:
  assumes "rest_laws R" and "context_ok R resp ue info" and "contextId R resp \<noteq> []"
  shows "string_field R resp ''contextId'' \<noteq> None"
  using assms(3) by (cases "string_field R resp ''contextId''") (simp_all add: context_ok_getters [OF assms(1,2)])

lemma accepted_responseI:
  assumes "rest_laws R" and "context_ok R resp ue info" and "response_info R info" and "contextId R resp \<noteq> []"
  shows "accepted_response R resp"
  using contextId_present [OF assms(1,2,4)] assms(2,3) by (auto simp: accepted_response_def)

lemma makeResponse_accepted:
  assumes R: "rest_laws R" and ok: "context_ok R j ue info"
    and req: "string_field R j ''contextId'' = None" "request_info R info"
    and cid: "cid \<noteq> []" "uri \<noteq> []" and ret: "makeResponse R nd j cid uri = Ret resp"
  shows "accepted_response R resp" "contextId R resp = cid"
proof -
  obtain info' where "context_ok R resp ue info'" "contextId R resp = cid" "response_info R info'"
    using makeResponse_request [OF R ok req cid] ret by (metis res.inject(1))
  then show "accepted_response R resp" "contextId R resp = cid"
    using accepted_responseI [OF R] cid(1) by auto
qed

lemma accepted_response_replies:
  assumes R: "rest_laws R" and acc: "accepted_response R resp"
  shows "AppContext_type R nd resp = Ret Response" "contextId R resp \<noteq> []"
    "res_bind (appInfo R nd resp) (\<lambda>i. res_bind (referenceUri R nd i) (\<lambda>u. cassert nd (u \<noteq> []))) = Ret ()"
proof -
  obtain ue info where ok: "context_ok R resp ue info" and i: "response_info R info"
    and c: "string_field R resp ''contextId'' \<noteq> None"
    using acc by (auto simp: accepted_response_def)
  show "AppContext_type R nd resp = Ret Response"
    by (rule AppContext_type_eq(2) [OF R ok c i])
  show "contextId R resp \<noteq> []"
    using ok c by (auto simp: context_ok_getters [OF R ok] context_ok_def)
  obtain u where u: "string_field R info ''referenceURI'' = Some u"
    using i by (auto simp: response_info_def)
  have "u \<noteq> []"
    using ok AppInfo_of_json_sound [OF R, of info info] u
    by (auto simp: context_ok_def app_acceptable_def app_fields_of_def)
  moreover have "referenceUri R nd info = Ret u"
    using u message_response [OF R i, of nd]
    by (simp add: referenceUri_def has_string_field_iff [OF R] read_string_field [OF R])
  ultimately show "res_bind (appInfo R nd resp) (\<lambda>i. res_bind (referenceUri R nd i)
      (\<lambda>u. cassert nd (u \<noteq> []))) = Ret ()"
    by (simp add: context_ok_getters [OF R ok])
qed

lemma handleContextCreate_accepted:
  assumes R: "rest_laws R" and j: "json_body req = Ret j" "AppContext_of_json R j = Ret j"
    and c: "create (remote_address req) j s = (Ret resp, s')" and acc: "accepted_response R resp"
  shows "handleContextCreate R nd create req s = (Ret (Reply status_Created (Some resp)), s')"
  using accepted_response_replies [OF R acc] j c
  by (simp add: handleContextCreate_def toJson_eq [OF R])

lemma plain_request_type:
  assumes "rest_laws R" "plain_request R req"
  shows "AppContext_type R nd req = Ret Request"
  using assms AppContext_type_eq(1) [OF assms(1)] unfolding plain_request_def by blast

text \<open>
  What the comment of \<open>createContext\<close> in ueapplcmproxy.h promises: an authorized request comes
  back as a response with a context, a refused one as it was.
\<close>

locale lcm_backend =
  fixes R :: "('j, 't) rest_api"
    and nd :: bool
    and create :: "string \<Rightarrow> 'j \<Rightarrow> 's \<Rightarrow> 'j res \<times> 's"
    and inv :: "'s \<Rightarrow> bool"
  assumes create_answer: "rest_laws R \<Longrightarrow> inv s \<Longrightarrow> plain_request R req \<Longrightarrow>
      create addr req s = (Ret resp, s') \<Longrightarrow> resp = req \<or> accepted_response R resp"
    and create_inv: "rest_laws R \<Longrightarrow> inv s \<Longrightarrow> AppContext_of_json R req = Ret req \<Longrightarrow>
      create addr req s = (Ret resp, s') \<Longrightarrow> inv s'"
begin

lemma create_replies:
  assumes R: "rest_laws R" and inv: "inv s"
    and body: "json_body req = Ret j" "AppContext_of_json R j = Ret j" "plain_request R j"
    and reply: "handleContextCreate R nd create req s = (Ret r, s')"
  obtains resp where "create (remote_address req) j s = (Ret resp, s')" "inv s'"
    "if resp = j then r = problem_reply R status_Forbidden
            (''Could not create the requested UE application context because of the '' @
             ''current status of the mobile edge system'')
     else r = Reply status_Created (Some resp) \<and> accepted_response R resp"
proof -
  obtain resp where c: "create (remote_address req) j s = (Ret resp, s')"
    and t: "(if AppContext_type R nd resp = Ret Response
        then r = Reply status_Created (Some resp)
        else r = problem_reply R status_Forbidden
            (''Could not create the requested UE application context because of the '' @
             ''current status of the mobile edge system''))"
    using reply body
    by (auto simp: handleContextCreate_def and_then_eq_Ret rest_simps R split: if_splits)
  from create_answer [OF R inv body(3) c]
  have "if resp = j then r = problem_reply R status_Forbidden
            (''Could not create the requested UE application context because of the '' @
             ''current status of the mobile edge system'')
     else r = Reply status_Created (Some resp) \<and> accepted_response R resp"
    using t plain_request_type [OF R body(3), of nd] accepted_response_replies(1) [OF R, of resp nd]
    by (auto split: if_splits)
  with that c create_inv [OF R inv body(2) c] show thesis by blast
qed

end

text \<open>
  A proxy that keeps the contexts it authorizes: \<open>ids\<close> gives the identifiers of the contexts it
  has. An update touches no identifier and a refused one nothing at all; a deletion removes
  exactly the context named, and says whether there was one.
\<close>

locale lcm_store = lcm_backend R nd create inv
  for R :: "('j, 't) rest_api" and nd :: bool
    and create :: "string \<Rightarrow> 'j \<Rightarrow> 's \<Rightarrow> 'j res \<times> 's" and inv :: "'s \<Rightarrow> bool" +
  fixes update :: "'j \<Rightarrow> 's \<Rightarrow> bool res \<times> 's"
    and delete :: "string \<Rightarrow> 's \<Rightarrow> bool res \<times> 's"
    and ids :: "'s \<Rightarrow> string set"
  assumes create_ids: "rest_laws R \<Longrightarrow> inv s \<Longrightarrow> plain_request R req \<Longrightarrow>
      create addr req s = (Ret resp, s') \<Longrightarrow>
      if resp = req then s' = s else ids s' = insert (contextId R resp) (ids s)"
    and update_ids: "inv s \<Longrightarrow> update req s = (Ret b, s') \<Longrightarrow> ids s' = ids s"
    and update_false: "inv s \<Longrightarrow> update req s = (Ret False, s') \<Longrightarrow> s' = s"
    and delete_answer: "inv s \<Longrightarrow> delete c s = (Ret b, s') \<Longrightarrow>
      (b \<longleftrightarrow> c \<in> ids s) \<and> ids s' = ids s - {c}"
begin

lemma create_reply:
  assumes R: "rest_laws R" and inv: "inv s"
    and body: "json_body req = Ret j" "AppContext_of_json R j = Ret j" "plain_request R j"
    and reply: "handleContextCreate R nd create req s = (Ret r, s')"
  shows "(\<exists>resp. r = Reply status_Created (Some resp) \<and> accepted_response R resp \<and>
            ids s' = insert (contextId R resp) (ids s)) \<or>
         reply_status r = status_Forbidden \<and> s' = s"
proof -
  obtain resp where c: "create (remote_address req) j s = (Ret resp, s')"
    and t: "if resp = j then r = problem_reply R status_Forbidden
            (''Could not create the requested UE application context because of the '' @
             ''current status of the mobile edge system'')
     else r = Reply status_Created (Some resp) \<and> accepted_response R resp"
    using create_replies [OF R inv body reply] by blast
  with create_ids [OF R inv body(3) c] show ?thesis
    by (auto simp: problem_reply_def problem_status_eq [OF R] split: if_splits)
qed

lemma update_reply:
  assumes "rest_laws R" and "inv s" and "handleContextUpdate R update req s = (Ret r, s')"
  shows "ids s' = ids s" and "reply_status r = status_NoContent \<or>
           reply_status r = status_Forbidden \<and> s' = s"
  using assms update_ids update_false
  by (auto simp: handleContextUpdate_def and_then_eq_Ret problem_reply_def problem_status_eq
      split: if_splits)

lemma delete_reply:
  assumes R: "rest_laws R" and inv: "inv s" and path: "relative_path req = contexts_prefix @ c"
    and reply: "handleContextDelete R nd delete req s = (Ret r, s')"
  shows "ids s' = ids s - {c}"
    and "reply_status r = (if c \<in> ids s then status_NoContent else status_Forbidden)"
  using reply delete_answer [OF inv]
  by (auto simp: handleContextDelete_def and_then_eq_Ret problem_reply_def
      problem_status_eq [OF R] path)

end

section \<open>Properties\<close>

text \<open>C28. addApp, delApp and exists implement a dictionary over the mangled key: addApp stores the
  application under its key and answers true iff the key was new, delApp removes exactly that
  key and answers true iff it was there, and exists answers whether the key is there; the map
  stays sorted, and the rest of the proxy's state is untouched.\<close>

theorem applications_dictionary:
  assumes ok: "omap_ok (theApplications s)" and k: "mangle R nd i = Ret k"
  shows "\<exists>s1 s2. addApp R nd i s = (Ret (map_of (theApplications s) k = None), s1) \<and>
      map_of (theApplications s1) = (map_of (theApplications s))(k \<mapsto> i) \<and>
      omap_ok (theApplications s1) \<and> lcm_state.more s1 = lcm_state.more s \<and>
      delApp R nd i s = (Ret (map_of (theApplications s) k \<noteq> None), s2) \<and>
      map_of (theApplications s2) = (map_of (theApplications s))(k := None) \<and>
      omap_ok (theApplications s2) \<and> lcm_state.more s2 = lcm_state.more s \<and>
      exists_app R nd i s = Ret (map_of (theApplications s) k \<noteq> None) \<and>
      exists_app R nd i s1 = Ret True \<and> exists_app R nd i s2 = Ret False"
proof -
  obtain s1 where s1: "addApp R nd i s = (Ret (map_of (theApplications s) k = None), s1)"
    "map_of (theApplications s1) = (map_of (theApplications s))(k \<mapsto> i)"
    "omap_ok (theApplications s1)" "lcm_state.more s1 = lcm_state.more s"
    by (rule addApp_Ret [OF ok k])
  obtain s2 where s2: "delApp R nd i s = (Ret (map_of (theApplications s) k \<noteq> None), s2)"
    "map_of (theApplications s2) = (map_of (theApplications s))(k := None)"
    "omap_ok (theApplications s2)" "lcm_state.more s2 = lcm_state.more s"
    by (rule delApp_Ret [OF ok k])
  have "exists_app R nd i s = Ret (map_of (theApplications s) k \<noteq> None)"
    "exists_app R nd i s1 = Ret True" "exists_app R nd i s2 = Ret False"
    using s1(2) s2(2) by (simp_all add: exists_app_def k)
  with s1 s2 show ?thesis by blast
qed

theorem applications_dictionary_witness:
  "fst (addApp jrest False sample_info (lcm_init :: json lcm_state)) = Ret True \<and>
   fst (delApp jrest False sample_info (lcm_init :: json lcm_state)) = Ret False"
proof -
  have "mangle jrest False sample_info = Ret ''app+prov+1.0''" by code_simp
  moreover have "omap_ok (theApplications (lcm_init :: json lcm_state))"
    by (simp add: lcm_init_def omap_ok_def)
  ultimately show ?thesis
    using applications_dictionary [of "lcm_init :: json lcm_state" jrest False sample_info "''app+prov+1.0''"]
    by (auto simp: lcm_init_def)
qed

text \<open>Two applications whose names and providers contain no plus sign have the same key iff they
  have the same name, provider and version.\<close>

theorem mangle_injective:
  assumes R: "rest_laws R" and k: "mangle R nd i = Ret k" "mangle R nd i' = Ret k'"
    and n: "appName R nd i = Ret n" "appName R nd i' = Ret n'"
    and p: "appProvider R nd i = Ret p" "appProvider R nd i' = Ret p'"
    and plus: "CHR ''+'' \<notin> set (n @ p @ n' @ p')"
  shows "k = k' \<longleftrightarrow> n = n' \<and> p = p' \<and> appSoftVersion R i = appSoftVersion R i'"
proof -
  have kk: "k = n @ ''+'' @ p @ ''+'' @ appSoftVersion R i"
    "k' = n' @ ''+'' @ p' @ ''+'' @ appSoftVersion R i'"
    using k n p by (simp_all add: mangle_def)
  show ?thesis
  proof
    assume "k = k'"
    then have e: "n @ ''+'' @ (p @ ''+'' @ appSoftVersion R i) =
        n' @ ''+'' @ (p' @ ''+'' @ appSoftVersion R i')" by (simp add: kk)
    have "n = n' \<and> p @ ''+'' @ appSoftVersion R i = p' @ ''+'' @ appSoftVersion R i'"
      by (rule split_at_plus [OF _ _ e]) (use plus in auto)
    moreover from this have "p = p' \<and> appSoftVersion R i = appSoftVersion R i'"
      by (intro split_at_plus) (use plus in auto)
    ultimately show "n = n' \<and> p = p' \<and> appSoftVersion R i = appSoftVersion R i'" by blast
  qed (simp add: kk)
qed

theorem mangle_injective_witness:
  "''app+prov+1.0'' = ''app+prov+1.0'' \<longleftrightarrow> ''app'' = ''app'' \<and> ''prov'' = ''prov'' \<and>
     appSoftVersion jrest sample_info = appSoftVersion jrest sample_response_info"
proof -
  have k: "mangle jrest False sample_info = Ret ''app+prov+1.0''"
    "mangle jrest False sample_response_info = Ret ''app+prov+1.0''"
    "appName jrest False sample_info = Ret ''app''" "appName jrest False sample_response_info = Ret ''app''"
    "appProvider jrest False sample_info = Ret ''prov''"
    "appProvider jrest False sample_response_info = Ret ''prov''" by code_simp+
  show ?thesis by (rule mangle_injective [OF jrest_laws k]) simp
qed

lemma addApp_same_key:
  "mangle R nd i = Ret k \<Longrightarrow> mangle R nd i' = Ret k \<Longrightarrow>
   addApp R nd i' (snd (addApp R nd i lcm_init)) = (Ret False, \<lparr>theApplications = [(k, i')]\<rparr>)"
  by (simp add: addApp_eq put_via_def lcm_init_def umap_assign_def)

text \<open>Without that condition the keys collide: two applications of different names and providers
  can have one key, so that adding the second replaces the first.\<close>

theorem mangle_collision:
  "\<exists>i i'. AppInfo_request jrest ''a+b'' ''c'' ''1'' [] [] = Ret i \<and>
     AppInfo_request jrest ''a'' ''b+c'' ''1'' [] [] = Ret i' \<and> i \<noteq> i' \<and>
     fst (addApp jrest False i' (snd (addApp jrest False i (lcm_init :: json lcm_state)))) = Ret False \<and>
     map snd (theApplications (snd (addApp jrest False i' (snd (addApp jrest False i
       (lcm_init :: json lcm_state)))))) = [i']"
proof -
  let ?i = "JObject [(''appName'', JString ''a+b''), (''appProvider'', JString ''c''),
    (''appSoftVersion'', JString ''1'')]"
  let ?j = "JObject [(''appName'', JString ''a''), (''appProvider'', JString ''b+c''),
    (''appSoftVersion'', JString ''1'')]"
  have k: "mangle jrest False ?i = Ret ''a+b+c+1''" "mangle jrest False ?j = Ret ''a+b+c+1''"
    by code_simp+
  have "AppInfo_request jrest ''a+b'' ''c'' ''1'' [] [] = Ret ?i"
    "AppInfo_request jrest ''a'' ''b+c'' ''1'' [] [] = Ret ?j" by code_simp+
  moreover have "?i \<noteq> ?j" by simp
  moreover have "fst (addApp jrest False ?j (snd (addApp jrest False ?i (lcm_init :: json lcm_state)))) =
      Ret False"
    "map snd (theApplications (snd (addApp jrest False ?j (snd (addApp jrest False ?i
       (lcm_init :: json lcm_state)))))) = [?j]"
    unfolding addApp_same_key [OF k] by (simp_all only: fst_conv snd_conv lcm_state.simps list.map)
  ultimately show ?thesis by (intro exI conjI)
qed

end
