(* ===== verification/Static_Proxy.thy ===== *)
theory Static_Proxy
  imports Ue_App_Lcm_Proxy
begin

text \<open>
  \<open>StaticUeAppLcmProxy\<close> (EtsiMec/staticueapplcmproxy.h, staticueapplcmproxy.cpp): the proxy that
  answers from a table of edge routers. Its state extends that of \<open>UeAppLcmProxy\<close> with the table,
  the contexts by context ID, and the index by UE application ID, whose values are iterators
  into the contexts: an iterator is modelled by the key of the node it points to, and using one
  whose node is gone is \<open>Undef\<close>.

  The mutex makes the locked part of every member function one atomic step;
  \<open>associateAddress\<close> and \<open>removeAddress\<close> release it before they notify the clients, so their
  locked parts are definitions of their own. Log output is not modelled, nor are the macros
  ASSERT_IS_LOCKED and ASSERT_IS_NOT_LOCKED of the submodule, which look at the mutex only.

  Parameters: \<open>nd\<close> is NDEBUG; \<open>iter_contexts\<close> and \<open>iter_table\<close> are the orders in which the
  unordered maps are visited (any permutation, hypothesis \<open>order_ok\<close>); \<open>uri_validate\<close> is
  \<open>web::uri::validate\<close>; \<open>client_post i u j\<close> is the status that the \<open>i\<close>-th POST of a round of
  notifications, of \<open>j\<close> to \<open>u\<close>, is answered with, or what \<open>rest::Client\<close> throws; the context
  ID that \<open>support::Uuid\<close> draws is an argument of \<open>createContext\<close>.
\<close>

section \<open>State\<close>

record address_app_key =
  keyAddress :: string
  keyAppName :: string

definition AddressAppKey :: "string \<Rightarrow> string \<Rightarrow> address_app_key" where
  "AddressAppKey aAddress aAppName = \<lparr>keyAddress = aAddress, keyAppName = aAppName\<rparr>"

record desc =
  theAssociateUeAppId :: string
  theCallbackReference :: string
  theClientAddress :: string
  theAppName :: string
  theEdgeRouterEndpoint :: string

text \<open>callbackReference, referenceURI, contextId\<close>

type_synonym notification = "string \<times> string \<times> string"

record 'j static_state = "'j lcm_state" +
  theTable :: "(address_app_key \<times> string) list"
  theApplicationsByContextId :: "(string \<times> desc) list"
  theApplicationsByUeAppId :: "(string \<times> string) list"

definition static_init :: "'j static_state" where
  "static_init = \<lparr>theApplications = [], theTable = [], theApplicationsByContextId = [],
     theApplicationsByUeAppId = []\<rparr>"

record 'j static_env =
  iter_contexts :: "(string \<times> desc) list \<Rightarrow> (string \<times> desc) list"
  iter_table :: "(address_app_key \<times> string) list \<Rightarrow> (address_app_key \<times> string) list"
  uri_validate :: "string \<Rightarrow> bool"
  client_post :: "nat \<Rightarrow> string \<Rightarrow> 'j \<Rightarrow> nat res"

definition order_ok :: "'j static_env \<Rightarrow> bool" where
  "order_ok E \<longleftrightarrow> (\<forall>xs. mset (iter_contexts E xs) = mset xs) \<and> (\<forall>xs. mset (iter_table E xs) = mset xs)"

section \<open>Operations\<close>

text \<open>\<open>find\<close>: the specific entry of the table if there is one, else the entry for any client.\<close>

definition find_route ::
  "bool \<Rightarrow> (address_app_key \<times> string) list \<Rightarrow> string \<Rightarrow> string \<Rightarrow> string option res" where
  "find_route nd table aAddress aAppName =
     res_bind (cassert nd (aAppName \<noteq> [])) (\<lambda>_.
     case map_of table (AddressAppKey aAddress aAppName) of
       Some r \<Rightarrow> Ret (Some r)
     | None \<Rightarrow> Ret (map_of table (AddressAppKey [] aAppName)))"

text \<open>The loop of \<open>associateAddress\<close> over the contexts: the contexts and the notifications.\<close>

fun associate_loop ::
  "bool \<Rightarrow> (address_app_key \<times> string) list \<Rightarrow> string \<Rightarrow> string \<Rightarrow> (string \<times> desc) list \<Rightarrow>
     ((string \<times> desc) list \<times> notification list) res" where
  "associate_loop nd table aAppName aEdgeRouter [] = Ret ([], [])"
| "associate_loop nd table aAppName aEdgeRouter ((c, d) # elems) =
     (if theAppName d \<noteq> aAppName then
        res_map (\<lambda>(ctxs, ns). ((c, d) # ctxs, ns))
          (associate_loop nd table aAppName aEdgeRouter elems)
      else
        res_bind (find_route nd table (theClientAddress d) (theAppName d)) (\<lambda>jt.
        res_bind (cassert nd (jt \<noteq> None)) (\<lambda>_.
        case jt of
          None \<Rightarrow> Undef
        | Some r \<Rightarrow>
            if r \<noteq> theEdgeRouterEndpoint d then
              res_map (\<lambda>(ctxs, ns). ((c, d\<lparr>theEdgeRouterEndpoint := aEdgeRouter\<rparr>) # ctxs,
                  (theCallbackReference d, aEdgeRouter, c) # ns))
                (associate_loop nd table aAppName aEdgeRouter elems)
            else
              res_map (\<lambda>(ctxs, ns). ((c, d) # ctxs, ns))
                (associate_loop nd table aAppName aEdgeRouter elems))))"

definition associateAddress_locked ::
  "'j static_env \<Rightarrow> bool \<Rightarrow> string \<Rightarrow> string \<Rightarrow> string \<Rightarrow> 'j static_state \<Rightarrow>
     notification list res \<times> 'j static_state" where
  "associateAddress_locked E nd aAddress aAppName aEdgeRouter s =
     (if aAppName = [] then (Raise (RuntimeError ''Empty application name''), s)
      else if aEdgeRouter = [] then (Raise (RuntimeError ''Empty edge router end-point''), s)
      else
        let myKey = AddressAppKey aAddress aAppName;
            (table, new) = umap_emplace myKey aEdgeRouter (theTable s)
        in if \<not> new \<and> map_of table myKey = Some aEdgeRouter then (Ret [], s)
           else
             let table = umap_assign myKey aEdgeRouter table;
                 s = s\<lparr>theTable := table\<rparr>
             in and_then
                  (associate_loop nd table aAppName aEdgeRouter
                     (iter_contexts E (theApplicationsByContextId s)), s)
                  (\<lambda>(ctxs, myNotifications) s.
                     (Ret myNotifications, s\<lparr>theApplicationsByContextId := ctxs\<rparr>)))"

text \<open>The loop of \<open>removeAddress\<close>.\<close>

fun remove_loop ::
  "bool \<Rightarrow> (address_app_key \<times> string) list \<Rightarrow> string \<Rightarrow> (string \<times> desc) list \<Rightarrow>
     ((string \<times> desc) list \<times> notification list) res" where
  "remove_loop nd table aAppName [] = Ret ([], [])"
| "remove_loop nd table aAppName ((c, d) # elems) =
     (if theAppName d \<noteq> aAppName then
        res_map (\<lambda>(ctxs, ns). ((c, d) # ctxs, ns)) (remove_loop nd table aAppName elems)
      else
        res_bind (find_route nd table (theClientAddress d) (theAppName d)) (\<lambda>jt.
        case jt of
          None \<Rightarrow>
            res_map (\<lambda>(ctxs, ns). ((c, d\<lparr>theEdgeRouterEndpoint := []\<rparr>) # ctxs, ns))
              (remove_loop nd table aAppName elems)
        | Some r \<Rightarrow>
            if r \<noteq> theEdgeRouterEndpoint d then
              res_bind (cassert nd (r \<noteq> [])) (\<lambda>_.
              res_map (\<lambda>(ctxs, ns). ((c, d\<lparr>theEdgeRouterEndpoint := r\<rparr>) # ctxs,
                  (theCallbackReference d, r, c) # ns))
                (remove_loop nd table aAppName elems))
            else
              res_map (\<lambda>(ctxs, ns). ((c, d) # ctxs, ns)) (remove_loop nd table aAppName elems)))"

definition removeAddress_locked ::
  "'j static_env \<Rightarrow> bool \<Rightarrow> string \<Rightarrow> string \<Rightarrow> 'j static_state \<Rightarrow>
     notification list res \<times> 'j static_state" where
  "removeAddress_locked E nd aAddress aAppName s =
     (if aAppName = [] then (Raise (RuntimeError ''Empty application name''), s)
      else
        let myKey = AddressAppKey aAddress aAppName;
            (table, n) = umap_erase myKey (theTable s);
            s = s\<lparr>theTable := table\<rparr>
        in and_then
             (remove_loop nd table aAppName (iter_contexts E (theApplicationsByContextId s)), s)
             (\<lambda>(ctxs, myNotifications) s.
                (Ret myNotifications, s\<lparr>theApplicationsByContextId := ctxs\<rparr>)))"

definition purge :: "bool \<Rightarrow> string \<Rightarrow> 'j static_state \<Rightarrow> bool res \<times> 'j static_state" where
  "purge nd aContextId s =
     (case map_of (theApplicationsByContextId s) aContextId of
        None \<Rightarrow> (Ret False, s)
      | Some d \<Rightarrow>
          let jt = map_of (theApplicationsByUeAppId s) (theAssociateUeAppId d)
          in and_then (cassert nd (jt \<noteq> None), s) (\<lambda>_ s.
             let s = (if jt \<noteq> None
                      then s\<lparr>theApplicationsByUeAppId :=
                             fst (umap_erase (theAssociateUeAppId d) (theApplicationsByUeAppId s))\<rparr>
                      else s);
                 s = s\<lparr>theApplicationsByContextId :=
                         fst (umap_erase aContextId (theApplicationsByContextId s))\<rparr>
             in and_then (cassert nd (length (theApplicationsByContextId s) =
                   length (theApplicationsByUeAppId s)), s) (\<lambda>_ s.
                (Ret True, s))))"

primrec notify_loop ::
  "('j, 't, 'z) rest_api_scheme \<Rightarrow> 'j static_env \<Rightarrow> bool \<Rightarrow> notification list \<Rightarrow> nat \<Rightarrow>
     'j static_state \<Rightarrow> unit res \<times> 'j static_state" where
  "notify_loop R E nd [] i s = (Ret (), s)"
| "notify_loop R E nd (elem # elems) i s =
     (let (myCallbackReference, myReferenceUri, myContextId) = elem
      in and_then (cassert nd (myCallbackReference \<noteq> []), s) (\<lambda>_ s.
         and_then (cassert nd (myReferenceUri \<noteq> []), s) (\<lambda>_ s.
         and_then (cassert nd (myContextId \<noteq> []), s) (\<lambda>_ s.
         if \<not> uri_validate E myCallbackReference then notify_loop R E nd elems (Suc i) s
         else
           and_then
             (catch_all
               (and_then
                 (res_bind (NotificationEvent R myReferenceUri) (\<lambda>ev.
                    client_post E i myCallbackReference (datatype_toJson R ev)), s)
                 (\<lambda>ret s. if ret \<noteq> status_NoContent
                          then and_then (purge nd myContextId s) (\<lambda>_ s. (Ret (), s))
                          else (Ret (), s))))
             (\<lambda>_ s. notify_loop R E nd elems (Suc i) s)))))"

definition notifyClients ::
  "('j, 't, 'z) rest_api_scheme \<Rightarrow> 'j static_env \<Rightarrow> bool \<Rightarrow> notification list \<Rightarrow>
     'j static_state \<Rightarrow> unit res \<times> 'j static_state" where
  "notifyClients R E nd aNotificationList s = notify_loop R E nd aNotificationList 0 s"

definition associateAddress ::
  "('j, 't, 'z) rest_api_scheme \<Rightarrow> 'j static_env \<Rightarrow> bool \<Rightarrow> string \<Rightarrow> string \<Rightarrow> string \<Rightarrow>
     'j static_state \<Rightarrow> unit res \<times> 'j static_state" where
  "associateAddress R E nd aAddress aAppName aEdgeRouter s =
     and_then (associateAddress_locked E nd aAddress aAppName aEdgeRouter s)
       (\<lambda>myNotifications s. notifyClients R E nd myNotifications s)"

definition removeAddress ::
  "('j, 't, 'z) rest_api_scheme \<Rightarrow> 'j static_env \<Rightarrow> bool \<Rightarrow> string \<Rightarrow> string \<Rightarrow>
     'j static_state \<Rightarrow> unit res \<times> 'j static_state" where
  "removeAddress R E nd aAddress aAppName s =
     and_then (removeAddress_locked E nd aAddress aAppName s)
       (\<lambda>myNotifications s. notifyClients R E nd myNotifications s)"

definition numAddresses :: "'j static_state \<Rightarrow> nat" where
  "numAddresses s = length (theTable s)"

definition numContexts :: "bool \<Rightarrow> 'j static_state \<Rightarrow> nat res" where
  "numContexts nd s =
     res_bind (cassert nd (length (theApplicationsByContextId s) =
        length (theApplicationsByUeAppId s))) (\<lambda>_.
     Ret (length (theApplicationsByContextId s)))"

definition edgeRouter :: "bool \<Rightarrow> string \<Rightarrow> string \<Rightarrow> 'j static_state \<Rightarrow> string res" where
  "edgeRouter nd aAddress aAppName s =
     (if aAddress = [] then Raise (RuntimeError ''Empty edge client address'')
      else if aAppName = [] then Raise (RuntimeError ''Empty application name'')
      else res_bind (find_route nd (theTable s) aAddress aAppName) (\<lambda>it.
        case it of None \<Rightarrow> Ret [] | Some r \<Rightarrow> Ret r))"

definition addressAssociations ::
  "'j static_env \<Rightarrow> 'j static_state \<Rightarrow> (string \<times> string \<times> string) list" where
  "addressAssociations E s =
     map (\<lambda>(k, r). (keyAddress k, keyAppName k, r)) (iter_table E (theTable s))"

definition contexts ::
  "'j static_env \<Rightarrow> 'j static_state \<Rightarrow> (string \<times> string \<times> string) list" where
  "contexts E s =
     map (\<lambda>(c, d). (theClientAddress d, theAppName d, theEdgeRouterEndpoint d))
       (iter_contexts E (theApplicationsByContextId s))"

definition createContext ::
  "('j, 't, 'z) rest_api_scheme \<Rightarrow> bool \<Rightarrow> string \<Rightarrow> string \<Rightarrow> 'j \<Rightarrow> 'j static_state \<Rightarrow>
     'j res \<times> 'j static_state" where
  "createContext R nd uuid aClientAddress aRequest s =
     and_then (res_bind (appInfo R nd aRequest) (\<lambda>i. exists_app R nd i s), s) (\<lambda>ex s.
     if \<not> ex then (Ret aRequest, s)
     else
     and_then (res_bind (appInfo R nd aRequest) (\<lambda>i. res_bind (appName R nd i) (\<lambda>n.
       find_route nd (theTable s) aClientAddress n)), s) (\<lambda>it s.
     case it of
       None \<Rightarrow> (Ret aRequest, s)
     | Some router \<Rightarrow>
     and_then (makeResponse R nd aRequest uuid router, s) (\<lambda>myResponse s.
     and_then (associateUeAppId R nd aRequest, s) (\<lambda>myUeAppId s.
     and_then (res_bind (appInfo R nd aRequest) (appName R nd), s) (\<lambda>myAppName s.
     let (ctxs, new) = umap_emplace (contextId R myResponse)
           \<lparr>theAssociateUeAppId = myUeAppId,
            theCallbackReference = callbackReference R aRequest,
            theClientAddress = aClientAddress, theAppName = myAppName,
            theEdgeRouterEndpoint = router\<rparr> (theApplicationsByContextId s);
         s = s\<lparr>theApplicationsByContextId := ctxs\<rparr>
     in and_then (cassert nd new, s) (\<lambda>_ s.
     let (ues, new) = umap_emplace myUeAppId (contextId R myResponse)
           (theApplicationsByUeAppId s);
         s = s\<lparr>theApplicationsByUeAppId := ues\<rparr>
     in and_then (cassert nd new, s) (\<lambda>_ s.
     (Ret myResponse, s))))))))"

definition updateContext ::
  "('j, 't, 'z) rest_api_scheme \<Rightarrow> bool \<Rightarrow> 'j \<Rightarrow> 'j static_state \<Rightarrow> bool res \<times> 'j static_state"
where
  "updateContext R nd aRequest s =
     and_then (associateUeAppId R nd aRequest, s) (\<lambda>myUeAppId s.
     case map_of (theApplicationsByUeAppId s) myUeAppId of
       None \<Rightarrow> (Ret False, s)
     | Some it \<Rightarrow>
         (case map_of (theApplicationsByContextId s) it of
            None \<Rightarrow> (Undef, s)
          | Some d \<Rightarrow>
              (Ret True, s\<lparr>theApplicationsByContextId :=
                 umap_assign it (d\<lparr>theCallbackReference := callbackReference R aRequest\<rparr>)
                   (theApplicationsByContextId s)\<rparr>)))"

definition deleteContext :: "bool \<Rightarrow> string \<Rightarrow> 'j static_state \<Rightarrow> bool res \<times> 'j static_state" where
  "deleteContext nd aContextId s =
     (case map_of (theApplicationsByContextId s) aContextId of
        None \<Rightarrow> (Ret False, s)
      | Some d \<Rightarrow>
          let jt = map_of (theApplicationsByUeAppId s) (theAssociateUeAppId d)
          in and_then (cassert nd (jt \<noteq> None), s) (\<lambda>_ s.
             let s = s\<lparr>theApplicationsByContextId :=
                         fst (umap_erase aContextId (theApplicationsByContextId s))\<rparr>
             in if jt = None then (Undef, s)
                else (Ret True, s\<lparr>theApplicationsByUeAppId :=
                        fst (umap_erase (theAssociateUeAppId d) (theApplicationsByUeAppId s))\<rparr>)))"

end
