(* ===== verification/Static_Routing.thy ===== *)
theory Static_Routing
  imports Static_Proxy
begin

text \<open>
  The routing part of \<open>StaticUeAppLcmProxy\<close>: the invariant of the state, what \<open>find\<close> computes,
  and the contract that \<open>associateAddress\<close> and \<open>removeAddress\<close> share (locale \<open>rerouting\<close>): after
  either, every context is served by the router its address and application resolve to in the
  new table, and exactly the contexts whose router changed to another one are to be notified.
\<close>

section \<open>Routes\<close>

definition route :: "(address_app_key \<rightharpoonup> string) \<Rightarrow> string \<Rightarrow> string \<Rightarrow> string option" where
  "route m a n = (case m (AddressAppKey a n) of Some r \<Rightarrow> Some r | None \<Rightarrow> m (AddressAppKey [] n))"

definition desc_route :: "(address_app_key \<rightharpoonup> string) \<Rightarrow> desc \<Rightarrow> string option" where
  "desc_route m d = route m (theClientAddress d) (theAppName d)"

definition retarget :: "(address_app_key \<rightharpoonup> string) \<Rightarrow> desc \<Rightarrow> desc" where
  "retarget m d = d\<lparr>theEdgeRouterEndpoint := or_empty (desc_route m d)\<rparr>"

lemma AddressAppKey_inject [simp]:
  "AddressAppKey a n = AddressAppKey b m \<longleftrightarrow> a = b \<and> n = m"
  by (simp add: AddressAppKey_def)

lemma AddressAppKey_sel [simp]:
  "keyAddress (AddressAppKey a n) = a" "keyAppName (AddressAppKey a n) = n"
  by (simp_all add: AddressAppKey_def)

lemma AddressAppKey_collapse [simp]: "AddressAppKey (keyAddress k) (keyAppName k) = k"
  by (simp add: AddressAppKey_def)

lemma find_route_eq:
  "n \<noteq> [] \<Longrightarrow> find_route nd t a n = Ret (route (map_of t) a n)"
  by (auto simp: find_route_def route_def split: option.split)

lemma route_upd:
  "route (m(AddressAppKey a n \<mapsto> r)) b k =
     (if k = n \<and> (b = a \<or> a = [] \<and> m (AddressAppKey b k) = None) then Some r else route m b k)"
  by (auto simp: route_def split: option.split)

lemma route_del:
  "route (m(AddressAppKey a n := None)) b k =
     (if k = n \<and> b = a then (if a = [] then None else m (AddressAppKey [] n))
      else if k = n \<and> a = [] then m (AddressAppKey b n) else route m b k)"
  by (auto simp: route_def split: option.split)

lemma desc_route_other_app:
  "theAppName d \<noteq> n \<Longrightarrow> desc_route (m(AddressAppKey a n \<mapsto> r)) d = desc_route m d"
  "theAppName d \<noteq> n \<Longrightarrow> desc_route (m(AddressAppKey a n := None)) d = desc_route m d"
  by (simp_all add: desc_route_def route_upd route_del)

lemma retarget_sel [simp]:
  "theAssociateUeAppId (retarget m d) = theAssociateUeAppId d"
  "theCallbackReference (retarget m d) = theCallbackReference d"
  "theClientAddress (retarget m d) = theClientAddress d"
  "theAppName (retarget m d) = theAppName d"
  "theEdgeRouterEndpoint (retarget m d) = or_empty (desc_route m d)"
  "desc_route m' (retarget m d) = desc_route m' d"
  by (simp_all add: retarget_def desc_route_def)

lemma retarget_id: "theEdgeRouterEndpoint d = or_empty (desc_route m d) \<Longrightarrow> retarget m d = d"
  by (simp add: retarget_def)

section \<open>The two loops\<close>

text \<open>Where some context of the application has no route the loop of \<open>associateAddress\<close> crashes.\<close>

definition crash :: "bool \<Rightarrow> 'a res" where
  "crash nd = (if nd then Undef else Abort)"

lemma associate_loop_eq:
  assumes "n \<noteq> []"
  shows "associate_loop nd t n r xs =
    (if \<exists>c d. (c, d) \<in> set xs \<and> theAppName d = n \<and> desc_route (map_of t) d = None then crash nd
     else Ret
       (map (\<lambda>(c, d). (c, if theAppName d = n \<and> desc_route (map_of t) d \<noteq> Some (theEdgeRouterEndpoint d)
                           then d\<lparr>theEdgeRouterEndpoint := r\<rparr> else d)) xs,
        map (\<lambda>(c, d). (theCallbackReference d, r, c))
          (filter (\<lambda>(c, d). theAppName d = n \<and>
             desc_route (map_of t) d \<noteq> Some (theEdgeRouterEndpoint d)) xs)))"
proof (induction xs)
  case (Cons x xs)
  obtain c d where x: "x = (c, d)" by (cases x)
  show ?case
  proof (cases "theAppName d = n")
    case False
    then show ?thesis by (auto simp: Cons x res_map_def crash_def)
  next
    case True
    then have "find_route nd t (theClientAddress d) n = Ret (desc_route (map_of t) d)"
      using assms by (simp add: find_route_eq desc_route_def)
    then show ?thesis
      using True by (cases "desc_route (map_of t) d")
        (auto simp: Cons x res_map_def crash_def cassert_def)
  qed
qed simp

lemma remove_loop_eq:
  assumes "n \<noteq> []" and nonempty: "\<And>k v. map_of t k = Some v \<Longrightarrow> v \<noteq> []"
  shows "remove_loop nd t n xs = Ret
    (map (\<lambda>(c, d). (c, if theAppName d = n then retarget (map_of t) d else d)) xs,
     concat (map (\<lambda>(c, d). case desc_route (map_of t) d of
         Some r \<Rightarrow> (if theAppName d = n \<and> r \<noteq> theEdgeRouterEndpoint d
                   then [(theCallbackReference d, r, c)] else [])
       | None \<Rightarrow> []) xs))"
proof (induction xs)
  case (Cons x xs)
  obtain c d where x: "x = (c, d)" by (cases x)
  show ?case
  proof (cases "theAppName d = n")
    case False
    then show ?thesis by (auto simp: Cons x split: option.split)
  next
    case True
    then have "find_route nd t (theClientAddress d) n = Ret (desc_route (map_of t) d)"
      using assms by (simp add: find_route_eq desc_route_def)
    moreover have "v \<noteq> []" if "desc_route (map_of t) d = Some v" for v
      using that nonempty by (auto simp: desc_route_def route_def split: option.splits)
    ultimately show ?thesis
      using True by (cases "desc_route (map_of t) d")
        (auto simp: Cons x retarget_def cassert_def)
  qed
qed simp

section \<open>The invariant\<close>

definition table_ok :: "(address_app_key \<rightharpoonup> string) \<Rightarrow> bool" where
  "table_ok m \<longleftrightarrow> (\<forall>k r. m k = Some r \<longrightarrow> r \<noteq> [] \<and> keyAppName k \<noteq> [])"

text \<open>Well-formed maps with no empty router, application name or context ID.\<close>

definition static_wf :: "'j static_state \<Rightarrow> bool" where
  "static_wf s \<longleftrightarrow>
     umap_ok (theTable s) \<and> umap_ok (theApplicationsByContextId s) \<and>
     umap_ok (theApplicationsByUeAppId s) \<and> omap_ok (theApplications s) \<and>
     table_ok (map_of (theTable s)) \<and>
     (\<forall>c d. map_of (theApplicationsByContextId s) c = Some d \<longrightarrow> c \<noteq> [] \<and> theAppName d \<noteq> [])"

text \<open>The index by UE application ID is the inverse of the contexts: no iterator dangles.\<close>

definition linked :: "'j static_state \<Rightarrow> bool" where
  "linked s \<longleftrightarrow> (\<forall>u c. map_of (theApplicationsByUeAppId s) u = Some c \<longleftrightarrow>
     (\<exists>d. map_of (theApplicationsByContextId s) c = Some d \<and> theAssociateUeAppId d = u))"

text \<open>Every context records the router its client and application resolve to, or none.\<close>

definition coherent :: "'j static_state \<Rightarrow> bool" where
  "coherent s \<longleftrightarrow> (\<forall>c d. map_of (theApplicationsByContextId s) c = Some d \<longrightarrow>
     theEdgeRouterEndpoint d = or_empty (desc_route (map_of (theTable s)) d))"

text \<open>
  What holds in every build: the maps are well formed, the index by UE application ID leads to contexts
  of that ID (no iterator dangles) and the contexts record their routers.
\<close>

definition index_sound :: "'j static_state \<Rightarrow> bool" where
  "index_sound s \<longleftrightarrow> (\<forall>u c. map_of (theApplicationsByUeAppId s) u = Some c \<longrightarrow>
     (\<exists>d. map_of (theApplicationsByContextId s) c = Some d \<and> theAssociateUeAppId d = u))"

definition static_sound :: "'j static_state \<Rightarrow> bool" where
  "static_sound s \<longleftrightarrow> static_wf s \<and> index_sound s \<and> coherent s"

text \<open>The index is complete as well: so it is as long as no two contexts have one UE application ID,
  which an assertion of \<open>createContext\<close> checks in a debug build only.\<close>

definition static_inv :: "'j static_state \<Rightarrow> bool" where
  "static_inv s \<longleftrightarrow> static_wf s \<and> linked s \<and> coherent s"

definition proxy_inv :: "bool \<Rightarrow> 'j static_state \<Rightarrow> bool" where
  "proxy_inv nd s \<longleftrightarrow> static_sound s \<and> (\<not> nd \<longrightarrow> linked s)"

lemma static_inv_iff: "static_inv s \<longleftrightarrow> static_sound s \<and> linked s"
  by (auto simp: static_inv_def static_sound_def linked_def index_sound_def)

lemma static_inv_sound: "static_inv s \<Longrightarrow> static_sound s"
  by (simp add: static_inv_iff)

lemma static_inv_proxy: "static_inv s \<Longrightarrow> proxy_inv nd s"
  by (simp add: static_inv_iff proxy_inv_def)

lemma proxy_inv_sound: "proxy_inv nd s \<Longrightarrow> static_sound s"
  by (simp add: proxy_inv_def)

lemma proxy_inv_debug [simp]: "proxy_inv False s = static_inv s"
  by (simp add: proxy_inv_def static_inv_iff)

lemma proxy_inv_release [simp]: "proxy_inv True s = static_sound s"
  by (simp add: proxy_inv_def)

lemma static_inv_init: "static_inv static_init"
  by (simp add: static_inv_def static_wf_def linked_def coherent_def static_init_def umap_ok_def
      omap_ok_def table_ok_def)

lemma static_soundD:
  assumes "static_sound s"
  shows "umap_ok (theTable s)" "umap_ok (theApplicationsByContextId s)"
    "umap_ok (theApplicationsByUeAppId s)" "omap_ok (theApplications s)"
    "table_ok (map_of (theTable s))" "index_sound s" "coherent s"
  using assms by (simp_all add: static_sound_def static_wf_def)

lemma static_sound_context:
  assumes "static_sound s" and "map_of (theApplicationsByContextId s) c = Some d"
  shows "c \<noteq> []" "theAppName d \<noteq> []"
    "theEdgeRouterEndpoint d = or_empty (desc_route (map_of (theTable s)) d)"
  using assms by (auto simp: static_sound_def static_wf_def coherent_def)

lemma static_sound_index:
  assumes "static_sound s" and "map_of (theApplicationsByUeAppId s) u = Some c"
  obtains d where "map_of (theApplicationsByContextId s) c = Some d" "theAssociateUeAppId d = u"
  using assms by (auto simp: static_sound_def index_sound_def)

lemma static_invD:
  assumes "static_inv s"
  shows "umap_ok (theTable s)" "umap_ok (theApplicationsByContextId s)"
    "umap_ok (theApplicationsByUeAppId s)" "omap_ok (theApplications s)"
    "table_ok (map_of (theTable s))" "linked s" "coherent s"
  using assms by (simp_all add: static_inv_def static_wf_def)

lemma linked_context:
  "linked s \<Longrightarrow> map_of (theApplicationsByContextId s) c = Some d \<Longrightarrow>
    map_of (theApplicationsByUeAppId s) (theAssociateUeAppId d) = Some c"
  by (auto simp: linked_def)

lemma static_inv_context:
  assumes "static_inv s" and "map_of (theApplicationsByContextId s) c = Some d"
  shows "c \<noteq> []" "theAppName d \<noteq> []"
    "theEdgeRouterEndpoint d = or_empty (desc_route (map_of (theTable s)) d)"
    "map_of (theApplicationsByUeAppId s) (theAssociateUeAppId d) = Some c"
  using assms by (auto simp: static_inv_def static_wf_def linked_def coherent_def)

lemma table_ok_route: "table_ok m \<Longrightarrow> route m a n = Some r \<Longrightarrow> r \<noteq> []"
  by (auto simp: table_ok_def route_def split: option.splits)

lemma linked_sizes:
  assumes "static_inv s"
  shows "length (theApplicationsByUeAppId s) = length (theApplicationsByContextId s)"
proof -
  let ?C = "map_of (theApplicationsByContextId s)" and ?U = "map_of (theApplicationsByUeAppId s)"
  let ?ue = "\<lambda>c. theAssociateUeAppId (the (?C c))"
  have link: "\<And>u c. ?U u = Some c \<longleftrightarrow> (\<exists>d. ?C c = Some d \<and> theAssociateUeAppId d = u)"
    using assms by (simp add: static_inv_def linked_def)
  have ue: "?U (?ue c) = Some c" if h: "c \<in> dom ?C" for c
  proof -
    obtain d where "?C c = Some d" using h by blast
    then show ?thesis by (intro iffD2 [OF link]) auto
  qed
  have ctx: "\<exists>c. c \<in> dom ?C \<and> ?ue c = u" if h: "u \<in> dom ?U" for u
  proof -
    obtain c where "?U u = Some c" using h by blast
    then obtain d where "?C c = Some d" "theAssociateUeAppId d = u" using iffD1 [OF link] by blast
    then show ?thesis by (intro exI [of _ c]) auto
  qed
  have "bij_betw ?ue (dom ?C) (dom ?U)"
    unfolding bij_betw_def inj_on_def
  proof (intro conjI ballI impI)
    fix b c assume "b \<in> dom ?C" "c \<in> dom ?C" and eq: "?ue b = ?ue c"
    note this(1,2) [THEN ue]
    from trans [OF sym [OF this(1) [unfolded eq]] this(2)] have "Some b = Some c" .
    then show "b = c" by (rule iffD1 [OF option.inject])
  next
    show "?ue ` dom ?C = dom ?U"
    proof (intro equalityI subsetI)
      fix u assume "u \<in> ?ue ` dom ?C"
      then obtain c where c: "c \<in> dom ?C" and u: "u = ?ue c" by blast
      show "u \<in> dom ?U" unfolding u using ue [OF c] by (rule domI)
    next
      fix u assume "u \<in> dom ?U"
      then show "u \<in> ?ue ` dom ?C" using ctx by blast
    qed
  qed
  then have "card (dom ?C) = card (dom ?U)" by (rule bij_betw_same_card)
  then show ?thesis
    using static_invD [OF assms] by (simp add: umap_ok_def length_card_dom)
qed

section \<open>Rerouting\<close>

text \<open>The contexts to notify when the table becomes \<open>m\<close>.\<close>

definition to_notify :: "(address_app_key \<rightharpoonup> string) \<Rightarrow> 'j static_state \<Rightarrow> notification set" where
  "to_notify m s = {(theCallbackReference d, r, c) | c d r.
     map_of (theApplicationsByContextId s) c = Some d \<and> desc_route m d = Some r \<and>
     r \<noteq> theEdgeRouterEndpoint d}"

definition rerouted ::
  "(address_app_key \<rightharpoonup> string) \<Rightarrow> 'j static_state \<Rightarrow> notification list \<Rightarrow> 'j static_state \<Rightarrow> bool" where
  "rerouted m s ns s' \<longleftrightarrow>
     umap_ok (theTable s') \<and> map_of (theTable s') = m \<and>
     umap_ok (theApplicationsByContextId s') \<and>
     map_of (theApplicationsByContextId s') =
       map_option (retarget m) \<circ> map_of (theApplicationsByContextId s) \<and>
     theApplicationsByUeAppId s' = theApplicationsByUeAppId s \<and>
     theApplications s' = theApplications s \<and>
     set ns = to_notify m s \<and> distinct (map (\<lambda>n. snd (snd n)) ns)"

lemma rerouted_sound:
  assumes inv: "static_sound s" and re: "rerouted m s ns s'" and m: "table_ok m"
  shows "static_sound s'"
proof -
  have "index_sound s'" using static_soundD(6) [OF inv] re by (fastforce simp: index_sound_def rerouted_def)
  moreover have "static_wf s'" "coherent s'"
    using static_soundD(1-5,7) [OF inv] static_sound_context [OF inv] re m
    by (auto simp: static_wf_def coherent_def rerouted_def)
  ultimately show ?thesis by (simp add: static_sound_def)
qed

lemma rerouted_linked: "rerouted m s ns s' \<Longrightarrow> linked s' \<longleftrightarrow> linked s"
  by (simp add: linked_def rerouted_def) (auto simp: linked_def)

lemma map_of_permuted:
  assumes "mset ys = mset xs" and "distinct (map fst xs)"
  shows "distinct (map fst ys)" "map_of ys = map_of xs"
proof -
  show d: "distinct (map fst ys)"
    using assms by (metis mset_eq_imp_distinct_iff mset_map)
  show "map_of ys = map_of xs"
    using map_of_inject_set [OF d assms(2)] mset_eq_setD [OF assms(1)] by blast
qed

lemma order_okD:
  assumes "order_ok E" and "umap_ok xs"
  shows "umap_ok (iter_contexts E xs)" "map_of (iter_contexts E xs) = map_of xs"
    "(c, d) \<in> set (iter_contexts E xs) \<longleftrightarrow> map_of xs c = Some d"
proof -
  have "mset (iter_contexts E xs) = mset xs" using assms(1) by (simp add: order_ok_def)
  note p = map_of_permuted [OF this assms(2) [unfolded umap_ok_def]]
  show "umap_ok (iter_contexts E xs)" "map_of (iter_contexts E xs) = map_of xs"
    using p by (simp_all add: umap_ok_def)
  show "(c, d) \<in> set (iter_contexts E xs) \<longleftrightarrow> map_of xs c = Some d"
    using p map_of_eq_Some_iff [OF p(1)] by simp
qed

locale rerouting =
  fixes E :: "'j static_env"
    and op :: "'j static_state \<Rightarrow> notification list res \<times> 'j static_state"
    and upd :: "(address_app_key \<rightharpoonup> string) \<Rightarrow> (address_app_key \<rightharpoonup> string)"
  assumes op_rerouted: "order_ok E \<Longrightarrow> static_sound s \<Longrightarrow> op s = (Ret ns, s') \<Longrightarrow>
      rerouted (upd (map_of (theTable s))) s ns s'"
    and upd_ok: "op s = (Ret ns, s') \<Longrightarrow> table_ok m \<Longrightarrow> table_ok (upd m)"
    and op_throws: "op s = (Raise e, s') \<Longrightarrow> s' = s"
begin

lemma op_sound: "order_ok E \<Longrightarrow> static_sound s \<Longrightarrow> op s = (Ret ns, s') \<Longrightarrow> static_sound s'"
  using op_rerouted upd_ok static_soundD(5) by (blast intro: rerouted_sound)

lemma op_linked: "order_ok E \<Longrightarrow> static_sound s \<Longrightarrow> op s = (Ret ns, s') \<Longrightarrow> linked s' \<longleftrightarrow> linked s"
  by (rule rerouted_linked [OF op_rerouted])

lemma op_proxy: "order_ok E \<Longrightarrow> proxy_inv nd s \<Longrightarrow> op s = (Ret ns, s') \<Longrightarrow> proxy_inv nd s'"
  using op_sound op_linked unfolding proxy_inv_def by blast

lemma op_inv: "order_ok E \<Longrightarrow> static_inv s \<Longrightarrow> op s = (Ret ns, s') \<Longrightarrow> static_inv s'"
  using op_sound op_linked unfolding static_inv_iff by blast

lemma op_contexts:
  assumes "order_ok E" "static_sound s" "op s = (Ret ns, s')"
  shows "map_of (theApplicationsByContextId s') c = map_option
    (retarget (map_of (theTable s'))) (map_of (theApplicationsByContextId s) c)"
  using op_rerouted [OF assms] by (simp add: rerouted_def)

text \<open>Each context is notified at most once, with the router it now has.\<close>

lemma op_notifications:
  assumes "order_ok E" "static_sound s" "op s = (Ret ns, s')" and "(cb, r, c) \<in> set ns"
  shows "\<exists>d. map_of (theApplicationsByContextId s') c = Some d \<and>
    theCallbackReference d = cb \<and> theEdgeRouterEndpoint d = r \<and> r \<noteq> [] \<and> c \<noteq> []"
proof -
  have inv': "static_sound s'" using assms by (blast intro: op_sound)
  let ?m = "upd (map_of (theTable s))"
  have re: "rerouted ?m s ns s'" using assms by (blast intro: op_rerouted)
  then have "(cb, r, c) \<in> to_notify ?m s" using assms(4) by (simp add: rerouted_def)
  then obtain d where d: "map_of (theApplicationsByContextId s) c = Some d"
    "cb = theCallbackReference d" "desc_route ?m d = Some r"
    by (auto simp: to_notify_def)
  then have d': "map_of (theApplicationsByContextId s') c = Some (retarget ?m d)"
    using re by (simp add: rerouted_def)
  have "r \<noteq> []"
    using d(3) static_soundD(5) [OF inv'] re
    by (auto simp: rerouted_def desc_route_def dest: table_ok_route)
  with d' d static_sound_context(1) [OF inv' d'] show ?thesis by auto
qed

lemma op_notified_once:
  assumes "order_ok E" "static_sound s" "op s = (Ret ns, s')"
  shows "distinct (map (\<lambda>n. snd (snd n)) ns)"
  using op_rerouted [OF assms] by (simp add: rerouted_def)

end

section \<open>associateAddress and removeAddress meet the contract\<close>

lemma map_of_mapped: "map_of (map (\<lambda>(c, d). (c, f d)) xs) = map_option f \<circ> map_of xs"
  by (induction xs) auto

lemma umap_ok_mapped: "umap_ok (map (\<lambda>(c, d). (c, f d)) xs) = umap_ok xs"
  by (simp add: umap_ok_def comp_def case_prod_beta)

lemma insert_or_assign:
  assumes "umap_ok t"
  shows "umap_ok (umap_assign k v (fst (umap_emplace k v t)))"
    "map_of (umap_assign k v (fst (umap_emplace k v t))) = (map_of t)(k \<mapsto> v)"
proof -
  show "umap_ok (umap_assign k v (fst (umap_emplace k v t)))"
    using assms by (simp add: umap.ok_insert umap.ok_assign)
  show "map_of (umap_assign k v (fst (umap_emplace k v t))) = (map_of t)(k \<mapsto> v)"
    by (auto simp: umap_emplace_def umap_assign_def map_of_map_entry fun_eq_iff)
qed

text \<open>Rerouting with the contexts visited in any order.\<close>

lemma reroutedI:
  assumes E: "order_ok E" and inv: "static_sound s"
    and table: "umap_ok t" "map_of t = m"
    and ctxs: "ctxs = map (\<lambda>(c, d). (c, f d)) (iter_contexts E (theApplicationsByContextId s))"
    and f: "\<And>c d. map_of (theApplicationsByContextId s) c = Some d \<Longrightarrow> f d = retarget m d"
    and ns: "ns = map (\<lambda>(c, d). (theCallbackReference d, or_empty (desc_route m d), c))
      (filter (\<lambda>(c, d). desc_route m d \<noteq> None \<and> desc_route m d \<noteq> Some (theEdgeRouterEndpoint d))
        (iter_contexts E (theApplicationsByContextId s)))"
  shows "rerouted m s ns (s\<lparr>theTable := t, theApplicationsByContextId := ctxs\<rparr>)"
proof -
  let ?C = "theApplicationsByContextId s"
  note o = order_okD [OF E static_soundD(2) [OF inv]]
  have "map_of ctxs c = map_option (retarget m) (map_of ?C c)" for c
    using f by (cases "map_of ?C c") (simp_all add: ctxs map_of_mapped o)
  moreover have "set ns = to_notify m s"
    by (force simp: ns to_notify_def o)
  moreover have "distinct (map (\<lambda>n. snd (snd n)) ns)"
  proof -
    have "map (\<lambda>n. snd (snd n)) ns = map fst (filter (\<lambda>(c, d). desc_route m d \<noteq> None \<and>
        desc_route m d \<noteq> Some (theEdgeRouterEndpoint d)) (iter_contexts E ?C))"
      by (simp add: ns case_prod_beta)
    then show ?thesis using o(1) by (simp add: umap_ok_def distinct_map_filter)
  qed
  ultimately show ?thesis
    using o(1) table by (auto simp: rerouted_def ctxs umap_ok_mapped fun_eq_iff)
qed

lemma rerouted_same:
  assumes inv: "static_sound s" and "map_of (theTable s) = m"
  shows "rerouted m s [] s"
proof -
  have "map_option (retarget m) (map_of (theApplicationsByContextId s) c) =
      map_of (theApplicationsByContextId s) c" for c
    using static_sound_context(3) [OF inv] assms(2)
    by (cases "map_of (theApplicationsByContextId s) c") (auto intro: retarget_id)
  moreover have "to_notify m s = {}"
    using static_sound_context(3) [OF inv] assms(2) by (auto simp: to_notify_def)
  ultimately show ?thesis
    using static_soundD [OF inv] assms(2) by (auto simp: rerouted_def fun_eq_iff)
qed

lemma associateAddress_cases:
  assumes "n \<noteq> []" "r \<noteq> []"
  shows "associateAddress_locked E nd a n r s =
    (if map_of (theTable s) (AddressAppKey a n) = Some r then (Ret [], s)
     else let t = umap_assign (AddressAppKey a n) r
                    (fst (umap_emplace (AddressAppKey a n) r (theTable s)))
          in and_then (associate_loop nd t n r (iter_contexts E (theApplicationsByContextId s)),
                s\<lparr>theTable := t\<rparr>)
               (\<lambda>(ctxs, ns) s. (Ret ns, s\<lparr>theApplicationsByContextId := ctxs\<rparr>)))"
  using assms by (auto simp: associateAddress_locked_def Let_def umap_emplace_def)

lemma associate_desc:
  assumes inv: "static_sound s" and d: "map_of (theApplicationsByContextId s) c = Some d"
    and m: "m = (map_of (theTable s))(AddressAppKey a n \<mapsto> r)"
    and ne: "desc_route m d \<noteq> Some (theEdgeRouterEndpoint d)"
  shows "desc_route m d = None \<or> desc_route m d = Some r \<and> theAppName d = n"
proof -
  have "desc_route m d = desc_route (map_of (theTable s)) d \<or>
      desc_route m d = Some r \<and> theAppName d = n"
    unfolding m desc_route_def by (auto simp: route_upd)
  then show ?thesis
    using ne static_sound_context(3) [OF inv d] by (auto simp: or_empty_def split: option.splits)
qed

text \<open>The contexts that the loop of \<open>associateAddress\<close> would crash on.\<close>

definition routeless :: "(address_app_key \<rightharpoonup> string) \<Rightarrow> string \<Rightarrow> 'j static_state \<Rightarrow> bool" where
  "routeless m n s \<longleftrightarrow> (\<exists>c d. map_of (theApplicationsByContextId s) c = Some d \<and>
     theAppName d = n \<and> desc_route m d = None)"

lemma associate_context:
  assumes inv: "static_sound s" and d: "map_of (theApplicationsByContextId s) c = Some d"
    and m: "m = (map_of (theTable s))(AddressAppKey a n \<mapsto> r)"
    and served: "\<not> routeless m n s"
  shows "theAppName d = n \<and> desc_route m d \<noteq> Some (theEdgeRouterEndpoint d) \<longleftrightarrow>
      desc_route m d \<noteq> None \<and> desc_route m d \<noteq> Some (theEdgeRouterEndpoint d)"
    and "(if theAppName d = n \<and> desc_route m d \<noteq> Some (theEdgeRouterEndpoint d)
      then d\<lparr>theEdgeRouterEndpoint := r\<rparr> else d) = retarget m d"
    and "desc_route m d = Some r' \<Longrightarrow> r' \<noteq> theEdgeRouterEndpoint d \<Longrightarrow> r = r'"
proof -
  note route = associate_desc [OF inv d m]
  have ok: "theAppName d = n \<Longrightarrow> desc_route m d \<noteq> None" using served d by (auto simp: routeless_def)
  show "theAppName d = n \<and> desc_route m d \<noteq> Some (theEdgeRouterEndpoint d) \<longleftrightarrow>
      desc_route m d \<noteq> None \<and> desc_route m d \<noteq> Some (theEdgeRouterEndpoint d)"
    using route ok by auto
  show "desc_route m d = Some r' \<Longrightarrow> r' \<noteq> theEdgeRouterEndpoint d \<Longrightarrow> r = r'"
    using route by auto
  show "(if theAppName d = n \<and> desc_route m d \<noteq> Some (theEdgeRouterEndpoint d)
      then d\<lparr>theEdgeRouterEndpoint := r\<rparr> else d) = retarget m d"
  proof (cases "theAppName d = n")
    case True
    then show ?thesis using route ok by (auto simp: retarget_def)
  next
    case False
    then show ?thesis
      using static_sound_context(3) [OF inv d] by (simp add: retarget_id m desc_route_other_app)
  qed
qed

lemma associate_locked_eq:
  assumes E: "order_ok E" and inv: "static_sound s" and n: "n \<noteq> []" "r \<noteq> []"
    and m: "m = (map_of (theTable s))(AddressAppKey a n \<mapsto> r)"
  shows "routeless m n s \<Longrightarrow> map_of (theTable s) (AddressAppKey a n) \<noteq> Some r \<Longrightarrow>
      fst (associateAddress_locked E nd a n r s) = crash nd"
    and "\<not> routeless m n s \<or> map_of (theTable s) (AddressAppKey a n) = Some r \<Longrightarrow>
      \<exists>ns s'. associateAddress_locked E nd a n r s = (Ret ns, s') \<and> rerouted m s ns s'"
proof -
  let ?k = "AddressAppKey a n" and ?xs = "iter_contexts E (theApplicationsByContextId s)"
  define t where "t = umap_assign ?k r (fst (umap_emplace ?k r (theTable s)))"
  note o = order_okD [OF E static_soundD(2) [OF inv]]
  have t: "umap_ok t" "map_of t = m"
    using insert_or_assign [OF static_soundD(1) [OF inv]] by (simp_all add: t_def m)
  note eq = associateAddress_cases [OF n, of E nd a s, folded t_def, unfolded Let_def]
    associate_loop_eq [OF n(1), of nd t r ?xs, unfolded t(2) o]
  show "routeless m n s \<Longrightarrow> map_of (theTable s) ?k \<noteq> Some r \<Longrightarrow>
      fst (associateAddress_locked E nd a n r s) = crash nd"
    by (auto simp: eq routeless_def crash_def)
  assume ok: "\<not> routeless m n s \<or> map_of (theTable s) ?k = Some r"
  show "\<exists>ns s'. associateAddress_locked E nd a n r s = (Ret ns, s') \<and> rerouted m s ns s'"
  proof (cases "map_of (theTable s) ?k = Some r")
    case True
    then show ?thesis
      using rerouted_same [OF inv, of m] by (simp add: eq m fun_upd_idem)
  next
    case False
    with ok have served: "\<not> routeless m n s" by simp
    have ns: "map (\<lambda>(c, d). (theCallbackReference d, r, c)) (filter (\<lambda>(c, d). theAppName d = n \<and>
        desc_route m d \<noteq> Some (theEdgeRouterEndpoint d)) ?xs) =
      map (\<lambda>(c, d). (theCallbackReference d, or_empty (desc_route m d), c))
        (filter (\<lambda>(c, d). desc_route m d \<noteq> None \<and>
          desc_route m d \<noteq> Some (theEdgeRouterEndpoint d)) ?xs)"
    proof (intro map_cong filter_cong refl)
      fix x assume x: "x \<in> set ?xs"
      obtain c d where cd: "x = (c, d)" by fastforce
      show "(case x of (c, d) \<Rightarrow> theAppName d = n \<and> desc_route m d \<noteq> Some (theEdgeRouterEndpoint d)) \<longleftrightarrow>
          (case x of (c, d) \<Rightarrow> desc_route m d \<noteq> None \<and> desc_route m d \<noteq> Some (theEdgeRouterEndpoint d))"
        using associate_context(1) [OF inv _ m served, of c d] x unfolding cd o by simp
    qed (use associate_context(3) [OF inv _ m served] in \<open>auto simp: o\<close>)
    show ?thesis
      using False ok reroutedI [OF E inv t refl associate_context(2) [OF inv _ m served] ns]
      by (simp add: eq(1) eq(2) [folded routeless_def])
  qed
qed

lemma associate_throws:
  assumes "associateAddress_locked E nd a n r s = (Raise e, s')"
  shows "n = [] \<or> r = []"
  using assms by (cases "n = []"; cases "r = []")
    (auto simp: associateAddress_cases associate_loop_eq res_simps crash_def Let_def split: if_splits)

lemma remove_loop_no_throw: "n \<noteq> [] \<Longrightarrow> remove_loop nd t n xs \<noteq> Raise e"
  by (induction nd t n xs rule: remove_loop.induct)
    (auto simp: res_simps res_map_def find_route_def split: option.splits)

lemma remove_notifications:
  assumes "\<And>c d r. (c, d) \<in> set xs \<Longrightarrow> desc_route m d = Some r \<Longrightarrow> r \<noteq> theEdgeRouterEndpoint d \<Longrightarrow>
    theAppName d = n"
  shows "concat (map (\<lambda>(c, d). case desc_route m d of
       Some r \<Rightarrow> (if theAppName d = n \<and> r \<noteq> theEdgeRouterEndpoint d
                 then [(theCallbackReference d, r, c)] else [])
     | None \<Rightarrow> []) xs) =
    map (\<lambda>(c, d). (theCallbackReference d, or_empty (desc_route m d), c))
      (filter (\<lambda>(c, d). desc_route m d \<noteq> None \<and> desc_route m d \<noteq> Some (theEdgeRouterEndpoint d)) xs)"
  using assms
proof (induction xs)
  case (Cons x xs)
  obtain c d where x: "x = (c, d)" by (cases x)
  show ?case
    using Cons.IH Cons.prems by (cases "desc_route m d") (auto simp: x)
qed simp

lemma remove_locked_eq:
  assumes E: "order_ok E" and inv: "static_sound s" and n: "n \<noteq> []"
    and m: "m = (map_of (theTable s))(AddressAppKey a n := None)"
  shows "\<exists>ns s'. removeAddress_locked E nd a n s = (Ret ns, s') \<and> rerouted m s ns s'"
proof -
  let ?k = "AddressAppKey a n" and ?xs = "iter_contexts E (theApplicationsByContextId s)"
  define t where "t = fst (umap_erase ?k (theTable s))"
  note o = order_okD [OF E static_soundD(2) [OF inv]]
  have t: "umap_ok t" "map_of t = m"
    using static_soundD(1) [OF inv] by (simp_all add: t_def m umap.ok_remove umap.lookup_remove)
  have values_ok: "map_of t k \<noteq> Some []" for k
    using static_soundD(5) [OF inv] by (auto simp: t(2) m table_ok_def split: if_splits)
  let ?f = "\<lambda>d. if theAppName d = n then retarget m d else d"
  have other: "?f d = retarget m d"
      "desc_route m d = Some r \<Longrightarrow> r \<noteq> theEdgeRouterEndpoint d \<Longrightarrow> theAppName d = n"
    if d: "map_of (theApplicationsByContextId s) c = Some d" for c d r
  proof -
    note ep = static_sound_context(3) [OF inv d]
    show "?f d = retarget m d" using ep by (simp add: retarget_id m desc_route_other_app)
    show "theAppName d = n" if "desc_route m d = Some r" "r \<noteq> theEdgeRouterEndpoint d"
      using that ep desc_route_other_app(2) [of d n "map_of (theTable s)" a]
      by (cases "theAppName d = n") (simp_all add: m)
  qed
  let ?ns = "map (\<lambda>(c, d). (theCallbackReference d, or_empty (desc_route m d), c))
    (filter (\<lambda>(c, d). desc_route m d \<noteq> None \<and> desc_route m d \<noteq> Some (theEdgeRouterEndpoint d)) ?xs)"
  have "remove_loop nd t n ?xs = Ret (map (\<lambda>(c, d). (c, ?f d)) ?xs, ?ns)"
  proof -
    have "(c, d) \<in> set ?xs \<Longrightarrow> desc_route m d = Some r \<Longrightarrow> r \<noteq> theEdgeRouterEndpoint d \<Longrightarrow> theAppName d = n"
      for c d r using other(2) by (simp add: o)
    from remove_loop_eq [OF n, of t nd ?xs] remove_notifications [OF this] show ?thesis
      using values_ok unfolding t(2) by fastforce
  qed
  moreover have "removeAddress_locked E nd a n s = and_then (remove_loop nd t n ?xs, s\<lparr>theTable := t\<rparr>)
      (\<lambda>(ctxs, ns) s. (Ret ns, s\<lparr>theApplicationsByContextId := ctxs\<rparr>))"
    using n by (simp add: removeAddress_locked_def t_def umap_erase_def Let_def)
  moreover have "rerouted m s ?ns (s\<lparr>theTable := t,
      theApplicationsByContextId := map (\<lambda>(c, d). (c, ?f d)) ?xs\<rparr>)"
    using other(1) by (rule reroutedI [OF E inv t refl _ refl])
  ultimately show ?thesis by (intro exI conjI) simp_all
qed

interpretation associating: rerouting E "associateAddress_locked E nd a n r"
  "\<lambda>m. m(AddressAppKey a n \<mapsto> r)" for E :: "'j static_env" and nd a n r
proof
  fix s s' :: "'j static_state" and ns
  assume E: "order_ok E" "static_sound s" and op: "associateAddress_locked E nd a n r s = (Ret ns, s')"
  then have n: "n \<noteq> []" "r \<noteq> []" by (auto simp: associateAddress_locked_def split: if_splits)
  let ?m = "(map_of (theTable s))(AddressAppKey a n \<mapsto> r)"
  note eq = associate_locked_eq [OF E n refl, where a = a and nd = nd]
  have "\<not> routeless ?m n s \<or> map_of (theTable s) (AddressAppKey a n) = Some r"
    using eq(1) op by (cases nd) (auto simp: crash_def)
  then show "rerouted ?m s ns s'" using eq(2) op by auto
next
  fix s s' :: "'j static_state" and ns m
  assume "associateAddress_locked E nd a n r s = (Ret ns, s')" and "table_ok m"
  then show "table_ok (m(AddressAppKey a n \<mapsto> r))"
    by (auto simp: associateAddress_locked_def table_ok_def split: if_splits)
next
  fix s s' :: "'j static_state" and e
  assume "associateAddress_locked E nd a n r s = (Raise e, s')"
  then show "s' = s"
    using associate_throws by (fastforce simp: associateAddress_locked_def split: if_splits)
qed

interpretation removing: rerouting E "removeAddress_locked E nd a n"
  "\<lambda>m. m(AddressAppKey a n := None)" for E :: "'j static_env" and nd a n
proof
  fix s s' :: "'j static_state" and ns
  assume E: "order_ok E" "static_sound s" and op: "removeAddress_locked E nd a n s = (Ret ns, s')"
  then have n: "n \<noteq> []" by (auto simp: removeAddress_locked_def split: if_splits)
  show "rerouted ((map_of (theTable s))(AddressAppKey a n := None)) s ns s'"
    using remove_locked_eq [OF E n refl, where a = a and nd = nd] op by auto
next
  fix m :: "address_app_key \<rightharpoonup> string"
  assume "table_ok m"
  then show "table_ok (m(AddressAppKey a n := None))" by (auto simp: table_ok_def)
next
  fix s s' :: "'j static_state" and e
  assume "removeAddress_locked E nd a n s = (Raise e, s')"
  then show "s' = s"
    by (auto simp: removeAddress_locked_def Let_def res_simps umap_erase_def remove_loop_no_throw
        split: if_splits)
qed

end
