(* ===== verification/Static_Contexts.thy ===== *)
theory Static_Contexts
  imports Static_Routing
begin

text \<open>
  The contexts of \<open>StaticUeAppLcmProxy\<close>: \<open>purge\<close> and \<open>deleteContext\<close> both drop a context from the
  two maps, a round of notifications drops exactly the contexts whose client does not answer
  204, and \<open>createContext\<close> answers and stores as the header of the base class says. The class
  provides the interface \<open>lcm_store\<close> of the HTTP handlers.
\<close>

section \<open>Dropping a context\<close>

definition drop_context :: "string \<Rightarrow> 'j static_state \<Rightarrow> 'j static_state" where
  "drop_context c s =
     (case map_of (theApplicationsByContextId s) c of
        None \<Rightarrow> s
      | Some d \<Rightarrow> s\<lparr>theApplicationsByUeAppId :=
            AList.delete (theAssociateUeAppId d) (theApplicationsByUeAppId s),
          theApplicationsByContextId := AList.delete c (theApplicationsByContextId s)\<rparr>)"

lemma drop_context_sel [simp]:
  "theTable (drop_context c s) = theTable s"
  "theApplications (drop_context c s) = theApplications s"
  "map_of (theApplicationsByContextId (drop_context c s)) =
     (map_of (theApplicationsByContextId s))(c := None)"
  by (auto simp: drop_context_def AList.delete_conv' fun_eq_iff split: option.split)

lemma umap_ok_drop:
  assumes "static_wf s"
  shows "umap_ok (theApplicationsByContextId (drop_context c s))"
    "umap_ok (theApplicationsByUeAppId (drop_context c s))"
  using assms by (auto simp: static_wf_def drop_context_def umap_ok_def keys_delete split: option.split)

lemma static_wf_drop: "static_wf s \<Longrightarrow> static_wf (drop_context c s)"
  using umap_ok_drop [of s c] unfolding static_wf_def drop_context_sel by auto

lemma drop_context_index:
  "map_of (theApplicationsByContextId s) c = Some d \<Longrightarrow> map_of (theApplicationsByUeAppId (drop_context c s)) =
     (map_of (theApplicationsByUeAppId s))(theAssociateUeAppId d := None)"
  by (simp add: drop_context_def AList.delete_conv')

lemma drop_absent: "map_of (theApplicationsByContextId s) c = None \<Longrightarrow> drop_context c s = s"
  by (simp add: drop_context_def)

lemma static_sound_drop:
  assumes inv: "static_sound s"
  shows "static_sound (drop_context c s)"
proof (cases "map_of (theApplicationsByContextId s) c")
  case (Some d)
  note D = static_soundD [OF inv]
  have "index_sound (drop_context c s)"
    unfolding index_sound_def drop_context_index [OF Some] drop_context_sel
  proof (intro allI impI)
    fix u c' assume u: "((map_of (theApplicationsByUeAppId s))(theAssociateUeAppId d := None)) u = Some c'"
    then have "map_of (theApplicationsByUeAppId s) u = Some c'" and "u \<noteq> theAssociateUeAppId d"
      by (auto split: if_splits)
    moreover from this(1) obtain d' where "map_of (theApplicationsByContextId s) c' = Some d'"
      "theAssociateUeAppId d' = u" by (rule static_sound_index [OF inv])
    ultimately show "\<exists>d'. ((map_of (theApplicationsByContextId s))(c := None)) c' = Some d' \<and>
        theAssociateUeAppId d' = u" using Some by auto
  qed
  moreover have "static_wf (drop_context c s)" "coherent (drop_context c s)"
    using inv D(7) by (simp_all add: static_sound_def coherent_def static_wf_drop)
  ultimately show ?thesis by (simp add: static_sound_def)
qed (use inv in \<open>simp add: drop_absent\<close>)

lemma linked_drop:
  assumes "linked s"
  shows "linked (drop_context c s)"
proof (cases "map_of (theApplicationsByContextId s) c")
  case (Some d)
  have link: "map_of (theApplicationsByUeAppId s) u = Some c' \<longleftrightarrow>
      (\<exists>d. map_of (theApplicationsByContextId s) c' = Some d \<and> theAssociateUeAppId d = u)" for u c'
    using assms by (simp add: linked_def)
  show ?thesis
    unfolding linked_def drop_context_index [OF Some] drop_context_sel
  proof (intro allI)
    fix u c'
    show "((map_of (theApplicationsByUeAppId s))(theAssociateUeAppId d := None)) u = Some c' \<longleftrightarrow>
      (\<exists>d'. ((map_of (theApplicationsByContextId s))(c := None)) c' = Some d' \<and>
        theAssociateUeAppId d' = u)"
      using link [of u c'] link [of u c] Some by (auto split: if_splits)
  qed
qed (use assms in \<open>simp add: drop_absent\<close>)

lemma static_inv_drop: "static_inv s \<Longrightarrow> static_inv (drop_context c s)"
  by (simp add: static_inv_iff static_sound_drop linked_drop)

lemma proxy_inv_drop: "proxy_inv nd s \<Longrightarrow> proxy_inv nd (drop_context c s)"
  by (simp add: proxy_inv_def static_sound_drop linked_drop)

text \<open>In a release build the index may lack the UE application ID of the context.\<close>

lemma purge_eq:
  assumes inv: "proxy_inv nd s"
  shows "purge nd c s =
    (Ret (map_of (theApplicationsByContextId s) c \<noteq> None), drop_context c s)"
proof (cases "map_of (theApplicationsByContextId s) c")
  case (Some d)
  show ?thesis
  proof (cases nd)
    case True
    then show ?thesis by (auto simp: purge_def Some umap_erase_def drop_context_def delete_absent)
  next
    case False
    then have full: "static_inv s" using inv by simp
    note u = static_inv_context(4) [OF full Some]
    have "length (theApplicationsByUeAppId (drop_context c s)) =
        length (theApplicationsByContextId (drop_context c s))"
      by (rule linked_sizes [OF static_inv_drop [OF full]])
    then show ?thesis
      by (simp add: purge_def Some u umap_erase_def drop_context_def)
  qed
qed (simp add: purge_def drop_context_def)

text \<open>\<open>deleteContext\<close> erases the iterator that it finds in the index, which may be the end: only in a
  release build, and only for a context that the index does not lead to.\<close>

lemma deleteContext_cases:
  "deleteContext nd c s =
    (case map_of (theApplicationsByContextId s) c of
       None \<Rightarrow> (Ret False, s)
     | Some d \<Rightarrow>
         (if map_of (theApplicationsByUeAppId s) (theAssociateUeAppId d) \<noteq> None then (Ret True, drop_context c s)
          else if nd then (Undef, s\<lparr>theApplicationsByContextId := AList.delete c (theApplicationsByContextId s)\<rparr>)
          else (Abort, s)))"
  by (simp add: deleteContext_def drop_context_def umap_erase_def cassert_def Let_def split: option.split)

lemma deleteContext_eq:
  assumes "linked s"
  shows "deleteContext nd c s =
    (Ret (map_of (theApplicationsByContextId s) c \<noteq> None), drop_context c s)"
  using linked_context [OF assms, of c]
  by (auto simp: deleteContext_cases drop_absent split: option.split)

lemma deleteContext_no_throw: "deleteContext nd c s \<noteq> (Raise e, s')"
  by (simp add: deleteContext_cases split: option.split)

lemma deleteContext_Ret: "deleteContext nd c s = (Ret b, s') \<Longrightarrow> s' = drop_context c s"
  by (auto simp: deleteContext_cases drop_absent split: option.splits if_splits)

section \<open>A round of notifications\<close>

definition posts_survive :: "'j static_env \<Rightarrow> bool" where
  "posts_survive E \<longleftrightarrow> (\<forall>i u j. survives (client_post E i u j))"

text \<open>The contexts whose client was reached and did not answer 204, with POSTs counted from \<open>i\<close>.\<close>

fun unanswered ::
  "('j, 't, 'z) rest_api_scheme \<Rightarrow> 'j static_env \<Rightarrow> nat \<Rightarrow> notification list \<Rightarrow> string list" where
  "unanswered R E i [] = []"
| "unanswered R E i ((cb, r, c) # ns) =
     (if uri_validate E cb \<and>
         (\<exists>ev st. NotificationEvent R r = Ret ev \<and> client_post E i cb (datatype_toJson R ev) = Ret st \<and>
            st \<noteq> status_NoContent)
      then c # unanswered R E (Suc i) ns else unanswered R E (Suc i) ns)"

text \<open>The notifications that are handled: a debug build stops at the first one without a callback.\<close>

definition handled :: "bool \<Rightarrow> notification list \<Rightarrow> notification list" where
  "handled nd ns = (if nd then ns else takeWhile (\<lambda>n. fst n \<noteq> []) ns)"

lemma handled_simps [simp]:
  "handled nd [] = []" "handled nd (n # ns) = (if nd \<or> fst n \<noteq> [] then n # handled nd ns else [])"
  by (auto simp: handled_def)

lemma handled_all: "handled nd ns = ns \<longleftrightarrow> nd \<or> (\<forall>n \<in> set ns. fst n \<noteq> [])"
  by (induction ns) auto

definition addressed :: "notification list \<Rightarrow> bool" where
  "addressed ns \<longleftrightarrow> (\<forall>n \<in> set ns. fst (snd n) \<noteq> [] \<and> snd (snd n) \<noteq> [])"

lemma notify_loop_outcome:
  assumes R: "rest_laws R" and E: "posts_survive E" and "proxy_inv nd s" and "addressed ns"
  shows "notify_loop R E nd ns i s =
    (if handled nd ns = ns then Ret () else Abort, fold drop_context (unanswered R E i (handled nd ns)) s)"
  using assms(3,4)
proof (induction ns arbitrary: i s)
  case (Cons n ns)
  obtain cb r c where n: "n = (cb, r, c)" by (cases n)
  have rest: "addressed ns" and ne: "r \<noteq> []" "c \<noteq> []"
    using Cons.prems(2) by (auto simp: addressed_def n)
  note drop = proxy_inv_drop [OF Cons.prems(1), of c]
  obtain ev where ev: "NotificationEvent R r = Ret ev"
    using NotificationEvent_fields [OF R ne(1)] by blast
  have "survives (client_post E i cb (datatype_toJson R ev))"
    using E by (simp add: posts_survive_def)
  then consider st where "client_post E i cb (datatype_toJson R ev) = Ret st"
    | e where "client_post E i cb (datatype_toJson R ev) = Raise e"
    by (cases "client_post E i cb (datatype_toJson R ev)") auto
  then show ?case
    using Cons.IH [OF Cons.prems(1) rest, of "Suc i"] Cons.IH [OF drop rest, of "Suc i"] purge_eq [OF Cons.prems(1), of c]
    by cases (auto simp: n ne ev cassert_def)
qed simp

lemma notify_loop_eq:
  assumes "rest_laws R" "posts_survive E" "proxy_inv nd s" "addressed ns"
    and "nd \<or> (\<forall>n \<in> set ns. fst n \<noteq> [])"
  shows "notify_loop R E nd ns i s = (Ret (), fold drop_context (unanswered R E i ns) s)"
  using notify_loop_outcome [OF assms(1-4), of i] iffD2 [OF handled_all assms(5)] by simp

lemma static_sound_fold_drop: "static_sound s \<Longrightarrow> static_sound (fold drop_context cs s)"
  by (induction cs arbitrary: s) (simp_all add: static_sound_drop)

lemma static_inv_fold_drop: "static_inv s \<Longrightarrow> static_inv (fold drop_context cs s)"
  by (induction cs arbitrary: s) (simp_all add: static_inv_drop)

lemma proxy_inv_fold_drop: "proxy_inv nd s \<Longrightarrow> proxy_inv nd (fold drop_context cs s)"
  by (induction cs arbitrary: s) (simp_all add: proxy_inv_drop)

lemma fold_drop_sel [simp]:
  "theTable (fold drop_context cs s) = theTable s"
  "theApplications (fold drop_context cs s) = theApplications s"
  by (induction cs arbitrary: s) simp_all

lemma fold_drop_contexts:
  "map_of (theApplicationsByContextId (fold drop_context cs s)) c =
     (if c \<in> set cs then None else map_of (theApplicationsByContextId s) c)"
  by (induction cs arbitrary: s) auto

section \<open>Creating a context\<close>

text \<open>Only a plain request is ever answered: anything else throws or trips an assertion.\<close>

lemma makeResponse_Ret:
  assumes R: "rest_laws R" and ok: "context_ok R j ue info"
    and ret: "makeResponse R nd j cid uri = Ret resp"
  shows "string_field R j ''contextId'' = None" "request_info R info" "cid \<noteq> []" "uri \<noteq> []"
proof -
  note g = context_ok_getters [OF R ok]
  have ty: "AppContext_type R nd j = Ret Request" and "cid \<noteq> []" "uri \<noteq> []"
    and i: "\<exists>info'. makeAppContextResponse R nd info uri = Ret info'"
    using ret g by (auto simp: makeResponse_def res_bind_eq_Ret split: if_splits)
  then show "cid \<noteq> []" "uri \<noteq> []" by simp_all
  show "string_field R j ''contextId'' = None"
    using ty by (auto simp: AppContext_type_def res_bind_eq_Ret has_string_field_iff [OF R]
        split: if_splits)
  have "app_acceptable R info"
    using ok AppInfo_of_json_sound [OF R] by (auto simp: context_ok_def)
  then have "string_field R info ''referenceURI'' = None \<or> object_field R info ''appCharcs'' = None"
    by (simp add: app_acceptable_def app_fields_of_def)
  then show "request_info R info"
    using i makeAppContextResponse_refuses [OF R, of info uri nd]
    by (cases "object_field R info ''appCharcs''"; cases "string_field R info ''referenceURI''")
      (auto simp: request_info_def)
qed

definition with_context :: "string \<Rightarrow> desc \<Rightarrow> 'j static_state \<Rightarrow> 'j static_state" where
  "with_context c d s =
     s\<lparr>theApplicationsByContextId := (c, d) # theApplicationsByContextId s,
       theApplicationsByUeAppId := (theAssociateUeAppId d, c) # theApplicationsByUeAppId s\<rparr>"

lemma with_context_sel [simp]:
  "theTable (with_context c d s) = theTable s"
  "theApplications (with_context c d s) = theApplications s"
  "theApplicationsByContextId (with_context c d s) = (c, d) # theApplicationsByContextId s"
  "theApplicationsByUeAppId (with_context c d s) =
     (theAssociateUeAppId d, c) # theApplicationsByUeAppId s"
  by (simp_all add: with_context_def)

text \<open>The context is stored, the index keeps the context that it has for this UE application ID, if any.\<close>

definition entered :: "string \<Rightarrow> desc \<Rightarrow> 'j static_state \<Rightarrow> 'j static_state" where
  "entered c d s =
     s\<lparr>theApplicationsByContextId := (c, d) # theApplicationsByContextId s,
       theApplicationsByUeAppId := fst (umap_emplace (theAssociateUeAppId d) c (theApplicationsByUeAppId s))\<rparr>"

lemma entered_sel [simp]:
  "theTable (entered c d s) = theTable s"
  "theApplications (entered c d s) = theApplications s"
  "theApplicationsByContextId (entered c d s) = (c, d) # theApplicationsByContextId s"
  by (simp_all add: entered_def)

lemma entered_neq: "entered c d s \<noteq> s"
proof
  assume "entered c d s = s"
  from arg_cong [OF this, of theApplicationsByContextId] show False by simp
qed

lemma entered_index:
  "map_of (theApplicationsByUeAppId (entered c d s)) = (map_of (theApplicationsByUeAppId s))
     (theAssociateUeAppId d \<mapsto> (case map_of (theApplicationsByUeAppId s) (theAssociateUeAppId d) of
        None \<Rightarrow> c | Some c' \<Rightarrow> c'))"
  by (auto simp: entered_def umap_emplace_def fun_eq_iff)

lemma entered_fresh:
  "map_of (theApplicationsByUeAppId s) (theAssociateUeAppId d) = None \<Longrightarrow> entered c d s = with_context c d s"
  by (simp add: entered_def with_context_def umap_emplace_def)

lemma entered_used:
  "map_of (theApplicationsByUeAppId s) (theAssociateUeAppId d) \<noteq> None \<Longrightarrow>
   entered c d s = s\<lparr>theApplicationsByContextId := (c, d) # theApplicationsByContextId s\<rparr>"
  by (simp add: entered_def umap_emplace_def)

lemma static_sound_entered:
  assumes inv: "static_sound s"
    and new: "map_of (theApplicationsByContextId s) c = None"
    and "c \<noteq> []" "theAppName d \<noteq> []"
    and ep: "theEdgeRouterEndpoint d = or_empty (desc_route (map_of (theTable s)) d)"
  shows "static_sound (entered c d s)"
proof -
  note D = static_soundD [OF inv]
  have "umap_ok (theApplicationsByUeAppId (entered c d s))"
    using umap.ok_insert [OF D(3)] by (simp add: entered_def)
  then have "static_wf (entered c d s)"
    using inv assms(2-4) by (auto simp: static_sound_def static_wf_def umap_ok_def map_of_eq_None_iff)
  moreover have "coherent (entered c d s)"
    using D(7) ep by (auto simp: coherent_def)
  moreover have "index_sound (entered c d s)"
    using D(6) new by (fastforce simp: index_sound_def entered_index split: option.split)
  ultimately show ?thesis by (simp add: static_sound_def)
qed

lemma linked_entered:
  assumes "linked s" and new: "map_of (theApplicationsByContextId s) c = None"
    "map_of (theApplicationsByUeAppId s) (theAssociateUeAppId d) = None"
  shows "linked (entered c d s)"
  unfolding linked_def entered_fresh [OF new(2)] with_context_sel
proof (intro allI)
  fix u c'
  have "map_of (theApplicationsByUeAppId s) u = Some c' \<longleftrightarrow>
      (\<exists>d. map_of (theApplicationsByContextId s) c' = Some d \<and> theAssociateUeAppId d = u)"
    using assms(1) by (simp add: linked_def)
  with new show "map_of ((theAssociateUeAppId d, c) # theApplicationsByUeAppId s) u = Some c' \<longleftrightarrow>
      (\<exists>d'. map_of ((c, d) # theApplicationsByContextId s) c' = Some d' \<and>
        theAssociateUeAppId d' = u)"
    by (cases "c' = c"; cases "u = theAssociateUeAppId d") auto
qed

lemma proxy_inv_with_context:
  assumes "proxy_inv nd s"
    and "map_of (theApplicationsByContextId s) c = None"
    and "map_of (theApplicationsByUeAppId s) (theAssociateUeAppId d) = None"
    and "c \<noteq> []" "theAppName d \<noteq> []"
    and "theEdgeRouterEndpoint d = or_empty (desc_route (map_of (theTable s)) d)"
  shows "proxy_inv nd (with_context c d s)"
  using assms static_sound_entered [of s c d] linked_entered [of s c d]
  by (simp add: proxy_inv_def entered_fresh [symmetric])

lemma static_inv_with_context:
  assumes "static_inv s"
    and "map_of (theApplicationsByContextId s) c = None"
    and "map_of (theApplicationsByUeAppId s) (theAssociateUeAppId d) = None"
    and "c \<noteq> []" "theAppName d \<noteq> []"
    and "theEdgeRouterEndpoint d = or_empty (desc_route (map_of (theTable s)) d)"
  shows "static_inv (with_context c d s)"
  using proxy_inv_with_context [of False] assms by simp

lemma drop_with_context:
  assumes "static_wf s" and "map_of (theApplicationsByContextId s) c = None"
    and "map_of (theApplicationsByUeAppId s) (theAssociateUeAppId d) = None"
  shows "drop_context c (with_context c d s) = s"
  using assms by (simp add: drop_context_def with_context_def delete_absent)

text \<open>What \<open>createContext\<close> does with a parsed request, whatever its kind.\<close>

definition new_desc ::
  "('j, 't, 'z) rest_api_scheme \<Rightarrow> 'j \<Rightarrow> string \<Rightarrow> string \<Rightarrow> string \<Rightarrow> string \<Rightarrow> desc" where
  "new_desc R j ue addr n r =
     \<lparr>theAssociateUeAppId = ue, theCallbackReference = callbackReference R j,
      theClientAddress = addr, theAppName = n, theEdgeRouterEndpoint = r\<rparr>"

definition app_key :: "('j, 't, 'z) rest_api_scheme \<Rightarrow> 'j \<Rightarrow> string" where
  "app_key R info = or_empty (fName (app_fields_of R info)) @ ''+'' @
     or_empty (fProvider (app_fields_of R info)) @ ''+'' @ appSoftVersion R info"

lemma mangle_app_key: "rest_laws R \<Longrightarrow> app_acceptable R info \<Longrightarrow> mangle R nd info = Ret (app_key R info)"
  using mangle_acceptable [of R info nd] by (metis app_key_def or_empty_simps(2))

lemma createContext_parsed:
  assumes R: "rest_laws R" and ok: "context_ok R j ue info"
    and n: "fName (app_fields_of R info) = Some n"
  shows "createContext R nd uuid addr j s =
    (if map_of (theApplications s) (app_key R info) = None then (Ret j, s)
     else case route (map_of (theTable s)) addr n of
       None \<Rightarrow> (Ret j, s)
     | Some r \<Rightarrow> and_then (makeResponse R nd j uuid r, s) (\<lambda>resp s.
         let (ctxs, new) = umap_emplace (contextId R resp) (new_desc R j ue addr n r)
                             (theApplicationsByContextId s)
         in and_then (cassert nd new, s\<lparr>theApplicationsByContextId := ctxs\<rparr>) (\<lambda>_ s.
         let (ues, new) = umap_emplace ue (contextId R resp) (theApplicationsByUeAppId s)
         in and_then (cassert nd new, s\<lparr>theApplicationsByUeAppId := ues\<rparr>) (\<lambda>_ s.
         (Ret resp, s)))))"
proof -
  have acc: "app_acceptable R info"
    using ok AppInfo_of_json_sound [OF R] by (auto simp: context_ok_def)
  then have "n \<noteq> []" using n by (auto simp: app_acceptable_def)
  then show ?thesis
    by (simp add: createContext_def context_ok_getters [OF R ok] exists_app_def
        mangle_app_key [OF R acc] fields_appName(1) [OF R n] find_route_eq new_desc_def Let_def
        split: option.split)
qed

text \<open>A plain request for a known application: the assertion on the index is left in a debug build.\<close>

lemma createContext_stores:
  assumes R: "rest_laws R" and ok: "context_ok R j ue info"
    and req: "string_field R j ''contextId'' = None" "request_info R info"
    and n: "fName (app_fields_of R info) = Some n"
    and known: "map_of (theApplications s) (app_key R info) \<noteq> None"
    and r: "route (map_of (theTable s)) addr n = Some r" "r \<noteq> []" and uuid: "uuid \<noteq> []"
    and fresh: "map_of (theApplicationsByContextId s) uuid = None"
  obtains resp info' where "makeResponse R nd j uuid r = Ret resp"
    "context_ok R resp ue info'" "contextId R resp = uuid" "response_info R info'"
    "referenceUri R nd info' = Ret r" "AppContext_type R nd resp = Ret Response"
    "createContext R nd uuid addr j s =
       (if nd \<or> map_of (theApplicationsByUeAppId s) ue = None then Ret resp else Abort,
        entered uuid (new_desc R j ue addr n r) s)"
proof -
  obtain resp info' where resp: "makeResponse R nd j uuid r = Ret resp"
    "context_ok R resp ue info'" "contextId R resp = uuid" "response_info R info'"
    "referenceUri R nd info' = Ret r" "AppContext_type R nd resp = Ret Response"
    using makeResponse_request [OF R ok req uuid r(2)] by metis
  have "createContext R nd uuid addr j s =
       (if nd \<or> map_of (theApplicationsByUeAppId s) ue = None then Ret resp else Abort,
        entered uuid (new_desc R j ue addr n r) s)"
    using known r fresh resp(1,3)
    by (auto simp: createContext_parsed [OF R ok n] umap_emplace_def entered_def Let_def
        new_desc_def cassert_def)
  with that resp show thesis by blast
qed

lemma createContext_fresh:
  assumes R: "rest_laws R" and ok: "context_ok R j ue info"
    and req: "string_field R j ''contextId'' = None" "request_info R info"
    and n: "fName (app_fields_of R info) = Some n"
    and known: "map_of (theApplications s) (app_key R info) \<noteq> None"
    and r: "route (map_of (theTable s)) addr n = Some r" "r \<noteq> []" and uuid: "uuid \<noteq> []"
    and fresh: "map_of (theApplicationsByContextId s) uuid = None"
      "map_of (theApplicationsByUeAppId s) ue = None"
  obtains (result) resp info' where "makeResponse R nd j uuid r = Ret resp"
    "context_ok R resp ue info'" "contextId R resp = uuid" "response_info R info'"
    "referenceUri R nd info' = Ret r" "AppContext_type R nd resp = Ret Response"
    "createContext R nd uuid addr j s =
       (Ret resp, with_context uuid (new_desc R j ue addr n r) s)"
proof -
  obtain resp info' where resp: "makeResponse R nd j uuid r = Ret resp" "context_ok R resp ue info'"
    "contextId R resp = uuid" "response_info R info'" "referenceUri R nd info' = Ret r" "AppContext_type R nd resp = Ret Response"
    "createContext R nd uuid addr j s =
      (if nd \<or> map_of (theApplicationsByUeAppId s) ue = None then Ret resp else Abort,
        entered uuid (new_desc R j ue addr n r) s)"
    by (rule createContext_stores [OF R ok req n known r uuid fresh(1), where nd = nd])
  have "entered uuid (new_desc R j ue addr n r) s = with_context uuid (new_desc R j ue addr n r) s"
    using fresh(2) by (intro entered_fresh) (simp add: new_desc_def)
  with resp(7) have "createContext R nd uuid addr j s = (Ret resp, with_context uuid (new_desc R j ue addr n r) s)"
    using fresh(2) by simp
  from result [OF resp(1-6) this] show thesis .
qed

text \<open>What an answer of \<open>createContext\<close> means in general, duplicates in a release build included.\<close>

lemma createContext_Ret:
  assumes R: "rest_laws R" and wf: "static_wf s" and ok: "context_ok R j ue info"
    and ret: "createContext R nd uuid addr j s = (Ret resp, s')"
  shows "resp = j \<and> s' = s \<or>
    plain_request R j \<and> accepted_response R resp \<and> contextId R resp = uuid \<and>
    (\<exists>n r. n \<noteq> [] \<and> r \<noteq> [] \<and> uuid \<noteq> [] \<and>
       route (map_of (theTable s)) addr n = Some r \<and>
       s' = s\<lparr>theApplicationsByContextId :=
                fst (umap_emplace uuid (new_desc R j ue addr n r) (theApplicationsByContextId s)),
              theApplicationsByUeAppId := fst (umap_emplace ue uuid (theApplicationsByUeAppId s))\<rparr>)"
proof -
  have "app_acceptable R info" using ok AppInfo_of_json_sound [OF R] by (auto simp: context_ok_def)
  then obtain n where n: "fName (app_fields_of R info) = Some n" "n \<noteq> []"
    by (auto simp: app_acceptable_def)
  show ?thesis
  proof (cases "map_of (theApplications s) (app_key R info) = None \<or>
      route (map_of (theTable s)) addr n = None")
    case True
    then show ?thesis using ret by (auto simp: createContext_parsed [OF R ok n(1)] split: if_splits)
  next
    case False
    then obtain r where r: "route (map_of (theTable s)) addr n = Some r" by auto
    let ?ctxs = "\<lambda>resp s. umap_emplace (contextId R resp) (new_desc R j ue addr n r)
      (theApplicationsByContextId s)"
    let ?ues = "\<lambda>resp s. umap_emplace ue (contextId R resp) (theApplicationsByUeAppId s)"
    have "and_then (makeResponse R nd j uuid r, s) (\<lambda>resp s.
        and_then (cassert nd (snd (?ctxs resp s)), s\<lparr>theApplicationsByContextId := fst (?ctxs resp s)\<rparr>)
          (\<lambda>_ s. and_then (cassert nd (snd (?ues resp s)), s\<lparr>theApplicationsByUeAppId := fst (?ues resp s)\<rparr>)
            (\<lambda>_ s. (Ret resp, s)))) = (Ret resp, s')"
      using ret False r
      by (simp add: createContext_parsed [OF R ok n(1)] case_prod_beta Let_def
          del: not_None_eq cong: if_cong)
    then have m: "makeResponse R nd j uuid r = Ret resp"
      and s': "s' = s\<lparr>theApplicationsByContextId := fst (?ctxs resp s),
        theApplicationsByUeAppId := fst (?ues resp s)\<rparr>"
      by (auto simp: and_then_eq_Ret)
    note req = makeResponse_Ret [OF R ok m]
    moreover have "plain_request R j"
      using ok req(1,2) unfolding plain_request_def by blast
    ultimately show ?thesis
      using n(2) r s' makeResponse_accepted [OF R ok req m] by blast
  qed
qed

lemma static_wf_emplace:
  assumes "static_wf s" "c \<noteq> []" "theAppName d \<noteq> []"
  shows "static_wf (s\<lparr>theApplicationsByContextId := fst (umap_emplace c d (theApplicationsByContextId s)),
    theApplicationsByUeAppId := fst (umap_emplace u c' (theApplicationsByUeAppId s))\<rparr>)"
  using assms umap.ok_insert [of "theApplicationsByContextId s" c d]
    umap.ok_insert [of "theApplicationsByUeAppId s" u c']
  by (auto simp: static_wf_def umap_emplace_def)

lemma updateContext_Ret:
  assumes "updateContext R nd j s = (Ret b, s')"
  shows "if b then \<exists>ue c d. associateUeAppId R nd j = Ret ue \<and>
      map_of (theApplicationsByUeAppId s) ue = Some c \<and>
      map_of (theApplicationsByContextId s) c = Some d \<and>
      s' = s\<lparr>theApplicationsByContextId := umap_assign c
        (d\<lparr>theCallbackReference := callbackReference R j\<rparr>) (theApplicationsByContextId s)\<rparr>
    else s' = s \<and> (\<exists>ue. associateUeAppId R nd j = Ret ue \<and>
      map_of (theApplicationsByUeAppId s) ue = None)"
proof -
  obtain ue where ue: "associateUeAppId R nd j = Ret ue"
    using assms by (auto simp: updateContext_def and_then_eq_Ret)
  show ?thesis
  proof (cases "map_of (theApplicationsByUeAppId s) ue")
    case (Some c)
    then show ?thesis
      using assms ue by (cases "map_of (theApplicationsByContextId s) c")
        (auto simp: updateContext_def)
  qed (use assms ue in \<open>auto simp: updateContext_def\<close>)
qed

definition context_ids :: "'j static_state \<Rightarrow> string set" where
  "context_ids s = dom (map_of (theApplicationsByContextId s))"

lemma context_ids_emplace:
  "context_ids (s\<lparr>theApplicationsByContextId := fst (umap_emplace c d (theApplicationsByContextId s)),
     theApplicationsByUeAppId := ues\<rparr>) = insert c (context_ids s)"
  by (auto simp: umap_emplace_def context_ids_def)

interpretation static_store: lcm_store R nd "createContext R nd uuid"
  "\<lambda>s. static_wf s \<and> uuid \<noteq> []" "updateContext R nd" "deleteContext nd" context_ids
  for R :: "('j, 't) rest_api" and nd uuid
proof (unfold_locales, goal_cases)
  case (1 s req addr resp s')
  then obtain ue info where "context_ok R req ue info" by (auto simp: plain_request_def)
  from createContext_Ret [OF 1(1) _ this 1(4)] 1(2) show ?case by blast
next
  case (2 s req addr resp s')
  then obtain ue info where "context_ok R req ue info"
    using AppContext_of_json_sound [OF 2(1,3)] by blast
  from createContext_Ret [OF 2(1) _ this 2(4)] 2(2) show ?case
    by (auto intro: static_wf_emplace simp: new_desc_def)
next
  case (3 s req addr resp s')
  then obtain ue info where ok: "context_ok R req ue info" "string_field R req ''contextId'' = None"
    by (auto simp: plain_request_def)
  show ?case
  proof (cases "resp = req")
    case True
    have "\<not> accepted_response R req"
      using plain_request_type [OF 3(1,3), of True] accepted_response_replies(1) [OF 3(1), of req True]
      by auto
    then show ?thesis using True createContext_Ret [OF 3(1) _ ok(1) 3(4)] 3(2) by auto
  next
    case False
    then show ?thesis using createContext_Ret [OF 3(1) _ ok(1) 3(4)] 3(2)
      by (auto simp: context_ids_emplace)
  qed
next
  case (4 s req b s')
  from updateContext_Ret [OF 4(2)] show ?case
    by (auto simp: context_ids_def umap_assign_def map_of_map_entry split: if_splits)
next
  case (5 s req s')
  from updateContext_Ret [OF 5(2)] show ?case by simp
next
  case (6 s c b s')
  then show ?case
    by (auto simp: deleteContext_def and_then_eq_Ret context_ids_def umap_erase_def Let_def
        AList.delete_conv' split: option.splits if_splits)
qed

section \<open>The invariant through the other operations\<close>

lemma createContext_inv:
  assumes R: "rest_laws R" and inv: "static_sound s" and ok: "context_ok R j ue info"
    and ret: "createContext R nd uuid addr j s = (Ret resp, s')"
    and fresh: "nd \<Longrightarrow> map_of (theApplicationsByContextId s) uuid = None"
    and n1: "fName (app_fields_of R info) = Some n"
  shows "if map_of (theApplications s) (app_key R info) = None \<or>
        route (map_of (theTable s)) addr n = None
    then resp = j \<and> s' = s
    else plain_request R j \<and> accepted_response R resp \<and> contextId R resp = uuid \<and>
      map_of (theApplicationsByContextId s) uuid = None \<and>
      (nd \<or> map_of (theApplicationsByUeAppId s) ue = None) \<and>
      (\<exists>r. route (map_of (theTable s)) addr n = Some r \<and>
        s' = entered uuid (new_desc R j ue addr n r) s) \<and> static_sound s' \<and>
      (linked s \<longrightarrow> map_of (theApplicationsByUeAppId s) ue = None \<longrightarrow> linked s')"
proof (cases "map_of (theApplications s) (app_key R info) = None \<or>
    route (map_of (theTable s)) addr n = None")
  case True
  then show ?thesis using ret by (auto simp: createContext_parsed [OF R ok n1] split: if_splits)
next
  case False
  have "app_acceptable R info" using ok AppInfo_of_json_sound [OF R] by (auto simp: context_ok_def)
  then have n: "n \<noteq> []" using n1 by (auto simp: app_acceptable_def)
  obtain r where r: "route (map_of (theTable s)) addr n = Some r"
    and key: "map_of (theApplications s) (app_key R info) \<noteq> None" using False by auto
  obtain m where m: "makeResponse R nd j uuid r = Ret m"
    using ret key r by (auto simp: createContext_parsed [OF R ok n1] and_then_eq_Ret)
  note req = makeResponse_Ret [OF R ok m]
  have "contextId R m = uuid" using makeResponse_request [OF R ok req] m by (metis res.inject(1))
  then have new: "map_of (theApplicationsByContextId s) uuid = None"
    using ret key r m fresh
    by (cases nd) (auto simp: createContext_parsed [OF R ok n1] umap_emplace_def and_then_eq_Ret
        cassert_eq_Ret split: if_splits)
  let ?d = "new_desc R j ue addr n r"
  obtain resp' where c: "createContext R nd uuid addr j s =
      (if nd \<or> map_of (theApplicationsByUeAppId s) ue = None then Ret resp' else Abort, entered uuid ?d s)"
    by (rule createContext_stores [OF R ok req(1,2) n1 key r req(4,3) new, where nd = nd])
  then have s': "s' = entered uuid ?d s" and "nd \<or> map_of (theApplicationsByUeAppId s) ue = None"
    using ret by (auto split: if_splits)
  moreover have "static_sound (entered uuid ?d s)"
    using n req(3) r by (intro static_sound_entered [OF inv new]) (simp_all add: new_desc_def desc_route_def)
  moreover have "linked s \<Longrightarrow> map_of (theApplicationsByUeAppId s) ue = None \<Longrightarrow> linked (entered uuid ?d s)"
    using linked_entered [OF _ new, of ?d] by (simp add: new_desc_def)
  moreover have "s' \<noteq> s" unfolding s' by (rule entered_neq)
  moreover have "static_wf s" using inv by (simp add: static_sound_def)
  ultimately show ?thesis
    using createContext_Ret [OF R _ ok ret] new False r by auto
qed

lemma updateContext_inv:
  assumes inv: "static_sound s" and ret: "updateContext R nd j s = (Ret b, s')"
  shows "static_sound s'" "linked s' \<longleftrightarrow> linked s"
proof -
  have "static_sound s' \<and> (linked s' \<longleftrightarrow> linked s)"
  proof (cases b)
    case True
    with updateContext_Ret [OF ret] obtain c d where
      d: "map_of (theApplicationsByContextId s) c = Some d" and
      s': "s' = s\<lparr>theApplicationsByContextId := umap_assign c
        (d\<lparr>theCallbackReference := callbackReference R j\<rparr>) (theApplicationsByContextId s)\<rparr>"
      by auto
    note D = static_soundD [OF inv]
    have m: "map_of (theApplicationsByContextId s') =
        (map_of (theApplicationsByContextId s))(c \<mapsto> d\<lparr>theCallbackReference := callbackReference R j\<rparr>)"
      using umap.lookup_assign [OF D(2) d] by (simp add: s')
    have ues: "(\<exists>d'. map_of (theApplicationsByContextId s') c' = Some d' \<and> theAssociateUeAppId d' = u) \<longleftrightarrow>
        (\<exists>d'. map_of (theApplicationsByContextId s) c' = Some d' \<and> theAssociateUeAppId d' = u)" for c' u
      using d unfolding m by auto
    have "static_wf s'"
      using inv d m umap.ok_assign [OF D(2)] by (auto simp: static_sound_def static_wf_def s')
    moreover have "index_sound s'" "linked s' \<longleftrightarrow> linked s"
      using D(6) unfolding index_sound_def linked_def ues by (simp_all add: s')
    moreover have "coherent s'"
      using D(7) d unfolding coherent_def m by (auto simp: s' desc_route_def)
    ultimately show ?thesis by (simp add: static_sound_def)
  next
    case False
    then show ?thesis using updateContext_Ret [OF ret] inv by simp
  qed
  then show "static_sound s'" "linked s' \<longleftrightarrow> linked s" by blast+
qed

lemma sound_apps:
  fixes s s' :: "'j static_state"
  assumes "lcm_state.more s' = lcm_state.more s" and "omap_ok (theApplications s')"
  shows "static_sound s \<Longrightarrow> static_sound s'" "linked s' \<longleftrightarrow> linked s"
proof -
  obtain apps where s': "s' = s\<lparr>theApplications := apps\<rparr>"
    using assms(1) by (cases s; cases s') auto
  then show "static_sound s \<Longrightarrow> static_sound s'" "linked s' \<longleftrightarrow> linked s"
    using assms(2) by (simp_all add: static_sound_def static_wf_def index_sound_def linked_def coherent_def)
qed

lemma addApp_inv:
  assumes R: "rest_laws R" and inv: "static_sound s" and acc: "app_acceptable R i"
  shows "static_sound (snd (addApp R nd i s)) \<and> (linked (snd (addApp R nd i s)) \<longleftrightarrow> linked s)"
    "static_sound (snd (delApp R nd i s)) \<and> (linked (snd (delApp R nd i s)) \<longleftrightarrow> linked s)"
proof -
  note k = mangle_app_key [OF R acc]
  note ok = static_soundD(4) [OF inv]
  obtain s1 where "addApp R nd i s = (Ret (map_of (theApplications s) (app_key R i) = None), s1)"
    "omap_ok (theApplications s1)" "lcm_state.more s1 = lcm_state.more s"
    by (rule addApp_Ret [OF ok k])
  then show "static_sound (snd (addApp R nd i s)) \<and> (linked (snd (addApp R nd i s)) \<longleftrightarrow> linked s)"
    using sound_apps [of s1 s] inv by simp
  obtain s2 where "delApp R nd i s = (Ret (map_of (theApplications s) (app_key R i) \<noteq> None), s2)"
    "omap_ok (theApplications s2)" "lcm_state.more s2 = lcm_state.more s"
    by (rule delApp_Ret [OF ok k])
  then show "static_sound (snd (delApp R nd i s)) \<and> (linked (snd (delApp R nd i s)) \<longleftrightarrow> linked s)"
    using sound_apps [of s2 s] inv by simp
qed

section \<open>Exceptions\<close>

text \<open>An operation that throws has changed nothing, and a round of notifications does not throw.\<close>

lemma catch_all_no_throw: "catch_all m \<noteq> (Raise e, s)"
  by (cases m rule: catch_all.cases) auto

lemma notify_loop_no_throw: "notify_loop R E nd ns i s \<noteq> (Raise e, s')"
  by (induction ns arbitrary: i s) (auto simp: and_then_eq_Raise catch_all_no_throw split: if_splits)

lemma createContext_throws: "createContext R nd uuid addr j s = (Raise e, s') \<Longrightarrow> s' = s"
  by (auto simp: createContext_def and_then_eq_Raise Let_def case_prod_beta option.case_eq_if split: if_split_asm)

lemma updateContext_throws: "updateContext R nd j s = (Raise e, s') \<Longrightarrow> s' = s"
  by (auto simp: updateContext_def and_then_eq_Raise option.case_eq_if split: if_split_asm)

lemma addApp_throws: "addApp R nd i s = (Raise e, t) \<Longrightarrow> t = s"
  by (auto simp: addApp_def and_then_eq_Raise case_prod_beta Let_def split: if_split_asm)

lemma delApp_throws: "delApp R nd i s = (Raise e, t) \<Longrightarrow> t = s"
  by (auto simp: delApp_def and_then_eq_Raise case_prod_beta)

end
