(* ===== verification/Static_System.thy ===== *)
theory Static_System
  imports Static_Contexts
begin

text \<open>
  \<open>StaticUeAppLcmProxy\<close> under concurrent requests. Every member function holds the mutex while it
  reads and writes the maps, but \<open>associateAddress\<close> and \<open>removeAddress\<close> release it before they
  notify the clients, so any number of rounds of notifications can be under way while other
  requests are served. The state of the system is that of the proxy with the rounds under way; a
  step is the locked part of an operation, or one notification of one round. A step whose
  operation crashes the process is no step.

  Nothing is assumed of the clients: in a release build, where no assertion stops it, a creation may
  use a UE application ID that has a context already, and the index then keeps leading to the older one.

  The specification \<open>spec_step\<close> knows no routers in contexts: a context is served by whatever
  its address and application resolve to. The system refines it.
\<close>

section \<open>The system\<close>

record 'j net =
  proxy :: "'j static_state"
  rounds :: "notification list list"

text \<open>\<open>Notify k v p\<close>: thread \<open>k\<close> handles its next notification; \<open>v\<close>: the URI is valid, \<open>p\<close>: the answer.\<close>

datatype 'j event =
    Associate string string string
  | Remove string string
  | Create string string 'j
  | Update 'j
  | Delete string
  | AddApp 'j
  | DelApp 'j
  | Notify nat bool "nat res"

definition net_init :: "'j net \<Rightarrow> bool" where
  "net_init w \<longleftrightarrow> w = \<lparr>proxy = static_init, rounds = []\<rparr>"

text \<open>The context ID of a creation is unused (\<open>support::Uuid\<close>). Requests were parsed by the handler.\<close>

inductive static_step ::
  "('j, 't) rest_api \<Rightarrow> 'j static_env \<Rightarrow> bool \<Rightarrow> 'j net \<Rightarrow> 'j event \<Rightarrow> 'j net \<Rightarrow> bool"
  for R E nd where
  step_associate: "associateAddress_locked E nd a n r (proxy w) = (Ret ns, s) \<Longrightarrow>
    static_step R E nd w (Associate a n r) \<lparr>proxy = s, rounds = rounds w @ [ns]\<rparr>"
| step_associate_throws: "associateAddress_locked E nd a n r (proxy w) = (Raise e, s) \<Longrightarrow>
    static_step R E nd w (Associate a n r) \<lparr>proxy = s, rounds = rounds w\<rparr>"
| step_remove: "removeAddress_locked E nd a n (proxy w) = (Ret ns, s) \<Longrightarrow>
    static_step R E nd w (Remove a n) \<lparr>proxy = s, rounds = rounds w @ [ns]\<rparr>"
| step_remove_throws: "removeAddress_locked E nd a n (proxy w) = (Raise e, s) \<Longrightarrow>
    static_step R E nd w (Remove a n) \<lparr>proxy = s, rounds = rounds w\<rparr>"
| step_create: "AppContext_of_json R j = Ret j \<Longrightarrow>
    map_of (theApplicationsByContextId (proxy w)) uuid = None \<Longrightarrow>
    createContext R nd uuid addr j (proxy w) = (Ret resp, s) \<Longrightarrow>
    static_step R E nd w (Create uuid addr j) (w\<lparr>proxy := s\<rparr>)"
| step_update: "AppContext_of_json R j = Ret j \<Longrightarrow> updateContext R nd j (proxy w) = (Ret b, s) \<Longrightarrow>
    static_step R E nd w (Update j) (w\<lparr>proxy := s\<rparr>)"
| step_delete: "deleteContext nd c (proxy w) = (Ret b, s) \<Longrightarrow>
    static_step R E nd w (Delete c) (w\<lparr>proxy := s\<rparr>)"
| step_add: "AppInfo_of_json R i = Ret i \<Longrightarrow> addApp R nd i (proxy w) = (Ret b, s) \<Longrightarrow>
    static_step R E nd w (AddApp i) (w\<lparr>proxy := s\<rparr>)"
| step_del: "AppInfo_of_json R i = Ret i \<Longrightarrow> delApp R nd i (proxy w) = (Ret b, s) \<Longrightarrow>
    static_step R E nd w (DelApp i) (w\<lparr>proxy := s\<rparr>)"
| step_notify: "k < length (rounds w) \<Longrightarrow> rounds w ! k = n # ns \<Longrightarrow>
    notify_loop R (E\<lparr>uri_validate := \<lambda>_. v, client_post := \<lambda>_ _ _. p\<rparr>) nd [n] 0 (proxy w) = (Ret (), s) \<Longrightarrow>
    static_step R E nd w (Notify k v p) \<lparr>proxy = s, rounds = (rounds w)[k := ns]\<rparr>"

definition net_inv :: "bool \<Rightarrow> 'j net \<Rightarrow> bool" where
  "net_inv nd w \<longleftrightarrow> proxy_inv nd (proxy w) \<and> (\<forall>ns \<in> set (rounds w). addressed ns)"

lemma net_invD:
  assumes "net_inv nd w"
  shows "proxy_inv nd (proxy w)" "static_sound (proxy w)"
    and "ns \<in> set (rounds w) \<Longrightarrow> addressed ns"
  using assms by (auto simp: net_inv_def proxy_inv_def)

lemma net_inv_put: "net_inv nd w \<Longrightarrow> proxy_inv nd s \<Longrightarrow> net_inv nd (w\<lparr>proxy := s\<rparr>)"
  by (simp add: net_inv_def)

lemma net_inv_served:
  assumes "net_inv nd w" "proxy_inv nd s" and k: "k < length (rounds w)" "rounds w ! k = n # ns"
  shows "net_inv nd \<lparr>proxy = s, rounds = (rounds w)[k := ns]\<rparr>"
proof -
  have "addressed (n # ns)" using net_invD(3) [OF assms(1)] k nth_mem by metis
  then have "addressed ns" by (simp add: addressed_def)
  then show ?thesis
    using assms(1,2) set_update_subset_insert [of "rounds w" k ns] by (fastforce simp: net_inv_def)
qed

section \<open>The specification\<close>

text \<open>UE application ID, callback reference, address and application name of a context; the index gives
  the context that an update of a UE application ID is for.\<close>

type_synonym ue_client = "string \<times> string \<times> string \<times> string"

record 'j spec =
  s_table :: "address_app_key \<rightharpoonup> string"
  s_clients :: "string \<rightharpoonup> ue_client"
  s_index :: "string \<rightharpoonup> string"
  s_apps :: "string \<rightharpoonup> 'j"
  s_rounds :: "notification list list"

definition client_of :: "desc \<Rightarrow> ue_client" where
  "client_of d = (theAssociateUeAppId d, theCallbackReference d, theClientAddress d, theAppName d)"

definition abs_static :: "'j net \<Rightarrow> 'j spec" where
  "abs_static w =
     \<lparr>s_table = map_of (theTable (proxy w)),
      s_clients = map_option client_of \<circ> map_of (theApplicationsByContextId (proxy w)),
      s_index = map_of (theApplicationsByUeAppId (proxy w)),
      s_apps = map_of (theApplications (proxy w)), s_rounds = rounds w\<rparr>"

text \<open>Who must be told when the table changes: the clients that are served by another router now.\<close>

definition told :: "(address_app_key \<rightharpoonup> string) \<Rightarrow> 'j spec \<Rightarrow> notification set" where
  "told m a = {(cb, r, c) | ue cb addr n r c. s_clients a c = Some (ue, cb, addr, n) \<and>
     route m addr n = Some r \<and> route (s_table a) addr n \<noteq> Some r}"

definition retabled :: "(address_app_key \<rightharpoonup> string) \<Rightarrow> 'j spec \<Rightarrow> 'j spec \<Rightarrow> bool" where
  "retabled m a a' \<longleftrightarrow> (\<exists>ns. set ns = told m a \<and> distinct (map (\<lambda>n. snd (snd n)) ns) \<and>
     a' = a\<lparr>s_table := m, s_rounds := s_rounds a @ [ns]\<rparr>)"

text \<open>A context disappears, and with it what the index says of its UE application ID.\<close>

definition forget :: "string \<Rightarrow> 'j spec \<Rightarrow> 'j spec" where
  "forget c a = (case s_clients a c of
     None \<Rightarrow> a
   | Some (ue, _) \<Rightarrow> a\<lparr>s_clients := (s_clients a)(c := None), s_index := (s_index a)(ue := None)\<rparr>)"

fun spec_step :: "('j, 't) rest_api \<Rightarrow> bool \<Rightarrow> 'j spec \<Rightarrow> 'j event \<Rightarrow> 'j spec \<Rightarrow> bool" where
  "spec_step R nd a (Associate addr n r) a' \<longleftrightarrow>
     (if n = [] \<or> r = [] then a' = a
      else retabled ((s_table a)(AddressAppKey addr n \<mapsto> r)) a a')"
| "spec_step R nd a (Remove addr n) a' \<longleftrightarrow>
     (if n = [] then a' = a else retabled ((s_table a)(AddressAppKey addr n := None)) a a')"
| "spec_step R nd a (Create uuid addr j) a' \<longleftrightarrow>
     (\<exists>ue info n. context_ok R j ue info \<and> fName (app_fields_of R info) = Some n \<and>
        (if s_apps a (app_key R info) = None \<or> route (s_table a) addr n = None then a' = a
         else s_clients a uuid = None \<and> (nd \<or> s_index a ue = None) \<and>
           a' = a\<lparr>s_clients := (s_clients a)(uuid \<mapsto> (ue, callbackReference R j, addr, n)),
                  s_index := (s_index a)(ue \<mapsto> (case s_index a ue of None \<Rightarrow> uuid | Some c \<Rightarrow> c))\<rparr>))"
| "spec_step R nd a (Update j) a' \<longleftrightarrow>
     (\<exists>ue. string_field R j ''associateUeAppId'' = Some ue \<and>
        a' = (case s_index a ue of
          None \<Rightarrow> a
        | Some c \<Rightarrow> a\<lparr>s_clients := (s_clients a)(c := map_option
            (\<lambda>(u, cb, addr, n). (u, callbackReference R j, addr, n)) (s_clients a c))\<rparr>))"
| "spec_step R nd a (Delete c) a' \<longleftrightarrow> a' = forget c a \<and> (\<forall>x. s_clients a c = Some x \<longrightarrow> s_index a (fst x) \<noteq> None)"
| "spec_step R nd a (AddApp i) a' \<longleftrightarrow> a' = a\<lparr>s_apps := (s_apps a)(app_key R i \<mapsto> i)\<rparr>"
| "spec_step R nd a (DelApp i) a' \<longleftrightarrow> a' = a\<lparr>s_apps := (s_apps a)(app_key R i := None)\<rparr>"
| "spec_step R nd a (Notify k v p) a' \<longleftrightarrow>
     k < length (s_rounds a) \<and> (case s_rounds a ! k of [] \<Rightarrow> False
     | (cb, r, c) # ns \<Rightarrow>
         (nd \<or> cb \<noteq> []) \<and>
         a' = (if v \<and> (\<exists>st. p = Ret st \<and> st \<noteq> status_NoContent) then forget c a else a)
           \<lparr>s_rounds := (s_rounds a)[k := ns]\<rparr>)"

section \<open>Every interleaving keeps the invariant\<close>

lemma context_ok_ue: "rest_laws R \<Longrightarrow> context_ok R j ue info \<Longrightarrow> stringOrEmpty R j ''associateUeAppId'' = ue"
  by (simp add: context_ok_def stringOrEmpty_eq)

lemma parsed_context:
  assumes "rest_laws R" and "AppContext_of_json R j = Ret j"
  obtains ue info where "context_ok R j ue info" "stringOrEmpty R j ''associateUeAppId'' = ue"
proof -
  obtain ue info where "context_ok R j ue info"
    using AppContext_of_json_sound [OF assms] by auto
  with that context_ok_ue [OF assms(1) this] show thesis by auto
qed

lemma context_ok_name:
  assumes "rest_laws R" and "context_ok R j ue info"
  obtains n where "fName (app_fields_of R info) = Some n"
  using assms(2) AppInfo_of_json_sound [OF assms(1), of info info]
  by (auto simp: context_ok_def app_acceptable_def)

lemma parsed_info: "rest_laws R \<Longrightarrow> AppInfo_of_json R i = Ret i \<Longrightarrow> app_acceptable R i"
  using AppInfo_of_json_sound [of R i i] by simp

lemma notify_one:
  assumes R: "rest_laws R" and inv: "proxy_inv nd s" and n: "r \<noteq> []" "c \<noteq> []"
    and ret: "notify_loop R (E\<lparr>uri_validate := \<lambda>_. v, client_post := \<lambda>_ _ _. p\<rparr>) nd [(cb, r, c)] 0 s =
      (Ret (), s')"
  shows "s' = (if v \<and> (\<exists>st. p = Ret st \<and> st \<noteq> status_NoContent) then drop_context c s else s)" "nd \<or> cb \<noteq> []"
proof -
  let ?E = "E\<lparr>uri_validate := \<lambda>_. v, client_post := \<lambda>_ _ _. p\<rparr>"
  obtain ev where ev: "NotificationEvent R r = Ret ev"
    using NotificationEvent_fields [OF R n(1)] by blast
  show cb: "nd \<or> cb \<noteq> []" using ret by (auto simp: and_then_eq_Ret cassert_eq_Ret)
  show "s' = (if v \<and> (\<exists>st. p = Ret st \<and> st \<noteq> status_NoContent) then drop_context c s else s)"
  proof (cases "v \<and> \<not> survives p")
    case True
    then have "p = Abort \<or> p = Undef" by (simp add: survives_iff)
    then show ?thesis using ret True cb by (auto simp: ev n cassert_def split: if_splits)
  next
    case False
    then show ?thesis
    proof (cases v)
      case True
      then have "posts_survive ?E" using False by (simp add: posts_survive_def)
      from notify_loop_eq [OF R this inv, of "[(cb, r, c)]" 0] cb n
      show ?thesis using ret ev True by (auto simp: addressed_def split: if_splits)
    next
      case F: False
      then show ?thesis using ret cb n by (auto simp: cassert_def)
    qed
  qed
qed

lemma rerouting_inv:
  assumes op: "rerouting E op upd" and E: "order_ok E" and w: "net_inv nd w" and ret: "op (proxy w) = (Ret ns, s)"
  shows "net_inv nd \<lparr>proxy = s, rounds = rounds w @ [ns]\<rparr>"
proof -
  have "addressed ns"
    using rerouting.op_notifications [OF op E net_invD(2) [OF w] ret] by (fastforce simp: addressed_def)
  then show ?thesis using w rerouting.op_proxy [OF op E _ ret, of nd] by (auto simp: net_inv_def)
qed

text \<open>What serving one notification of a round does.\<close>

lemma notify_served:
  assumes R: "rest_laws R" and w: "net_inv nd w" and k: "k < length (rounds w)" "rounds w ! k = (cb, r, c) # ns"
    and ret: "notify_loop R (E\<lparr>uri_validate := \<lambda>_. v, client_post := \<lambda>_ _ _. p\<rparr>) nd [(cb, r, c)] 0 (proxy w) =
      (Ret (), s)"
  shows "s = (if v \<and> (\<exists>st. p = Ret st \<and> st \<noteq> status_NoContent) then drop_context c (proxy w) else proxy w)"
    and "net_inv nd \<lparr>proxy = s, rounds = (rounds w)[k := ns]\<rparr>" and "nd \<or> cb \<noteq> []"
proof -
  note inv = net_invD(1) [OF w]
  have "addressed ((cb, r, c) # ns)" using net_invD(3) [OF w] k nth_mem by metis
  then have "r \<noteq> []" "c \<noteq> []" by (simp_all add: addressed_def)
  note one = notify_one [OF R inv this ret]
  show s: "s = (if v \<and> (\<exists>st. p = Ret st \<and> st \<noteq> status_NoContent) then drop_context c (proxy w) else proxy w)"
    by (rule one(1))
  show "nd \<or> cb \<noteq> []" by (rule one(2))
  have "proxy_inv nd s" using proxy_inv_drop [OF inv] inv by (simp add: s)
  from net_inv_served [OF w this k] show "net_inv nd \<lparr>proxy = s, rounds = (rounds w)[k := ns]\<rparr>" .
qed

lemma create_keeps_sound:
  assumes R: "rest_laws R" and inv: "static_sound s" and j: "AppContext_of_json R j = Ret j"
    and fresh: "map_of (theApplicationsByContextId s) uuid = None"
    and ret: "createContext R nd uuid addr j s = (Ret resp, s')"
  shows "static_sound s'"
    and "linked s \<Longrightarrow> nd \<Longrightarrow> map_of (theApplicationsByUeAppId s) (stringOrEmpty R j ''associateUeAppId'') = None \<Longrightarrow> linked s'"
    and "linked s \<Longrightarrow> \<not> nd \<Longrightarrow> linked s'"
proof -
  obtain ue info where c: "context_ok R j ue info" "stringOrEmpty R j ''associateUeAppId'' = ue"
    by (rule parsed_context [OF R j])
  obtain n where "fName (app_fields_of R info) = Some n"
    using c(1) by (rule context_ok_name [OF R])
  note createContext_inv [OF R inv c(1) ret fresh this]
  then show "static_sound s'"
    "linked s \<Longrightarrow> nd \<Longrightarrow> map_of (theApplicationsByUeAppId s) (stringOrEmpty R j ''associateUeAppId'') = None \<Longrightarrow> linked s'"
    "linked s \<Longrightarrow> \<not> nd \<Longrightarrow> linked s'"
    using inv by (auto simp: c(2) split: if_splits)
qed

lemma create_keeps_inv:
  assumes R: "rest_laws R" and inv: "proxy_inv nd s" and j: "AppContext_of_json R j = Ret j"
    and fresh: "map_of (theApplicationsByContextId s) uuid = None"
    and ret: "createContext R nd uuid addr j s = (Ret resp, s')"
  shows "proxy_inv nd s'"
  using create_keeps_sound [OF R proxy_inv_sound [OF inv] j fresh ret] inv by (auto simp: proxy_inv_def)

text \<open>A creation of a release build with a UE application ID in use, which alone can make a context that
  the index does not lead to.\<close>

definition reuses :: "('j, 't) rest_api \<Rightarrow> 'j net \<Rightarrow> 'j event \<Rightarrow> bool" where
  "reuses R w e \<longleftrightarrow> (\<exists>uuid addr j. e = Create uuid addr j \<and>
     map_of (theApplicationsByUeAppId (proxy w)) (stringOrEmpty R j ''associateUeAppId'') \<noteq> None)"

lemma sound_step:
  assumes R: "rest_laws R" and E: "order_ok E" and w: "net_inv nd w" and step: "static_step R E nd w e w'"
  shows "net_inv nd w'" and "linked (proxy w) \<Longrightarrow> \<not> (nd \<and> reuses R w e) \<Longrightarrow> linked (proxy w')"
proof -
  note inv = net_invD(1) [OF w] and sound = net_invD(2) [OF w] and put = net_inv_put [OF w]
  have "net_inv nd w' \<and> (linked (proxy w) \<longrightarrow> \<not> (nd \<and> reuses R w e) \<longrightarrow> linked (proxy w'))"
    using step
  proof cases
    case (step_associate a n r ns s)
    then show ?thesis using rerouting_inv [OF associating.rerouting_axioms E w]
      associating.op_linked [OF E sound step_associate(3)] by simp
  next
    case step_associate_throws
    then show ?thesis using associating.op_throws [OF step_associate_throws(3)] w by (simp add: net_inv_def)
  next
    case (step_remove a n ns s)
    then show ?thesis using rerouting_inv [OF removing.rerouting_axioms E w]
      removing.op_linked [OF E sound step_remove(3)] by simp
  next
    case step_remove_throws
    then show ?thesis using removing.op_throws [OF step_remove_throws(3)] w by (simp add: net_inv_def)
  next
    case (step_create j uuid addr resp s)
    then show ?thesis
      using put create_keeps_inv [OF R inv step_create(3-5)] create_keeps_sound(2,3) [OF R sound step_create(3-5)]
      by (auto simp: reuses_def)
  next
    case (step_update j b s)
    then show ?thesis using put updateContext_inv [OF sound step_update(4)] inv by (simp add: proxy_inv_def)
  next
    case (step_delete c b s)
    then have "s = drop_context c (proxy w)" using deleteContext_Ret by blast
    then show ?thesis using put step_delete proxy_inv_drop [OF inv, of c] linked_drop [of "proxy w" c] by simp
  next
    case (step_add i b s)
    then show ?thesis
      using put addApp_inv(1) [OF R sound parsed_info [OF R step_add(3)], of nd] inv by (simp add: proxy_inv_def)
  next
    case (step_del i b s)
    then show ?thesis
      using put addApp_inv(2) [OF R sound parsed_info [OF R step_del(3)], of nd] inv by (simp add: proxy_inv_def)
  next
    case (step_notify k n ns p v s)
    obtain cb r c where n: "n = (cb, r, c)" by (cases n)
    note served = notify_served [OF R w step_notify(3) step_notify(4) [unfolded n] step_notify(5) [unfolded n]]
    then show ?thesis using linked_drop [of "proxy w" c] by (simp add: step_notify(2))
  qed
  then show "net_inv nd w'" "linked (proxy w) \<Longrightarrow> \<not> (nd \<and> reuses R w e) \<Longrightarrow> linked (proxy w')" by blast+
qed

lemmas net_inv_step = sound_step(1)

interpretation static_system: step_system net_init
  "static_step R E nd" "\<lambda>w. rest_laws R \<and> order_ok E \<longrightarrow> net_inv nd w" for R E nd
proof
  fix w :: "'a net"
  assume "net_init w"
  then show "rest_laws R \<and> order_ok E \<longrightarrow> net_inv nd w"
    by (simp add: net_init_def net_inv_def static_inv_proxy [OF static_inv_init])
next
  fix w w' and e :: "'a event"
  assume "rest_laws R \<and> order_ok E \<longrightarrow> net_inv nd w" "static_step R E nd w e w'"
  then show "rest_laws R \<and> order_ok E \<longrightarrow> net_inv nd w'" using net_inv_step by blast
qed

section \<open>The system refines the specification\<close>

lemma told_eq:
  assumes inv: "static_sound (proxy w)" and m: "table_ok m"
  shows "told m (abs_static w) = to_notify m (proxy w)"
proof -
  let ?C = "map_of (theApplicationsByContextId (proxy w))"
  have "route m (theClientAddress d) (theAppName d) = Some r \<Longrightarrow>
      route (map_of (theTable (proxy w))) (theClientAddress d) (theAppName d) \<noteq> Some r \<longleftrightarrow>
      r \<noteq> theEdgeRouterEndpoint d" if "?C c = Some d" for c d r
    using static_sound_context(3) [OF inv that] table_ok_route [OF m, of "theClientAddress d" "theAppName d" r]
    by (auto simp: desc_route_def or_empty_def split: option.splits)
  then show ?thesis
    by (fastforce simp: told_def to_notify_def abs_static_def client_of_def desc_route_def)
qed

lemma rerouting_retabled:
  assumes op: "rerouting E op upd" and E: "order_ok E" and inv: "static_sound (proxy w)" and ret: "op (proxy w) = (Ret ns, s)"
  shows "retabled (upd (s_table (abs_static w))) (abs_static w) (abs_static \<lparr>proxy = s, rounds = rounds w @ [ns]\<rparr>)"
proof -
  let ?m = "upd (map_of (theTable (proxy w)))"
  note re = rerouting.op_rerouted [OF op E inv ret]
  have "map_option client_of (map_option (retarget ?m) x) = map_option client_of x" for x
    by (cases x) (simp_all add: client_of_def)
  then have "abs_static \<lparr>proxy = s, rounds = rounds w @ [ns]\<rparr> =
      (abs_static w)\<lparr>s_table := ?m, s_rounds := s_rounds (abs_static w) @ [ns]\<rparr>"
    using re by (simp add: abs_static_def rerouted_def comp_def)
  moreover have "s_table (abs_static w) = map_of (theTable (proxy w))" by (simp add: abs_static_def)
  ultimately show ?thesis
    using re told_eq [OF inv rerouting.upd_ok [OF op ret static_soundD(5) [OF inv]]]
    by (auto simp: retabled_def rerouted_def)
qed

lemma rethrown_refines:
  assumes "rerouting E op upd" and "op (proxy w) = (Raise e, s)"
  shows "abs_static \<lparr>proxy = s, rounds = rounds w\<rparr> = abs_static w"
  using rerouting.op_throws [OF assms] by (simp add: abs_static_def)

text \<open>Dropping a context is forgetting its client.\<close>

lemma drop_refines: "abs_static (w\<lparr>proxy := drop_context c (proxy w)\<rparr>) = forget c (abs_static w)"
proof (cases "map_of (theApplicationsByContextId (proxy w)) c")
  case None
  then show ?thesis by (simp add: forget_def abs_static_def drop_absent)
next
  case (Some d)
  then show ?thesis
    by (simp add: forget_def abs_static_def drop_context_index fun_eq_iff client_of_def)
qed

lemma abs_rounds: "abs_static \<lparr>proxy = s, rounds = rs\<rparr> = (abs_static (w\<lparr>proxy := s\<rparr>))\<lparr>s_rounds := rs\<rparr>"
  by (simp add: abs_static_def)

lemma notify_refines:
  assumes R: "rest_laws R" and w: "net_inv nd w" and k: "k < length (rounds w)" "rounds w ! k = n # ns"
    and ret: "notify_loop R (E\<lparr>uri_validate := \<lambda>_. v, client_post := \<lambda>_ _ _. p\<rparr>) nd [n] 0 (proxy w) = (Ret (), s)"
  shows "spec_step R nd (abs_static w) (Notify k v p) (abs_static \<lparr>proxy = s, rounds = (rounds w)[k := ns]\<rparr>)"
proof -
  obtain cb r c where n: "n = (cb, r, c)" by (cases n)
  note s = notify_served(1,3) [OF R w k(1) k(2) [unfolded n] ret [unfolded n]]
  have "abs_static (w\<lparr>proxy := s\<rparr>) =
      (if v \<and> (\<exists>st. p = Ret st \<and> st \<noteq> status_NoContent) then forget c (abs_static w) else abs_static w)"
  proof (cases "v \<and> (\<exists>st. p = Ret st \<and> st \<noteq> status_NoContent)")
    case True
    then have "s = drop_context c (proxy w)" using s(1) by simp
    then show ?thesis using True drop_refines [of c w] by simp
  next
    case False
    then have "w\<lparr>proxy := s\<rparr> = w" using s(1) by (cases w) auto
    then show ?thesis using False by auto
  qed
  moreover have "s_rounds (abs_static w) = rounds w" by (simp add: abs_static_def)
  ultimately show ?thesis using k s(2) unfolding abs_rounds [of s "(rounds w)[k := ns]" w] by (simp add: n)
qed

lemma update_refines:
  assumes R: "rest_laws R" and inv: "static_sound (proxy w)" and j: "AppContext_of_json R j = Ret j"
    and ret: "updateContext R nd j (proxy w) = (Ret b, s)"
  shows "spec_step R nd (abs_static w) (Update j) (abs_static (w\<lparr>proxy := s\<rparr>))"
proof -
  obtain ue info where c: "context_ok R j ue info" by (rule parsed_context [OF R j])
  note g = context_ok_getters(1) [OF R c, of nd]
  have "abs_static (w\<lparr>proxy := s\<rparr>) = (case s_index (abs_static w) ue of
      None \<Rightarrow> abs_static w
    | Some c \<Rightarrow> (abs_static w)\<lparr>s_clients := (s_clients (abs_static w))(c := map_option
        (\<lambda>(u, cb, addr, n). (u, callbackReference R j, addr, n)) (s_clients (abs_static w) c))\<rparr>)"
  proof (cases b)
    case True
    with updateContext_Ret [OF ret] g obtain cid d where d: "map_of (theApplicationsByUeAppId (proxy w)) ue = Some cid"
      "map_of (theApplicationsByContextId (proxy w)) cid = Some d"
      "s = (proxy w)\<lparr>theApplicationsByContextId := umap_assign cid (d\<lparr>theCallbackReference := callbackReference R j\<rparr>)
        (theApplicationsByContextId (proxy w))\<rparr>" by auto
    then show ?thesis
      using umap.lookup_assign [OF static_soundD(2) [OF inv] d(2)]
      by (simp add: abs_static_def fun_eq_iff client_of_def)
  next
    case False
    with updateContext_Ret [OF ret] g show ?thesis by (simp add: abs_static_def)
  qed
  then show ?thesis
    using c unfolding spec_step.simps context_ok_def by blast
qed

lemma create_refines:
  assumes R: "rest_laws R" and inv: "static_sound (proxy w)" and j: "AppContext_of_json R j = Ret j"
    and fresh: "map_of (theApplicationsByContextId (proxy w)) uuid = None"
    and ret: "createContext R nd uuid addr j (proxy w) = (Ret resp, s)"
  shows "spec_step R nd (abs_static w) (Create uuid addr j) (abs_static (w\<lparr>proxy := s\<rparr>))"
proof -
  obtain ue info where c: "context_ok R j ue info" "stringOrEmpty R j ''associateUeAppId'' = ue"
    by (rule parsed_context [OF R j])
  obtain n where n: "fName (app_fields_of R info) = Some n"
    using c(1) by (rule context_ok_name [OF R])
  let ?a = "abs_static w"
  let ?unserved = "map_of (theApplications (proxy w)) (app_key R info) = None \<or>
    route (map_of (theTable (proxy w))) addr n = None"
  note inv' = createContext_inv [OF R inv c(1) ret fresh n]
  have u: "?unserved \<longleftrightarrow> s_apps ?a (app_key R info) = None \<or> route (s_table ?a) addr n = None"
    by (simp add: abs_static_def)
  have "if s_apps ?a (app_key R info) = None \<or> route (s_table ?a) addr n = None
       then abs_static (w\<lparr>proxy := s\<rparr>) = ?a
       else s_clients ?a uuid = None \<and> (nd \<or> s_index ?a ue = None) \<and>
         abs_static (w\<lparr>proxy := s\<rparr>) = ?a\<lparr>s_clients := (s_clients ?a)(uuid \<mapsto> (ue, callbackReference R j, addr, n)),
           s_index := (s_index ?a)(ue \<mapsto> (case s_index ?a ue of None \<Rightarrow> uuid | Some c \<Rightarrow> c))\<rparr>"
  proof (cases ?unserved)
    case True
    then have "s = proxy w" using inv' by simp
    then show ?thesis using True unfolding u by simp
  next
    case False
    with inv' obtain r where
      s: "s = entered uuid (new_desc R j ue addr n r) (proxy w)" "nd \<or> s_index ?a ue = None"
      by (auto simp: abs_static_def)
    have "abs_static (w\<lparr>proxy := s\<rparr>) = ?a\<lparr>s_clients := (s_clients ?a)(uuid \<mapsto> (ue, callbackReference R j, addr, n)),
        s_index := (s_index ?a)(ue \<mapsto> (case s_index ?a ue of None \<Rightarrow> uuid | Some c \<Rightarrow> c))\<rparr>"
      by (simp add: abs_static_def s(1) entered_index) (simp add: new_desc_def client_of_def fun_eq_iff)
    moreover have "s_clients ?a uuid = None" using fresh by (simp add: abs_static_def)
    ultimately show ?thesis using False s(2) unfolding u by (simp only: if_False simp_thms)
  qed
  then show ?thesis using c(1) n unfolding spec_step.simps by blast
qed

lemma app_refines:
  assumes R: "rest_laws R" and inv: "static_sound (proxy w)" and i: "AppInfo_of_json R i = Ret i"
  shows "addApp R nd i (proxy w) = (Ret b, s) \<Longrightarrow>
      spec_step R nd (abs_static w) (AddApp i) (abs_static (w\<lparr>proxy := s\<rparr>))"
    and "delApp R nd i (proxy w) = (Ret b, s) \<Longrightarrow>
      spec_step R nd (abs_static w) (DelApp i) (abs_static (w\<lparr>proxy := s\<rparr>))"
proof -
  note k = mangle_app_key [OF R parsed_info [OF R i]]
  note ok = static_soundD(4) [OF inv]
  show "spec_step R nd (abs_static w) (AddApp i) (abs_static (w\<lparr>proxy := s\<rparr>))"
    if "addApp R nd i (proxy w) = (Ret b, s)"
    using that omap.lookup_put [OF ok, of "app_key R i" i]
    by (auto simp: addApp_eq [OF k] abs_static_def split: prod.splits)
  show "spec_step R nd (abs_static w) (DelApp i) (abs_static (w\<lparr>proxy := s\<rparr>))"
    if "delApp R nd i (proxy w) = (Ret b, s)"
    using that omap.lookup_remove [OF ok, of "app_key R i"]
    by (auto simp: delApp_def k abs_static_def split: prod.splits)
qed

lemma static_step_refines:
  assumes R: "rest_laws R" and E: "order_ok E" and w: "net_inv nd w" and step: "static_step R E nd w e w'"
  shows "spec_step R nd (abs_static w) e (abs_static w')"
proof -
  note inv = net_invD(2) [OF w]
  from step show ?thesis
  proof cases
    case (step_associate a n r ns s)
    then have "n \<noteq> []" "r \<noteq> []" by (auto simp: associateAddress_locked_def split: if_splits)
    then show ?thesis
      using rerouting_retabled [OF associating.rerouting_axioms E inv step_associate(3)] by (simp add: step_associate)
  next
    case (step_associate_throws a n r ex s)
    then show ?thesis
      using rethrown_refines [OF associating.rerouting_axioms step_associate_throws(3)]
        associate_throws [OF step_associate_throws(3)] by auto
  next
    case (step_remove a n ns s)
    then have "n \<noteq> []" by (auto simp: removeAddress_locked_def split: if_splits)
    then show ?thesis
      using rerouting_retabled [OF removing.rerouting_axioms E inv step_remove(3)] by (simp add: step_remove)
  next
    case (step_remove_throws a n ex s)
    then have "n = []" using remove_locked_eq [OF E inv _ refl, where n = n and a = a and nd = nd] by auto
    then show ?thesis using rethrown_refines [OF removing.rerouting_axioms step_remove_throws(3)]
      by (simp add: step_remove_throws)
  next
    case step_create
    then show ?thesis using create_refines [OF R inv] by blast
  next
    case step_update
    then show ?thesis using update_refines [OF R inv] by blast
  next
    case (step_delete c b s)
    note del = step_delete(3) [unfolded deleteContext_cases]
    have "s_index (abs_static w) (fst x) \<noteq> None" if "s_clients (abs_static w) c = Some x" for x
      using that del by (auto simp: abs_static_def client_of_def split: if_splits)
    moreover have "abs_static w' = forget c (abs_static w)"
      unfolding step_delete(2) deleteContext_Ret [OF step_delete(3)] by (rule drop_refines)
    ultimately show ?thesis by (simp add: step_delete(1))
  next
    case step_add
    then show ?thesis using app_refines(1) [OF R inv] by blast
  next
    case step_del
    then show ?thesis using app_refines(2) [OF R inv] by blast
  next
    case step_notify
    then show ?thesis using notify_refines [OF R w] by blast
  qed
qed

interpretation static_refinement: simulation net_init "static_step R E nd"
  "\<lambda>w. rest_laws R \<and> order_ok E \<longrightarrow> net_inv nd w"
  "\<lambda>a e a'. rest_laws R \<and> order_ok E \<longrightarrow> spec_step R nd a e a'" abs_static for R E nd
proof
  fix w w' and e :: "'a event"
  assume "rest_laws R \<and> order_ok E \<longrightarrow> net_inv nd w" "static_step R E nd w e w'"
  then show "rest_laws R \<and> order_ok E \<longrightarrow> spec_step R nd (abs_static w) e (abs_static w')"
    using static_step_refines by blast
qed

end
