(* ===== verification/Static_Properties.thy ===== *)
theory Static_Properties
  imports Static_System
begin

text \<open>
  The properties of \<open>StaticUeAppLcmProxy\<close>: what holds in every reachable state, and what each
  operation does on every branch, with its notifications. The samples at the start are a
  proxy with one application, one association and one context, on which the properties are
  applied.
\<close>

section \<open>Samples\<close>

definition sample_env :: "json static_env" where
  "sample_env = \<lparr>iter_contexts = (\<lambda>xs. xs), iter_table = (\<lambda>xs. xs),
     uri_validate = (\<lambda>_. True), client_post = (\<lambda>_ _ _. Ret 204)\<rparr>"

definition sample_desc :: desc where
  "sample_desc = \<lparr>theAssociateUeAppId = ''ue1'', theCallbackReference = ''http://cb'',
     theClientAddress = ''10.0.0.1'', theAppName = ''app'', theEdgeRouterEndpoint = ''http://r1''\<rparr>"

definition sample_table :: "json static_state" where
  "sample_table = \<lparr>theApplications = [(''app+prov+1.0'', sample_info)],
     theTable = [(AddressAppKey ''10.0.0.1'' ''app'', ''http://r1'')],
     theApplicationsByContextId = [], theApplicationsByUeAppId = []\<rparr>"

definition sample_static :: "json static_state" where
  "sample_static = with_context ''c1'' sample_desc sample_table"

lemma sample_env_ok [simp]: "order_ok sample_env" "posts_survive sample_env"
  by (simp_all add: sample_env_def order_ok_def posts_survive_def)

lemma sample_table_inv [simp]: "static_inv sample_table"
  by (auto simp: static_inv_def static_wf_def linked_def coherent_def sample_table_def umap_ok_def
      omap_ok_def table_ok_def)

lemma sample_static_inv [simp]: "static_inv sample_static"
  unfolding sample_static_def
  by (rule static_inv_with_context [OF sample_table_inv])
    (simp_all add: sample_table_def sample_desc_def desc_route_def route_def)

lemma sample_contexts:
  "theApplicationsByContextId sample_static = [(''c1'', sample_desc)]"
  "theTable sample_static = [(AddressAppKey ''10.0.0.1'' ''app'', ''http://r1'')]"
  "theApplications sample_static = [(''app+prov+1.0'', sample_info)]"
  "theApplicationsByUeAppId sample_static = [(''ue1'', ''c1'')]"
  by (simp_all add: sample_static_def sample_table_def sample_desc_def)

lemma sample_callbacks:
  "nd \<or> (\<forall>c d. map_of (theApplicationsByContextId sample_static) c = Some d \<longrightarrow> theCallbackReference d \<noteq> [])"
  by (auto simp: sample_contexts sample_desc_def)

lemma sample_parsed: "context_ok jrest sample_request ''ue1'' sample_info"
  "string_field jrest sample_request ''contextId'' = None" "request_info jrest sample_info"
  "appName jrest nd sample_info = Ret ''app''" "mangle jrest nd sample_info = Ret ''app+prov+1.0''"
proof -
  show "context_ok jrest sample_request ''ue1'' sample_info" unfolding context_ok_def by code_simp
  show "string_field jrest sample_request ''contextId'' = None" "request_info jrest sample_info"
    by code_simp+
  show "appName jrest nd sample_info = Ret ''app''" "mangle jrest nd sample_info = Ret ''app+prov+1.0''"
    by (induction nd rule: bool.induct) code_simp+
qed


lemma sample_callback: "callbackReference jrest sample_request = ''http://cb''"
  by code_simp

text \<open>A run that adds an application, associates a client, creates its context and moves the client
  to another router: the round of notifications of the last step is still to be served.\<close>

definition sample_events :: "json event list" where
  "sample_events = [AddApp sample_info, Associate ''10.0.0.1'' ''app'' ''http://r1'',
     Create ''c1'' ''10.0.0.1'' sample_request, Associate ''10.0.0.1'' ''app'' ''http://r2'']"

definition sample_net :: "json net" where
  "sample_net = \<lparr>proxy = sample_static\<lparr>theTable := [(AddressAppKey ''10.0.0.1'' ''app'', ''http://r2'')],
       theApplicationsByContextId := [(''c1'', sample_desc\<lparr>theEdgeRouterEndpoint := ''http://r2''\<rparr>)]\<rparr>,
     rounds = [[], [(''http://cb'', ''http://r2'', ''c1'')]]\<rparr>"

lemma sample_create: "\<exists>resp. createContext jrest False ''c1'' ''10.0.0.1'' sample_request sample_table =
   (Ret resp, sample_static)"
proof -
  have f: "fName (app_fields_of jrest sample_info) = Some ''app''" "app_key jrest sample_info = ''app+prov+1.0''"
    by code_simp+
  have "map_of (theApplications sample_table) (app_key jrest sample_info) \<noteq> None"
    "route (map_of (theTable sample_table)) ''10.0.0.1'' ''app'' = Some ''http://r1''"
    unfolding f(2) by (simp_all add: sample_table_def route_def)
  moreover have "new_desc jrest sample_request ''ue1'' ''10.0.0.1'' ''app'' ''http://r1'' = sample_desc"
    by (simp add: new_desc_def sample_desc_def sample_callback)
  moreover have "map_of (theApplicationsByContextId sample_table) ''c1'' = None"
    "map_of (theApplicationsByUeAppId sample_table) ''ue1'' = None" by (simp_all add: sample_table_def)
  ultimately show ?thesis
    using createContext_fresh [OF jrest_laws sample_parsed(1-3) f(1), of sample_table "''10.0.0.1''" "''http://r1''" "''c1''" False]
    unfolding sample_static_def by (metis list.distinct(1))
qed

lemma static_step_intros:
  "AppInfo_of_json R i = Ret i \<Longrightarrow> addApp R nd i p = (Ret b, s) \<Longrightarrow>
    static_step R E nd \<lparr>proxy = p, rounds = rs\<rparr> (AddApp i) \<lparr>proxy = s, rounds = rs\<rparr>"
  "associateAddress_locked E nd a n r p = (Ret ns, s) \<Longrightarrow>
    static_step R E nd \<lparr>proxy = p, rounds = rs\<rparr> (Associate a n r) \<lparr>proxy = s, rounds = rs @ [ns]\<rparr>"
  "AppContext_of_json R j = Ret j \<Longrightarrow> map_of (theApplicationsByContextId p) uuid = None \<Longrightarrow>
    createContext R nd uuid addr j p = (Ret resp, s) \<Longrightarrow>
    static_step R E nd \<lparr>proxy = p, rounds = rs\<rparr> (Create uuid addr j) \<lparr>proxy = s, rounds = rs\<rparr>"
  using step_add [of R i nd "\<lparr>proxy = p, rounds = rs\<rparr>" b s E]
    step_associate [of E nd a n r "\<lparr>proxy = p, rounds = rs\<rparr>" ns s R]
    step_create [of R j "\<lparr>proxy = p, rounds = rs\<rparr>" uuid nd addr resp s E] by simp_all

lemma sample_served_steps:
  shows "static_step jrest sample_env False \<lparr>proxy = static_init, rounds = []\<rparr> (AddApp sample_info)
      \<lparr>proxy = static_init\<lparr>theApplications := [(''app+prov+1.0'', sample_info)]\<rparr>, rounds = []\<rparr>"
    and "static_step jrest sample_env False \<lparr>proxy = static_init\<lparr>theApplications := [(''app+prov+1.0'', sample_info)]\<rparr>, rounds = []\<rparr>
      (Associate ''10.0.0.1'' ''app'' ''http://r1'') \<lparr>proxy = sample_table, rounds = [[]]\<rparr>"
proof -
  let ?apps = "static_init\<lparr>theApplications := [(''app+prov+1.0'', sample_info)]\<rparr>"
  have "AppInfo_of_json jrest sample_info = Ret sample_info"
    "addApp jrest False sample_info static_init = (Ret True, ?apps)" by code_simp+
  from static_step_intros(1) [OF this] show "static_step jrest sample_env False \<lparr>proxy = static_init, rounds = []\<rparr> (AddApp sample_info)
      \<lparr>proxy = ?apps, rounds = []\<rparr>" .
  have "associateAddress_locked sample_env False ''10.0.0.1'' ''app'' ''http://r1'' ?apps = (Ret [], sample_table)"
    by (simp add: associateAddress_cases static_init_def sample_env_def sample_table_def umap_assign_def umap_emplace_def)
  from static_step_intros(2) [OF this, where R = jrest and rs = "[]"]
  show "static_step jrest sample_env False \<lparr>proxy = ?apps, rounds = []\<rparr>
      (Associate ''10.0.0.1'' ''app'' ''http://r1'') \<lparr>proxy = sample_table, rounds = [[]]\<rparr>" by simp
qed

lemma sample_run: "run (static_step jrest sample_env False) \<lparr>proxy = static_init, rounds = []\<rparr>
    sample_events sample_net"
proof -
  let ?step = "static_step jrest sample_env False"
  have "AppContext_of_json jrest sample_request = Ret sample_request" by code_simp
  then have 3: "?step \<lparr>proxy = sample_table, rounds = [[]]\<rparr> (Create ''c1'' ''10.0.0.1'' sample_request)
      \<lparr>proxy = sample_static, rounds = [[]]\<rparr>"
    using sample_create by (auto intro: static_step_intros(3) simp: sample_table_def)
  have "associateAddress_locked sample_env False ''10.0.0.1'' ''app'' ''http://r2'' sample_static =
      (Ret [(''http://cb'', ''http://r2'', ''c1'')], proxy sample_net)"
    by (simp add: associateAddress_cases sample_env_def sample_net_def sample_contexts sample_desc_def
      find_route_def umap_assign_def umap_emplace_def Let_def)
  from static_step_intros(2) [OF this, where R = jrest and rs = "[[]]"] have "?step \<lparr>proxy = sample_static, rounds = [[]]\<rparr>
      (Associate ''10.0.0.1'' ''app'' ''http://r2'') sample_net"
    by (simp add: sample_net_def)
  then show ?thesis unfolding sample_events_def
    by (rule run_cons [OF sample_served_steps(1) run_cons [OF sample_served_steps(2) run_cons [OF 3 run_cons [OF _ run_nil [where step = ?step]]]]])
qed

lemma sample_reachable: "reachable net_init (static_step jrest sample_env False) sample_net"
  by (rule run_reachable [OF sample_run]) (auto intro: reachable_init simp: net_init_def)

section \<open>Reachable states\<close>

text \<open>C1. Whatever the interleaving of the operations, of the HTTP requests and of the rounds of
  notifications, in both builds: the maps have one entry per key, the index by UE application ID
  leads only to contexts of that ID (no iterator dangles), no router in the table is empty, and every
  context records the router that its client and application resolve to, or none. In a debug build
  the index leads to every context as well. So it does in a release build until a request is served
  whose UE application ID is in use: no other step makes a context that the index does not lead to.\<close>

theorem static_reachable_inv:
  assumes R: "rest_laws R" and E: "order_ok E" and w: "reachable net_init (static_step R E nd) w"
  shows "static_sound (proxy w) \<and> (\<not> nd \<longrightarrow> static_inv (proxy w)) \<and>
    (\<forall>e w'. static_step R E nd w e w' \<longrightarrow> static_inv (proxy w) \<longrightarrow> static_inv (proxy w') \<or>
       nd \<and> (\<exists>uuid addr j. e = Create uuid addr j \<and>
         map_of (theApplicationsByUeAppId (proxy w)) (stringOrEmpty R j ''associateUeAppId'') \<noteq> None))"
proof -
  have inv: "net_inv nd w" using static_system.inv_reachable [OF w] R E by blast
  have "static_inv (proxy w')" if "static_step R E nd w e w'" "static_inv (proxy w)" "\<not> (nd \<and> reuses R w e)" for e w'
    using sound_step [OF R E inv that(1)] that(2,3) net_invD(2) unfolding static_inv_iff by blast
  then show ?thesis
    using net_invD(1,2) [OF inv] unfolding reuses_def by (cases nd) auto
qed

theorem static_reachable_inv_witness: "static_inv (proxy sample_net)"
  using static_reachable_inv [OF jrest_laws sample_env_ok(1) sample_reachable] by blast

text \<open>C2. The proxy refines its specification: every run of it from a state with its invariant (as
  every reachable state is), in both builds, with rounds of notifications overlapping the requests and
  with creations that use a UE application ID again, is a run of the specification, where a context stores no router at all and is served by whatever the
  table gives for its address and application.\<close>

theorem static_run_refines:
  assumes "rest_laws R" "order_ok E" and "net_inv nd w" and "run (static_step R E nd) w es w'"
  shows "run (spec_step R nd) (abs_static w) es (abs_static w')"
  using static_refinement.run_simulated [OF assms(4)] assms(1-3) by simp

theorem static_run_refines_witness:
  "run (spec_step jrest False) (abs_static \<lparr>proxy = static_init, rounds = []\<rparr>)
     sample_events (abs_static sample_net)"
proof (rule static_run_refines [OF jrest_laws sample_env_ok(1) _ sample_run])
  show "net_inv False \<lparr>proxy = static_init, rounds = []\<rparr>" by (simp add: net_inv_def static_inv_init)
qed

text \<open>C10. In every reachable state numContexts passes its assertion and counts the contexts, contexts()
  lists one row per context, and the router of each row is the one that its address and
  application resolve to, as edgeRouter would answer for a client with an address.\<close>

theorem contexts_current:
  assumes R: "rest_laws R" and E: "order_ok E" and w: "reachable net_init (static_step R E nd) w"
  shows "numContexts nd (proxy w) = Ret (card (context_ids (proxy w))) \<and>
    length (contexts E (proxy w)) = card (context_ids (proxy w)) \<and>
    (\<forall>(a, n, r) \<in> set (contexts E (proxy w)).
       n \<noteq> [] \<and> r = or_empty (route (map_of (theTable (proxy w))) a n) \<and>
       (a \<noteq> [] \<longrightarrow> edgeRouter nd a n (proxy w) = Ret r))"
proof -
  let ?s = "proxy w"
  have full: "proxy_inv nd ?s" using static_system.inv_reachable [OF w] R E by (simp add: net_inv_def)
  note inv = proxy_inv_sound [OF full]
  note o = order_okD [OF E static_soundD(2) [OF inv]]
  have "length (theApplicationsByContextId ?s) = card (context_ids ?s)"
    using static_soundD(2) [OF inv] by (simp add: context_ids_def umap_ok_def length_card_dom)
  moreover have "length (iter_contexts E (theApplicationsByContextId ?s)) =
      length (theApplicationsByContextId ?s)"
    using E by (metis order_ok_def size_mset)
  moreover have "n \<noteq> [] \<and> r = or_empty (route (map_of (theTable ?s)) a n) \<and>
      (a \<noteq> [] \<longrightarrow> edgeRouter nd a n ?s = Ret r)" if "(a, n, r) \<in> set (contexts E ?s)" for a n r
  proof -
    from that obtain c d where d: "map_of (theApplicationsByContextId ?s) c = Some d"
      "theClientAddress d = a" "theAppName d = n" "theEdgeRouterEndpoint d = r"
      by (auto simp: contexts_def o)
    from static_sound_context(2,3) [OF inv d(1)] d(2-4)
    have "n \<noteq> []" "r = or_empty (route (map_of (theTable ?s)) a n)" by (simp_all add: desc_route_def)
    then show ?thesis by (auto simp: edgeRouter_def find_route_eq or_empty_def split: option.split)
  qed
  moreover have "length (contexts E ?s) = length (iter_contexts E (theApplicationsByContextId ?s))"
    by (simp add: contexts_def)
  moreover have "nd \<or> length (theApplicationsByUeAppId ?s) = length (theApplicationsByContextId ?s)"
    using full linked_sizes [of ?s] by (cases nd) simp_all
  ultimately show ?thesis by (auto simp: numContexts_def cassert_def)
qed

theorem contexts_current_witness:
  "numContexts False (proxy sample_net) = Ret 1 \<and> length (contexts sample_env (proxy sample_net)) = 1"
proof -
  have "card (context_ids (proxy sample_net)) = 1" by (simp add: sample_net_def context_ids_def)
  then show ?thesis using contexts_current [OF jrest_laws sample_env_ok(1) sample_reachable] by simp
qed

section \<open>The table\<close>

text \<open>The outcome of a locked operation and of the round of notifications that follows.\<close>

lemma rerouting_outcome:
  assumes op: "rerouting E op upd" and R: "rest_laws R" and E: "order_ok E" "posts_survive E"
    and inv: "proxy_inv nd s" and ret: "op s = (Ret ns, t)"
  shows "notifyClients R E nd ns t =
      (if handled nd ns = ns then Ret () else Abort, fold drop_context (unanswered R E 0 (handled nd ns)) t)"
    and "proxy_inv nd t" and "proxy_inv nd (fold drop_context cs t)"
    and "static_inv s \<Longrightarrow> static_inv (fold drop_context cs t)"
proof -
  note sound = proxy_inv_sound [OF inv]
  show t: "proxy_inv nd t" by (rule rerouting.op_proxy [OF op E(1) inv ret])
  then show "proxy_inv nd (fold drop_context cs t)" by (rule proxy_inv_fold_drop)
  show "static_inv s \<Longrightarrow> static_inv (fold drop_context cs t)"
    using rerouting.op_inv [OF op E(1) _ ret] static_inv_fold_drop by blast
  have "addressed ns"
    using rerouting.op_notifications [OF op E(1) sound ret] by (fastforce simp: addressed_def)
  then show "notifyClients R E nd ns t =
      (if handled nd ns = ns then Ret () else Abort, fold drop_context (unanswered R E 0 (handled nd ns)) t)"
    unfolding notifyClients_def by (rule notify_loop_outcome [OF R E(2) t])
qed

text \<open>All are notified when no context of a debug build lacks a callback.\<close>

lemma rerouting_then_notify:
  assumes op: "rerouting E op upd" and R: "rest_laws R" and E: "order_ok E" "posts_survive E"
    and inv: "proxy_inv nd s" and ret: "op s = (Ret ns, t)"
    and cb: "nd \<or> (\<forall>c d. map_of (theApplicationsByContextId s) c = Some d \<longrightarrow> theCallbackReference d \<noteq> [])"
  shows "notifyClients R E nd ns t = (Ret (), fold drop_context (unanswered R E 0 ns) t)"
    and "proxy_inv nd (fold drop_context (unanswered R E 0 ns) t)"
    and "static_inv s \<Longrightarrow> static_inv (fold drop_context (unanswered R E 0 ns) t)"
proof -
  note sound = proxy_inv_sound [OF inv] and out = rerouting_outcome [OF op R E inv ret]
  have "nd \<or> c \<noteq> []" if mem: "(c, r, i) \<in> set ns" for c r i
  proof -
    from rerouting.op_notifications [OF op E(1) sound ret mem] obtain d where
      d: "map_of (theApplicationsByContextId t) i = Some d" "theCallbackReference d = c"
      by blast
    then obtain d' where "map_of (theApplicationsByContextId s) i = Some d'" "theCallbackReference d' = c"
      using rerouting.op_contexts [OF op E(1) sound ret, of i] by auto
    then show ?thesis using cb by blast
  qed
  then have "handled nd ns = ns" by (fastforce simp: handled_all)
  then show "notifyClients R E nd ns t = (Ret (), fold drop_context (unanswered R E 0 ns) t)"
    using out(1) by simp
  show "proxy_inv nd (fold drop_context (unanswered R E 0 ns) t)" by (rule out(3))
  show "static_inv s \<Longrightarrow> static_inv (fold drop_context (unanswered R E 0 ns) t)" by (rule out(4))
qed

text \<open>C7. associateAddress, on every branch: it throws for an empty name or router and changes nothing; a
  repeated association changes nothing; a context of the application that has no route makes it
  crash; otherwise it adds the entry, moves to their new router exactly the contexts whose route
  changed, notifies each of them once, and drops those whose client does not answer 204, keeping
  the invariant. All of them are notified in a release build; a debug build aborts at the first
  one that has no callback, after having notified those before it.\<close>

theorem associateAddress_correct:
  assumes R: "rest_laws R" and E: "order_ok E" "posts_survive E" and inv: "proxy_inv nd s"
  shows "if n = [] then associateAddress R E nd a n r s =
      (Raise (RuntimeError ''Empty application name''), s)
    else if r = [] then associateAddress R E nd a n r s =
      (Raise (RuntimeError ''Empty edge router end-point''), s)
    else let m = (map_of (theTable s))(AddressAppKey a n \<mapsto> r) in
      if map_of (theTable s) (AddressAppKey a n) = Some r then associateAddress R E nd a n r s = (Ret (), s)
      else if routeless m n s then fst (associateAddress R E nd a n r s) = crash nd
      else \<exists>ns t. rerouted m s ns t \<and> proxy_inv nd t \<and>
        (let sent = handled nd ns; s' = fold drop_context (unanswered R E 0 sent) t
         in associateAddress R E nd a n r s = (if sent = ns then Ret () else Abort, s') \<and>
           proxy_inv nd s' \<and> (static_inv s \<longrightarrow> static_inv s'))"
proof (cases "n = [] \<or> r = [] \<or> map_of (theTable s) (AddressAppKey a n) = Some r")
  case True
  consider "n = []" | "n \<noteq> []" "r = []"
    | "n \<noteq> []" "r \<noteq> []" "map_of (theTable s) (AddressAppKey a n) = Some r" using True by blast
  then show ?thesis
  proof cases
    case 3
    then show ?thesis by (simp add: associateAddress_def associateAddress_cases notifyClients_def)
  qed (simp_all add: associateAddress_def associateAddress_locked_def)
next
  case False
  then have ne: "n \<noteq> []" "r \<noteq> []" by simp_all
  let ?m = "(map_of (theTable s))(AddressAppKey a n \<mapsto> r)"
  note eq = associate_locked_eq [OF E(1) proxy_inv_sound [OF inv] ne refl, where a = a and nd = nd]
  show ?thesis
  proof (cases "routeless ?m n s")
    case True
    then have "fst (associateAddress_locked E nd a n r s) = crash nd" using False by (intro eq(1)) auto
    then have "fst (associateAddress R E nd a n r s) = crash nd"
      by (cases "associateAddress_locked E nd a n r s") (auto simp: associateAddress_def crash_def)
    then show ?thesis using False True by (simp add: Let_def)
  next
    case f: False
    then obtain ns t where op: "associateAddress_locked E nd a n r s = (Ret ns, t)"
      and re: "rerouted ?m s ns t" using eq(2) by blast
    note out = rerouting_outcome [OF associating.rerouting_axioms R E inv op]
    have "associateAddress R E nd a n r s =
        (if handled nd ns = ns then Ret () else Abort, fold drop_context (unanswered R E 0 (handled nd ns)) t)"
      by (simp add: associateAddress_def op out(1))
    then show ?thesis
      using False f re out(2-4) by (auto simp: Let_def)
  qed
qed

theorem associateAddress_correct_witness:
  "\<exists>ns t. rerouted ((map_of (theTable sample_static))(AddressAppKey ''10.0.0.1'' ''app'' \<mapsto> ''http://r2''))
      sample_static ns t \<and>
    associateAddress jrest sample_env True ''10.0.0.1'' ''app'' ''http://r2'' sample_static =
      (Ret (), fold drop_context (unanswered jrest sample_env 0 ns) t)"
proof -
  have "\<not> routeless ((map_of (theTable sample_static))(AddressAppKey ''10.0.0.1'' ''app'' \<mapsto> ''http://r2''))
      ''app'' sample_static"
    by (simp add: routeless_def sample_contexts desc_route_def route_def sample_desc_def)
  then show ?thesis
    using associateAddress_correct [where nd = True and n = "''app''" and a = "''10.0.0.1''" and
        r = "''http://r2''", OF jrest_laws sample_env_ok static_inv_proxy [OF sample_static_inv]]
    by (auto simp: Let_def sample_contexts handled_def)
qed

text \<open>C8. removeAddress throws for an empty name and changes nothing; otherwise it removes the entry, moves
  exactly the contexts whose route changed to their fallback (or to no router, without notice),
  notifies once those that have one, and drops the contexts whose client does not answer 204, keeping
  the invariant. In a release build it always returns; a debug build aborts at the first context to
  notify that has no callback, after having notified those before it.\<close>

theorem removeAddress_correct:
  assumes R: "rest_laws R" and E: "order_ok E" "posts_survive E" and inv: "proxy_inv nd s"
  shows "if n = [] then removeAddress R E nd a n s =
      (Raise (RuntimeError ''Empty application name''), s)
    else \<exists>ns t. rerouted ((map_of (theTable s))(AddressAppKey a n := None)) s ns t \<and> proxy_inv nd t \<and>
      (let sent = handled nd ns; s' = fold drop_context (unanswered R E 0 sent) t
       in removeAddress R E nd a n s = (if sent = ns then Ret () else Abort, s') \<and>
         proxy_inv nd s' \<and> (static_inv s \<longrightarrow> static_inv s'))"
proof (cases "n = []")
  case False
  then obtain ns t where op: "removeAddress_locked E nd a n s = (Ret ns, t)"
    and re: "rerouted ((map_of (theTable s))(AddressAppKey a n := None)) s ns t"
    using remove_locked_eq [OF E(1) proxy_inv_sound [OF inv] False refl, where a = a and nd = nd] by blast
  note out = rerouting_outcome [OF removing.rerouting_axioms R E inv op]
  have "removeAddress R E nd a n s =
      (if handled nd ns = ns then Ret () else Abort, fold drop_context (unanswered R E 0 (handled nd ns)) t)"
    by (simp add: removeAddress_def op out(1))
  then show ?thesis
    using False re out(2-4) by (auto simp: Let_def)
qed (simp add: removeAddress_def removeAddress_locked_def)

theorem removeAddress_correct_witness:
  "\<exists>ns t. rerouted ((map_of (theTable sample_static))(AddressAppKey ''10.0.0.1'' ''app'' := None))
      sample_static ns t \<and> proxy_inv True t \<and>
    removeAddress jrest sample_env True ''10.0.0.1'' ''app'' sample_static =
      (Ret (), fold drop_context (unanswered jrest sample_env 0 ns) t)"
  using removeAddress_correct [where nd = True and n = "''app''" and a = "''10.0.0.1''",
      OF jrest_laws sample_env_ok static_inv_proxy [OF sample_static_inv]] by (auto simp: handled_def Let_def)

text \<open>C13. A round of notifications, each with a router and a context ID as the operations queue them, is
  served to the end in a release build; a debug build aborts at the first one that has no callback,
  after having served those before it. Of the contexts of the notifications that were served it
  drops exactly those whose client was reached and answered anything but 204: an invalid URI or an
  exception of the REST client drops none. Table and applications are untouched and the invariant
  is kept.\<close>

theorem notifyClients_correct:
  assumes R: "rest_laws R" and E: "posts_survive E" and inv: "proxy_inv nd s" and ns: "addressed ns"
  shows "\<exists>s'. notifyClients R E nd ns s =
        (if nd \<or> (\<forall>(cb, r, c) \<in> set ns. cb \<noteq> []) then Ret () else Abort, s') \<and>
      proxy_inv nd s' \<and> (static_inv s \<longrightarrow> static_inv s') \<and>
      theTable s' = theTable s \<and> theApplications s' = theApplications s \<and>
      (\<forall>c. map_of (theApplicationsByContextId s') c =
         (if c \<in> set (unanswered R E 0 (handled nd ns)) then None else map_of (theApplicationsByContextId s) c))"
proof -
  have "(\<forall>(cb, r, c) \<in> set ns. cb \<noteq> []) \<longleftrightarrow> (\<forall>n \<in> set ns. fst n \<noteq> [])" by fastforce
  then have "notifyClients R E nd ns s = (if nd \<or> (\<forall>(cb, r, c) \<in> set ns. cb \<noteq> []) then Ret () else Abort,
      fold drop_context (unanswered R E 0 (handled nd ns)) s)"
    unfolding notifyClients_def using notify_loop_outcome [OF R E inv ns, of 0] by (simp add: handled_all)
  then show ?thesis
    using proxy_inv_fold_drop [OF inv] static_inv_fold_drop [of s] by (simp add: fold_drop_contexts)
qed

theorem notifyClients_correct_witness:
  "\<exists>s'. notifyClients jrest (sample_env\<lparr>client_post := \<lambda>_ _ _. Ret 500\<rparr>) False
      [(''http://cb'', ''http://r2'', ''c1''), ([], ''http://r2'', ''c2'')] sample_static = (Abort, s') \<and> static_inv s'"
  using notifyClients_correct [OF jrest_laws _ static_inv_proxy [OF sample_static_inv], of "sample_env\<lparr>client_post := \<lambda>_ _ _. Ret 500\<rparr>"
     "[(''http://cb'', ''http://r2'', ''c1''), ([], ''http://r2'', ''c2'')]" False]
  by (auto simp: posts_survive_def addressed_def)

text \<open>purge and deleteContext are the same function in every well-formed state and in both builds:
  they answer whether there is such a context and remove it, and its entry in the index, from the
  two maps.\<close>

theorem purge_equals_deleteContext:
  assumes "static_inv s"
  shows "purge nd c s = deleteContext nd' c s \<and>
    (case map_of (theApplicationsByContextId s) c of
       None \<Rightarrow> deleteContext nd' c s = (Ret False, s)
     | Some d \<Rightarrow> \<exists>s'. deleteContext nd' c s = (Ret True, s') \<and> static_inv s' \<and>
         theTable s' = theTable s \<and> theApplications s' = theApplications s \<and>
         map_of (theApplicationsByContextId s') = (map_of (theApplicationsByContextId s))(c := None) \<and>
         map_of (theApplicationsByUeAppId s') =
           (map_of (theApplicationsByUeAppId s))(theAssociateUeAppId d := None))"
proof (cases "map_of (theApplicationsByContextId s) c")
  case None
  then show ?thesis using assms
    by (simp add: purge_eq [OF static_inv_proxy] deleteContext_eq static_invD(6) drop_context_def)
next
  case (Some d)
  then show ?thesis
    using assms static_inv_drop [OF assms, of c]
    by (simp add: purge_eq [OF static_inv_proxy] deleteContext_eq static_invD(6))
      (simp add: drop_context_def AList.delete_conv')
qed

theorem purge_equals_deleteContext_witness:
  "purge False ''c1'' sample_static = deleteContext True ''c1'' sample_static \<and>
   fst (purge False ''c1'' sample_static) = Ret True"
  using purge_equals_deleteContext [OF sample_static_inv, of False "''c1''" True]
  by (auto simp: sample_contexts)


lemma edgeRouter_route:
  "b \<noteq> [] \<Longrightarrow> k \<noteq> [] \<Longrightarrow> edgeRouter nd b k s = Ret (or_empty (route (map_of (theTable s)) b k))"
  by (auto simp: edgeRouter_def find_route_eq or_empty_def split: option.split)

text \<open>C14. After an association a client is sent to the new router iff the association is for its own
  address, or for any address and the client has no entry of its own; after a removal it falls
  back to the entry for any address, or to no router. The answers for all other clients and
  applications are as before.\<close>

theorem edgeRouter_after_updates:
  assumes R: "rest_laws R" and E: "order_ok E" "posts_survive E" and inv: "static_inv s"
    and cb: "nd \<or> (\<forall>c d. map_of (theApplicationsByContextId s) c = Some d \<longrightarrow> theCallbackReference d \<noteq> [])"
    and bk: "b \<noteq> []" "k \<noteq> []"
    and s1: "associateAddress R E nd a n r s = (Ret (), s1)"
    and s2: "removeAddress R E nd a n s = (Ret (), s2)"
  shows "edgeRouter nd b k s1 =
      (if k = n \<and> (b = a \<or> a = [] \<and> map_of (theTable s) (AddressAppKey b n) = None)
       then Ret r else edgeRouter nd b k s) \<and>
    edgeRouter nd b k s2 =
      (if k = n \<and> b = a then Ret (or_empty (map_of (theTable s) (AddressAppKey [] n)))
       else if k = n \<and> a = [] then Ret (or_empty (map_of (theTable s) (AddressAppKey b n)))
       else edgeRouter nd b k s)"
proof -
  let ?m = "map_of (theTable s)"
  obtain ns t where op: "associateAddress_locked E nd a n r s = (Ret ns, t)"
    and n: "notifyClients R E nd ns t = (Ret (), s1)"
    using s1 by (auto simp: associateAddress_def and_then_eq_Ret)
  have t1: "map_of (theTable s1) = ?m(AddressAppKey a n \<mapsto> r)"
    using rerouting_then_notify(1) [OF associating.rerouting_axioms R E static_inv_proxy [OF inv] op cb]
      associating.op_rerouted [OF E(1) static_inv_sound [OF inv] op] n by (auto simp: rerouted_def)
  obtain ns' t' where op': "removeAddress_locked E nd a n s = (Ret ns', t')"
    and n': "notifyClients R E nd ns' t' = (Ret (), s2)"
    using s2 by (auto simp: removeAddress_def and_then_eq_Ret)
  have t2: "map_of (theTable s2) = ?m(AddressAppKey a n := None)"
    using rerouting_then_notify(1) [OF removing.rerouting_axioms R E static_inv_proxy [OF inv] op' cb]
      removing.op_rerouted [OF E(1) static_inv_sound [OF inv] op'] n' by (auto simp: rerouted_def)
  show ?thesis
    using bk by (auto simp: edgeRouter_route t1 t2 route_upd route_del)
qed

theorem edgeRouter_after_updates_witness:
  "edgeRouter False ''10.0.0.1'' ''app''
     (snd (associateAddress jrest sample_env False ''10.0.0.1'' ''app'' ''http://r2'' sample_static)) =
   Ret ''http://r2''"
proof -
  have run: "associateAddress jrest sample_env False ''10.0.0.1'' ''app'' ''http://r2'' sample_static =
      (Ret (), snd (associateAddress jrest sample_env False ''10.0.0.1'' ''app'' ''http://r2'' sample_static))"
    "removeAddress jrest sample_env False ''10.0.0.1'' ''app'' sample_static =
      (Ret (), snd (removeAddress jrest sample_env False ''10.0.0.1'' ''app'' sample_static))"
    by code_simp+
  show ?thesis
    using edgeRouter_after_updates [OF jrest_laws sample_env_ok sample_static_inv sample_callbacks _ _ run,
      of "''10.0.0.1''" "''app''"] by simp
qed

section \<open>Rounds of notifications\<close>

lemma notify_step:
  assumes R: "rest_laws R" and w: "net_inv nd w" and k: "k < length (rounds w)" "rounds w ! k = n # ns"
    and cb: "nd \<or> fst n \<noteq> []" and p: "survives p"
  obtains s where "static_step R E nd w (Notify k v p) \<lparr>proxy = s, rounds = (rounds w)[k := ns]\<rparr>"
    "theTable s = theTable (proxy w)"
proof -
  let ?E = "E\<lparr>uri_validate := \<lambda>_. v, client_post := \<lambda>_ _ _. p\<rparr>"
  have "addressed (n # ns)" using net_invD(3) [OF w] k nth_mem by metis
  then have "addressed [n]" by (simp add: addressed_def)
  from notify_loop_eq [OF R _ net_invD(1) [OF w] this, of ?E 0] p cb
  have "notify_loop R ?E nd [n] 0 (proxy w) = (Ret (), fold drop_context (unanswered R ?E 0 [n]) (proxy w))"
    by (simp add: posts_survive_def)
  from that [OF step_notify [OF k this]] show thesis by simp
qed

lemma drain_round:
  assumes R: "rest_laws R" and E: "order_ok E" and "net_inv nd w" "k < length (rounds w)"
    and "\<forall>n \<in> set (rounds w ! k). nd \<or> fst n \<noteq> []" and p: "\<And>n. survives (snd (ans n))"
  shows "\<exists>s. run (static_step R E nd) w (map (\<lambda>n. Notify k (fst (ans n)) (snd (ans n))) (rounds w ! k))
      \<lparr>proxy = s, rounds = (rounds w)[k := []]\<rparr> \<and> theTable s = theTable (proxy w)"
  using assms(3-5)
proof (induction "rounds w ! k" arbitrary: w)
  case Nil
  then have "(rounds w)[k := []] = rounds w" by (metis list_update_id)
  then show ?case using Nil(1) by (intro exI [of _ "proxy w"]) (simp flip: Nil(1))
next
  case (Cons n ns)
  have cb: "nd \<or> fst n \<noteq> []" using Cons(5) Cons(2) [symmetric] by auto
  obtain s where s: "static_step R E nd w (Notify k (fst (ans n)) (snd (ans n)))
      \<lparr>proxy = s, rounds = (rounds w)[k := ns]\<rparr>" and t: "theTable s = theTable (proxy w)"
    by (rule notify_step [OF R Cons(3,4) Cons(2) [symmetric] cb p])
  let ?w = "\<lparr>proxy = s, rounds = (rounds w)[k := ns]\<rparr>"
  have inv: "net_inv nd ?w" by (rule net_inv_step [OF R E Cons(3) s])
  have k: "rounds ?w ! k = ns" using Cons(4) by simp
  have "\<exists>s. run (static_step R E nd) ?w (map (\<lambda>n. Notify k (fst (ans n)) (snd (ans n))) (rounds ?w ! k))
      \<lparr>proxy = s, rounds = (rounds ?w)[k := []]\<rparr> \<and> theTable s = theTable (proxy ?w)"
    using Cons(4,5) Cons(2) [symmetric] by (intro Cons.hyps(1) inv) auto
  then show ?case using s t unfolding k by (auto simp: run_Cons Cons(2) [symmetric])
qed

text \<open>A notification without a callback is never served by a debug build: it stays.\<close>

lemma callbackless_stays:
  assumes "static_step R E False w e w'" and n: "ns \<in> set (rounds w)" "n \<in> set ns" "fst n = []"
  shows "\<exists>ns \<in> set (rounds w'). n \<in> set ns"
  using assms(1)
proof cases
  case (step_notify k n' ns' p v s)
  have n': "fst n' \<noteq> []" using step_notify(5) by (auto simp: case_prod_beta and_then_eq_Ret cassert_eq_Ret)
  obtain i where i: "i < length (rounds w)" "rounds w ! i = ns" using n(1) by (auto simp: in_set_conv_nth)
  show ?thesis
  proof (cases "i = k")
    case True
    then have "n \<in> set ns'" using n i n' step_notify(4) by auto
    then show ?thesis using step_notify(2,3) by (auto simp: set_update_memI)
  next
    case False
    then have "ns = rounds w' ! i" "i < length (rounds w')" using i step_notify(2) by simp_all
    then show ?thesis using n(2) by (metis nth_mem)
  qed
qed (use n in auto)

lemma callbackless_run:
  "run (static_step R E False) w es w' \<Longrightarrow> ns \<in> set (rounds w) \<Longrightarrow> n \<in> set ns \<Longrightarrow> fst n = [] \<Longrightarrow>
   \<exists>ns \<in> set (rounds w'). n \<in> set ns"
proof (induction arbitrary: ns rule: run.induct)
  case (run_cons w e w1 es w')
  from callbackless_stays [OF run_cons(1) run_cons.prems] obtain ns1 where "ns1 \<in> set (rounds w1)" "n \<in> set ns1" by blast
  then show ?case using run_cons.IH run_cons.prems(3) by blast
qed blast

text \<open>All rounds in the order of the threads.\<close>

definition serve_all :: "(notification \<Rightarrow> bool \<times> nat res) \<Rightarrow> notification list list \<Rightarrow> 'j event list" where
  "serve_all ans rs = concat (map (\<lambda>k. map (\<lambda>n. Notify k (fst (ans n)) (snd (ans n))) (rs ! k)) [0..<length rs])"

lemma drain_all:
  assumes R: "rest_laws R" and E: "order_ok E" and w: "net_inv nd w"
    and cb: "nd \<or> (\<forall>ns \<in> set (rounds w). \<forall>n \<in> set ns. fst n \<noteq> [])" and ans: "\<And>n. survives (snd (ans n))"
  shows "\<exists>w'. run (static_step R E nd) w (serve_all ans (rounds w)) w' \<and>
    rounds w' = replicate (length (rounds w)) [] \<and> theTable (proxy w') = theTable (proxy w)"
proof -
  let ?es = "\<lambda>m. concat (map (\<lambda>k. map (\<lambda>n. Notify k (fst (ans n)) (snd (ans n))) (rounds w ! k)) [0..<m])"
  have "\<exists>w'. run (static_step R E nd) w (?es m) w' \<and> net_inv nd w' \<and> theTable (proxy w') = theTable (proxy w) \<and>
      rounds w' = replicate m [] @ drop m (rounds w)" if "m \<le> length (rounds w)" for m
    using that
  proof (induction m)
    case 0
    then show ?case using w by auto
  next
    case (Suc m)
    then obtain w' where w': "run (static_step R E nd) w (?es m) w'" "net_inv nd w'"
      "theTable (proxy w') = theTable (proxy w)" "rounds w' = replicate m [] @ drop m (rounds w)" by auto
    have m: "m < length (rounds w')" "rounds w' ! m = rounds w ! m"
      using Suc.prems by (simp_all add: w'(4) nth_append)
    have "\<forall>n \<in> set (rounds w' ! m). nd \<or> fst n \<noteq> []" using cb m Suc.prems by auto
    from drain_round [where ans = ans, OF R E w'(2) m(1) this ans] obtain s where
      s: "run (static_step R E nd) w' (map (\<lambda>n. Notify m (fst (ans n)) (snd (ans n))) (rounds w ! m))
        \<lparr>proxy = s, rounds = (rounds w')[m := []]\<rparr>" "theTable s = theTable (proxy w')"
      unfolding m(2) by blast
    have "net_inv nd \<lparr>proxy = s, rounds = (rounds w')[m := []]\<rparr>"
      using static_system.inv_run [OF s(1)] w'(2) R E by blast
    moreover have "(rounds w')[m := []] = replicate (Suc m) [] @ drop (Suc m) (rounds w)"
      using Suc.prems by (simp add: w'(4) list_update_append Cons_nth_drop_Suc [symmetric] replicate_append_same)
    ultimately show ?case using w'(1,3) s by (auto simp: run_append)
  qed
  from this [of "length (rounds w)"] show ?thesis unfolding serve_all_def by simp blast
qed

text \<open>C12. Liveness: from every reachable state the pending rounds of notifications can be served to the
  end, whatever the clients answer, in the order of the threads and without touching the table,
  if and only if the build is a release build or no pending notification lacks a callback: that one
  a debug build never gets past, however it goes on.\<close>

theorem rounds_drain:
  assumes R: "rest_laws R" and E: "order_ok E" and w: "reachable net_init (static_step R E nd) w"
    and ans: "\<And>n. survives (snd (ans n))"
  shows "if nd \<or> (\<forall>ns \<in> set (rounds w). \<forall>(cb, r, c) \<in> set ns. cb \<noteq> [])
    then \<exists>w'. run (static_step R E nd) w (serve_all ans (rounds w)) w' \<and>
      rounds w' = replicate (length (rounds w)) [] \<and> theTable (proxy w') = theTable (proxy w)
    else \<forall>es w'. run (static_step R E nd) w es w' \<longrightarrow> concat (rounds w') \<noteq> []"
proof -
  have cb: "(\<forall>(cb, r, c) \<in> set ns. cb \<noteq> []) \<longleftrightarrow> (\<forall>n \<in> set ns. fst n \<noteq> [])" for ns :: "notification list"
    by fastforce
  have "net_inv nd w" using static_system.inv_reachable [OF w] R E by blast
  note all = drain_all [where ans = ans, OF R E this _ ans]
  have "concat (rounds w') \<noteq> []"
    if "\<not> nd" "ns \<in> set (rounds w)" "n \<in> set ns" "fst n = []" "run (static_step R E nd) w es w'" for ns n es w'
    using callbackless_run [of R E w es w' ns n] that by fastforce
  then show ?thesis using all unfolding cb by auto
qed

theorem rounds_drain_witness:
  "\<exists>w'. run (static_step jrest sample_env False) sample_net [Notify 1 True (Ret 204)] w' \<and> rounds w' = [[], []]"
proof -
  have "\<forall>ns \<in> set (rounds sample_net). \<forall>(cb, r, c) \<in> set ns. cb \<noteq> []" by (simp add: sample_net_def)
  with rounds_drain [where ans = "\<lambda>_. (True, Ret 204)" and nd = False, OF jrest_laws sample_env_ok(1) sample_reachable]
  have "\<exists>w'. run (static_step jrest sample_env False) sample_net (serve_all (\<lambda>_. (True, Ret 204)) (rounds sample_net)) w' \<and>
      rounds w' = replicate (length (rounds sample_net)) []" by auto
  then show ?thesis by (simp add: serve_all_def) (simp add: sample_net_def)
qed

section \<open>Contexts\<close>

text \<open>C9. createContext, on every branch, for a parsed request and an unused context ID. An unknown
  application or a client without route gets its request back and nothing is stored. Otherwise a
  plain request (without contextId, its appInfo a request) is answered with a response with that
  context ID and the router of the client, and the context and its index entry are stored, keeping
  the invariant; when the UE application ID is already in use a debug build aborts, and a release
  build answers with a context that the index does not lead to. Any other request stores nothing: a
  release build throws, a debug build throws for a complete response and aborts for the rest.\<close>

theorem createContext_correct:
  assumes R: "rest_laws R" and inv: "static_sound s" and j: "context_ok R j ue info"
    and n: "appName R nd info = Ret n" and k: "mangle R nd info = Ret k"
    and uuid: "uuid \<noteq> []" "map_of (theApplicationsByContextId s) uuid = None"
  shows "case (map_of (theApplications s) k, route (map_of (theTable s)) addr n) of
      (Some _, Some r) \<Rightarrow>
        if string_field R j ''contextId'' = None \<and> request_info R info then
          let d = \<lparr>theAssociateUeAppId = ue, theCallbackReference = callbackReference R j,
                theClientAddress = addr, theAppName = n, theEdgeRouterEndpoint = r\<rparr>
          in \<exists>resp info'. AppContext_type R nd resp = Ret Response \<and> contextId R resp = uuid \<and>
            associateUeAppId R nd resp = Ret ue \<and> appInfo R nd resp = Ret info' \<and>
            referenceUri R nd info' = Ret r \<and>
            (if map_of (theApplicationsByUeAppId s) ue = None
             then createContext R nd uuid addr j s = (Ret resp, with_context uuid d s) \<and>
               static_sound (with_context uuid d s) \<and> (static_inv s \<longrightarrow> static_inv (with_context uuid d s))
             else let s' = s\<lparr>theApplicationsByContextId := (uuid, d) # theApplicationsByContextId s\<rparr>
               in createContext R nd uuid addr j s = (if nd then Ret resp else Abort, s') \<and> static_sound s')
        else if nd \<or> string_field R j ''contextId'' \<noteq> None \<and> response_info R info
          then \<exists>m. createContext R nd uuid addr j s = (Raise (RuntimeError m), s)
        else createContext R nd uuid addr j s = (Abort, s)
    | _ \<Rightarrow> createContext R nd uuid addr j s = (Ret j, s)"
proof -
  have acc: "app_acceptable R info"
    using j AppInfo_of_json_sound [OF R, of info info] by (auto simp: context_ok_def)
  have k': "k = app_key R info" using k mangle_app_key [OF R acc, of nd] by simp
  obtain n' where n': "fName (app_fields_of R info) = Some n'" by (rule context_ok_name [OF R j])
  then have nn: "fName (app_fields_of R info) = Some n" using n fields_appName(1) [OF R n', of nd] by simp
  then have ne: "n \<noteq> []" using acc by (auto simp: app_acceptable_def)
  note eq = createContext_parsed [OF R j nn, of nd uuid addr s, folded k']
  show ?thesis
  proof (cases "map_of (theApplications s) k = None \<or> route (map_of (theTable s)) addr n = None")
    case True
    then have "createContext R nd uuid addr j s = (Ret j, s)" by (auto simp: eq)
    then show ?thesis using True by (cases "map_of (theApplications s) k") auto
  next
    case False
    then obtain i r where app: "map_of (theApplications s) k = Some i" "map_of (theApplications s) (app_key R info) \<noteq> None"
      and r: "route (map_of (theTable s)) addr n = Some r" by (auto simp: k')
    have r0: "r \<noteq> []" using table_ok_route static_soundD(5) [OF inv] r by blast
    show ?thesis
    proof (cases "string_field R j ''contextId'' = None \<and> request_info R info")
      case True
      let ?d = "new_desc R j ue addr n r"
      obtain resp info' where resp: "context_ok R resp ue info'" "contextId R resp = uuid"
        "referenceUri R nd info' = Ret r" "AppContext_type R nd resp = Ret Response"
        "createContext R nd uuid addr j s =
          (if nd \<or> map_of (theApplicationsByUeAppId s) ue = None then Ret resp else Abort, entered uuid ?d s)"
        using createContext_stores [OF R j _ _ nn app(2) r r0 uuid, where nd = nd] True by metis
      have inv': "static_sound (entered uuid ?d s)"
        using ne uuid r by (intro static_sound_entered [OF inv]) (simp_all add: new_desc_def desc_route_def)
      have "createContext R nd uuid addr j s = (Ret resp, with_context uuid ?d s) \<and>
          static_sound (with_context uuid ?d s) \<and> (static_inv s \<longrightarrow> static_inv (with_context uuid ?d s))"
        if "map_of (theApplicationsByUeAppId s) ue = None"
      proof -
        have f: "entered uuid ?d s = with_context uuid ?d s" using that by (intro entered_fresh) (simp add: new_desc_def)
        show ?thesis using that resp(5) inv' linked_entered [OF _ uuid(2), of ?d]
          unfolding f by (simp add: new_desc_def static_inv_iff)
      qed
      moreover have "createContext R nd uuid addr j s = (if nd then Ret resp else Abort, s') \<and> static_sound s'"
        if "map_of (theApplicationsByUeAppId s) ue \<noteq> None"
          "s' = s\<lparr>theApplicationsByContextId := (uuid, ?d) # theApplicationsByContextId s\<rparr>" for s'
      proof -
        have "entered uuid ?d s = s'" unfolding that(2) using that(1) by (intro entered_used) (simp add: new_desc_def)
        with inv' resp(5) that(1) show ?thesis by auto
      qed
      ultimately have "if map_of (theApplicationsByUeAppId s) ue = None
          then createContext R nd uuid addr j s = (Ret resp, with_context uuid ?d s) \<and>
            static_sound (with_context uuid ?d s) \<and> (static_inv s \<longrightarrow> static_inv (with_context uuid ?d s))
          else let s' = s\<lparr>theApplicationsByContextId := (uuid, ?d) # theApplicationsByContextId s\<rparr>
            in createContext R nd uuid addr j s = (if nd then Ret resp else Abort, s') \<and> static_sound s'"
        by (simp only: Let_def) simp
      with resp(2-4) context_ok_getters(1,2) [OF R resp(1), of nd] show ?thesis
        unfolding app(1) r prod.case option.case new_desc_def Let_def by (simp only: True if_True simp_thms) blast
    next
      case False
      have "createContext R nd uuid addr j s = (x, s)" if "makeResponse R nd j uuid r = x" "\<not> returns x" for x
        using that app(1) r by (cases x) (simp_all add: eq)
      with makeResponse_refused [OF R j False, of nd uuid r] show ?thesis
        unfolding app(1) r prod.case option.case by (simp only: False if_False) (auto split: if_splits)
    qed
  qed
qed

theorem createContext_correct_witness:
  "\<exists>resp. createContext jrest False ''c1'' ''10.0.0.1'' sample_request sample_table = (Ret resp, sample_static) \<and>
     contextId jrest resp = ''c1''"
  using createContext_correct [where nd = False and uuid = "''c1''" and addr = "''10.0.0.1''",
      OF jrest_laws static_inv_sound [OF sample_table_inv] sample_parsed(1,4,5)] sample_parsed(2,3)
  by (auto simp: sample_table_def route_def sample_static_def sample_desc_def Let_def sample_callback)

text \<open>Creating a context and deleting it by its ID restores the state, and a second deletion finds
  nothing; a refused creation has no effect.\<close>

theorem create_then_delete:
  assumes R: "rest_laws R" and inv: "static_inv s" and j: "AppContext_of_json R j = Ret j"
    and uuid: "map_of (theApplicationsByContextId s) uuid = None"
    and ue: "associateUeAppId R nd j = Ret ue" "map_of (theApplicationsByUeAppId s) ue = None"
    and create: "createContext R nd uuid addr j s = (Ret resp, s1)"
  shows "if resp = j then s1 = s
    else deleteContext nd uuid s1 = (Ret True, s) \<and> deleteContext nd uuid s = (Ret False, s)"
proof -
  obtain ue' info where c: "context_ok R j ue' info" by (rule parsed_context [OF R j])
  then have ue': "ue' = ue" using ue(1) context_ok_getters(1) [OF R c, of nd] by simp
  obtain n where n: "fName (app_fields_of R info) = Some n" by (rule context_ok_name [OF R c])
  have del: "deleteContext nd uuid s = (Ret False, s)"
    using uuid by (simp add: deleteContext_cases)
  note D = static_inv_iff [THEN iffD1, OF inv]
  have "entered uuid (new_desc R j ue addr n r) s = with_context uuid (new_desc R j ue addr n r) s" for r
    using ue(2) by (intro entered_fresh) (simp add: new_desc_def)
  with createContext_inv [OF R conjunct1 [OF D] c create _ n] uuid ue(2) ue' D
  have cases: "resp = j \<and> s1 = s \<or> (\<exists>r. s1 = with_context uuid (new_desc R j ue addr n r) s \<and> static_inv s1 \<and>
      accepted_response R resp \<and> plain_request R j)"
    by (auto simp: static_inv_iff split: if_splits)
  then show ?thesis
  proof
    assume "\<exists>r. s1 = with_context uuid (new_desc R j ue addr n r) s \<and> static_inv s1 \<and>
      accepted_response R resp \<and> plain_request R j"
    then obtain r where s1: "s1 = with_context uuid (new_desc R j ue addr n r) s" "static_inv s1"
      and kinds: "accepted_response R resp" "plain_request R j" by blast
    have "drop_context uuid s1 = s"
      using inv uuid ue(2) unfolding s1(1)
      by (intro drop_with_context) (simp_all add: static_inv_def new_desc_def)
    then have "deleteContext nd uuid s1 = (Ret True, s)"
      using deleteContext_eq [OF static_invD(6) [OF s1(2)], of nd uuid] by (simp add: s1(1))
    moreover have "resp \<noteq> j"
      using accepted_response_replies(1) [OF R kinds(1), of True] plain_request_type [OF R kinds(2), of True]
      by auto
    ultimately show ?thesis using del by simp
  qed simp
qed

theorem create_then_delete_witness:
  "deleteContext False ''c1'' sample_static = (Ret True, sample_table)"
proof -
  have "AppContext_of_json jrest sample_request = Ret sample_request"
    "associateUeAppId jrest False sample_request = Ret ''ue1''" by code_simp+
  moreover have "createContext jrest False ''c1'' ''10.0.0.1'' sample_request sample_table =
      (Ret sample_response, sample_static)" by code_simp
  moreover have "sample_response \<noteq> sample_request" by (simp add: sample_response_def sample_request_def)
  ultimately show ?thesis
    using create_then_delete [OF jrest_laws sample_table_inv, of sample_request "''c1''" False "''ue1''"
      "''10.0.0.1''" sample_response sample_static] by (auto simp: sample_table_def)
qed

text \<open>C15. updateContext finds the context by its UE application ID: if there is none it answers false and
  changes nothing, otherwise it replaces the callback of that context and of no other, and keeps
  the invariant.\<close>

theorem updateContext_correct:
  assumes R: "rest_laws R" and inv: "static_inv s" and j: "AppContext_of_json R j = Ret j"
    and ue: "associateUeAppId R nd j = Ret ue"
  shows "(\<forall>c d. map_of (theApplicationsByContextId s) c = Some d \<longrightarrow> theAssociateUeAppId d \<noteq> ue) \<and>
      updateContext R nd j s = (Ret False, s) \<or>
    (\<exists>c d s'. map_of (theApplicationsByContextId s) c = Some d \<and> theAssociateUeAppId d = ue \<and>
      updateContext R nd j s = (Ret True, s') \<and> static_inv s' \<and>
      map_of (theApplicationsByContextId s') = (map_of (theApplicationsByContextId s))
        (c \<mapsto> d\<lparr>theCallbackReference := callbackReference R j\<rparr>) \<and>
      theApplicationsByUeAppId s' = theApplicationsByUeAppId s \<and> theTable s' = theTable s)"
proof (cases "map_of (theApplicationsByUeAppId s) ue")
  case None
  then have "updateContext R nd j s = (Ret False, s)" by (simp add: updateContext_def ue)
  moreover have "theAssociateUeAppId d \<noteq> ue" if "map_of (theApplicationsByContextId s) c = Some d" for c d
    using static_inv_context(4) [OF inv that] None by auto
  ultimately show ?thesis by blast
next
  case (Some c)
  then obtain d where d: "map_of (theApplicationsByContextId s) c = Some d" "theAssociateUeAppId d = ue"
    using static_invD(6) [OF inv] by (auto simp: linked_def)
  let ?d = "d\<lparr>theCallbackReference := callbackReference R j\<rparr>"
  let ?s = "s\<lparr>theApplicationsByContextId := umap_assign c ?d (theApplicationsByContextId s)\<rparr>"
  have u: "updateContext R nd j s = (Ret True, ?s)" by (simp add: updateContext_def ue Some d(1))
  moreover have "map_of (theApplicationsByContextId ?s) = (map_of (theApplicationsByContextId s))(c \<mapsto> ?d)"
    using umap.lookup_assign [OF static_invD(2) [OF inv] d(1)] by simp
  moreover have "static_inv ?s" using updateContext_inv [OF static_inv_sound [OF inv] u] inv by (simp add: static_inv_iff)
  moreover note d
  ultimately show ?thesis
    by - (rule disjI2, rule exI [of _ c], rule exI [of _ d], rule exI [of _ ?s], simp)
qed

theorem updateContext_correct_witness:
  "\<exists>s'. updateContext jrest False sample_request sample_static = (Ret True, s') \<and> static_inv s'"
proof -
  have "AppContext_of_json jrest sample_request = Ret sample_request"
    "associateUeAppId jrest False sample_request = Ret ''ue1''" by code_simp+
  note c = updateContext_correct [OF jrest_laws sample_static_inv this]
  have "map_of (theApplicationsByContextId sample_static) ''c1'' = Some sample_desc"
    "theAssociateUeAppId sample_desc = ''ue1''" by (simp_all add: sample_contexts sample_desc_def)
  with c show ?thesis by blast
qed

text \<open>A run after which a context has no route.\<close>

definition crash_events :: "json event list" where
  "crash_events = [AddApp sample_info, Associate ''10.0.0.1'' ''app'' ''http://r1'',
     Create ''c1'' ''10.0.0.1'' sample_request, Remove ''10.0.0.1'' ''app'']"

definition crash_net :: "json net" where
  "crash_net = \<lparr>proxy = \<lparr>theApplications = [(''app+prov+1.0'', sample_info)], theTable = [],
     theApplicationsByContextId = [(''c1'', sample_desc\<lparr>theEdgeRouterEndpoint := []\<rparr>)],
     theApplicationsByUeAppId = [(''ue1'', ''c1'')]\<rparr>, rounds = [[], []]\<rparr>"

lemma crash_run: "run (static_step jrest sample_env nd) \<lparr>proxy = static_init, rounds = []\<rparr> crash_events crash_net"
proof -
  let ?w0 = "\<lparr>proxy = static_init, rounds = []\<rparr> :: json net"
  let ?w1 = "\<lparr>proxy = static_init\<lparr>theApplications := [(''app+prov+1.0'', sample_info)]\<rparr>, rounds = []\<rparr>"
  let ?w2 = "\<lparr>proxy = sample_table, rounds = [[]]\<rparr>"
  let ?w3 = "\<lparr>proxy = sample_static, rounds = [[]]\<rparr>"
  have "AppInfo_of_json jrest sample_info = Ret sample_info" by code_simp
  moreover have "addApp jrest nd sample_info static_init =
      (Ret True, static_init\<lparr>theApplications := [(''app+prov+1.0'', sample_info)]\<rparr>)"
    by (simp add: addApp_eq [OF sample_parsed(5)] put_via_def static_init_def)
  ultimately have 1: "static_step jrest sample_env nd ?w0 (AddApp sample_info) ?w1"
    using step_add [of jrest sample_info nd ?w0] by simp
  have "associateAddress_locked sample_env nd ''10.0.0.1'' ''app'' ''http://r1''
      (static_init\<lparr>theApplications := [(''app+prov+1.0'', sample_info)]\<rparr>) = (Ret [], sample_table)"
    by (simp add: associateAddress_cases static_init_def sample_env_def sample_table_def umap_emplace_def
        umap_assign_def)
  then have 2: "static_step jrest sample_env nd ?w1 (Associate ''10.0.0.1'' ''app'' ''http://r1'') ?w2"
    using step_associate [of sample_env nd "''10.0.0.1''" "''app''" "''http://r1''" ?w1 "[]" sample_table jrest] by simp
  have "AppContext_of_json jrest sample_request = Ret sample_request" by code_simp
  moreover have "createContext jrest nd ''c1'' ''10.0.0.1'' sample_request sample_table =
      (Ret sample_response, sample_static)" by (induction nd rule: bool.induct) code_simp+
  ultimately have 3: "static_step jrest sample_env nd ?w2 (Create ''c1'' ''10.0.0.1'' sample_request) ?w3"
    using step_create [of jrest sample_request ?w2 "''c1''" nd] by (simp add: sample_table_def)
  have "removeAddress_locked sample_env nd ''10.0.0.1'' ''app'' sample_static = (Ret [], proxy crash_net)"
    by (induction nd rule: bool.induct) code_simp+
  then have 4: "static_step jrest sample_env nd ?w3 (Remove ''10.0.0.1'' ''app'') crash_net"
    using step_remove [of sample_env nd "''10.0.0.1''" "''app''" ?w3 "[]" "proxy crash_net" jrest] by (simp add: crash_net_def)
  from 1 2 3 4 show ?thesis unfolding crash_events_def run_Cons run_Nil by blast
qed

text \<open>C20. The crash of associateAddress is reachable: after a context has lost its only route, associating
  another client of the same application dereferences the end of the table (an assertion in a
  debug build, undefined in a release build).\<close>

theorem associate_crash_reachable:
  "reachable net_init (static_step jrest sample_env nd) crash_net \<and>
   associateAddress jrest sample_env nd ''10.0.0.2'' ''app'' ''http://r2'' (proxy crash_net) =
     (if nd then Undef else Abort,
      (proxy crash_net)\<lparr>theTable := [(AddressAppKey ''10.0.0.2'' ''app'', ''http://r2'')]\<rparr>)"
proof
  show "reachable net_init (static_step jrest sample_env nd) crash_net"
    by (rule run_reachable [OF crash_run]) (auto intro: reachable_init simp: net_init_def)
  show "associateAddress jrest sample_env nd ''10.0.0.2'' ''app'' ''http://r2'' (proxy crash_net) =
     (if nd then Undef else Abort,
      (proxy crash_net)\<lparr>theTable := [(AddressAppKey ''10.0.0.2'' ''app'', ''http://r2'')]\<rparr>)"
    by (induction nd rule: bool.induct) code_simp+
qed

end
