(* ===== verification/Static_Http.thy ===== *)
theory Static_Http
  imports Static_Properties
begin

text \<open>
  The HTTP interface of the static proxy: the handlers of \<open>UeAppLcmProxy\<close> over the virtual
  functions of \<open>StaticUeAppLcmProxy\<close>, through the interface \<open>lcm_store\<close>.
\<close>

text \<open>C17. The handler of POST app_contexts over the static proxy, for a plain request (without contextId,
  its appInfo a request) and an unused context ID: it is answered 403 with the state unchanged when
  the application is unknown or the client has no route, and otherwise 201 with a response that
  carries the new context ID, which is then the only new context, with the client's address and
  router. When the UE application ID is in use a debug build aborts; a release build answers 201 all
  the same, and the index still leads to the older context only.\<close>

theorem http_create:
  fixes R :: "('j, 't) rest_api"
  assumes R: "rest_laws R" and inv: "static_sound s"
    and j: "json_body req = Ret j" "AppContext_of_json R j = Ret j" "plain_request R j"
    and i: "appInfo R nd j = Ret info" "mangle R nd info = Ret k" "appName R nd info = Ret n"
    and ue: "associateUeAppId R nd j = Ret ue"
    and uuid: "uuid \<noteq> []" "map_of (theApplicationsByContextId s) uuid = None"
  shows "if map_of (theApplications s) k = None \<or> route (map_of (theTable s)) (remote_address req) n = None
    then \<exists>rep. handleContextCreate R nd (createContext R nd uuid) req s = (Ret rep, s) \<and> reply_status rep = status_Forbidden
    else \<exists>s' d. context_ids s' = insert uuid (context_ids s) \<and> static_sound s' \<and>
      map_of (theApplicationsByContextId s') = (map_of (theApplicationsByContextId s))(uuid \<mapsto> d) \<and>
      theAssociateUeAppId d = ue \<and> theClientAddress d = remote_address req \<and> theAppName d = n \<and>
      route (map_of (theTable s)) (remote_address req) n = Some (theEdgeRouterEndpoint d) \<and>
      (if map_of (theApplicationsByUeAppId s) ue = None
       then map_of (theApplicationsByUeAppId s') = (map_of (theApplicationsByUeAppId s))(ue \<mapsto> uuid) \<and>
         (static_inv s \<longrightarrow> static_inv s')
       else theApplicationsByUeAppId s' = theApplicationsByUeAppId s) \<and>
      (if nd \<or> map_of (theApplicationsByUeAppId s) ue = None
       then \<exists>resp. handleContextCreate R nd (createContext R nd uuid) req s = (Ret (Reply status_Created (Some resp)), s') \<and>
         accepted_response R resp \<and> contextId R resp = uuid
       else handleContextCreate R nd (createContext R nd uuid) req s = (Abort, s'))"
proof -
  let ?addr = "remote_address req"
  obtain ue' info' where c: "context_ok R j ue' info'" "request_info R info'"
    and id: "string_field R j ''contextId'' = None"
    using j(3) by (auto simp: plain_request_def)
  have eqs: "ue' = ue" "info' = info"
    using context_ok_getters(1,2) [OF R c(1), of nd] ue i(1) by simp_all
  note ok = c(1) [unfolded eqs] and req = id c(2) [unfolded eqs]
  have acc: "app_acceptable R info"
    using ok AppInfo_of_json_sound [OF R, of info info] by (auto simp: context_ok_def)
  then have k: "k = app_key R info" using i(2) mangle_app_key [OF R acc, of nd] by simp
  obtain n' where n': "fName (app_fields_of R info) = Some n'" by (rule context_ok_name [OF R ok])
  then have nn: "fName (app_fields_of R info) = Some n" using i(3) fields_appName(1) [OF R n', of nd] by simp
  then have n0: "n \<noteq> []" using acc by (auto simp: app_acceptable_def)
  show ?thesis
  proof (cases "map_of (theApplications s) k = None \<or> route (map_of (theTable s)) ?addr n = None")
    case True
    then have "createContext R nd uuid ?addr j s = (Ret j, s)"
      by (auto simp: createContext_parsed [OF R ok nn] k)
    then show ?thesis
      using j plain_request_type [OF R j(3), of nd] True
      by (auto simp: handleContextCreate_def problem_reply_def problem_status_eq [OF R])
  next
    case False
    then obtain r where r: "route (map_of (theTable s)) ?addr n = Some r" by auto
    then have r0: "r \<noteq> []" using table_ok_route static_soundD(5) [OF inv] by blast
    have known: "map_of (theApplications s) (app_key R info) \<noteq> None" using False k by simp
    let ?d = "new_desc R j ue ?addr n r"
    let ?s = "entered uuid ?d s"
    obtain resp where m: "makeResponse R nd j uuid r = Ret resp" "contextId R resp = uuid"
      and create: "createContext R nd uuid ?addr j s =
        (if nd \<or> map_of (theApplicationsByUeAppId s) ue = None then Ret resp else Abort, ?s)"
      by (rule createContext_stores [OF R ok req nn known r r0 uuid, where nd = nd])
    note acc = makeResponse_accepted [OF R ok req uuid(1) r0 m(1)]
    have "if nd \<or> map_of (theApplicationsByUeAppId s) ue = None
       then handleContextCreate R nd (createContext R nd uuid) req s = (Ret (Reply status_Created (Some resp)), ?s)
       else handleContextCreate R nd (createContext R nd uuid) req s = (Abort, ?s)"
    proof (cases "nd \<or> map_of (theApplicationsByUeAppId s) ue = None")
      case True
      with create have "createContext R nd uuid ?addr j s = (Ret resp, ?s)" by simp
      from handleContextCreate_accepted [where create = "createContext R nd uuid" and nd = nd, OF R j(1,2) this acc(1)]
      show ?thesis using True by simp
    next
      case False
      with create have "createContext R nd uuid ?addr j s = (Abort, ?s)" by simp
      then show ?thesis using False by (simp add: handleContextCreate_def j)
    qed
    moreover have "static_sound ?s"
      using n0 uuid r by (intro static_sound_entered [OF inv]) (simp_all add: new_desc_def desc_route_def)
    moreover have "static_inv s \<longrightarrow> map_of (theApplicationsByUeAppId s) ue = None \<longrightarrow> static_inv ?s"
      using linked_entered [OF _ uuid(2), of ?d] calculation(2) by (simp add: new_desc_def static_inv_iff)
    moreover have "map_of (theApplicationsByUeAppId s) ue = None \<Longrightarrow>
        map_of (theApplicationsByUeAppId ?s) = (map_of (theApplicationsByUeAppId s))(ue \<mapsto> uuid)"
      "map_of (theApplicationsByUeAppId s) ue \<noteq> None \<Longrightarrow> theApplicationsByUeAppId ?s = theApplicationsByUeAppId s"
      by (simp_all add: entered_def new_desc_def umap_emplace_def)
    moreover have "context_ids ?s = insert uuid (context_ids s)" by (auto simp: context_ids_def)
    moreover have "theAssociateUeAppId ?d = ue \<and> theClientAddress ?d = ?addr \<and> theAppName ?d = n \<and>
        theEdgeRouterEndpoint ?d = r" by (simp add: new_desc_def)
    ultimately show ?thesis
      unfolding if_not_P [OF False] using acc m(2) r
      by (intro exI [of _ ?s] exI [of _ ?d]) (auto split: if_splits)
  qed
qed

definition sample_post :: "json http_request" where
  "sample_post = \<lparr>remote_address = ''10.0.0.1'', json_body = Ret sample_request,
     relative_path = ''app_contexts'', relative_uri = ''app_contexts''\<rparr>"

theorem http_create_witness:
  "\<exists>rep s'. handleContextCreate jrest False (createContext jrest False ''c1'') sample_post sample_table = (Ret rep, s') \<and>
    reply_status rep = 201"
proof -
  have f: "AppContext_of_json jrest sample_request = Ret sample_request"
    "associateUeAppId jrest False sample_request = Ret ''ue1''" "appInfo jrest False sample_request = Ret sample_info"
    by code_simp+
  have "plain_request jrest sample_request" using sample_parsed unfolding plain_request_def by blast
  then show ?thesis
    using http_create [OF jrest_laws static_inv_sound [OF sample_table_inv] _ f(1) _ f(3) sample_parsed(5,4) f(2), of sample_post "''c1''"]
    by (auto simp: sample_post_def sample_table_def route_def)
qed

text \<open>The handler of PUT app_contexts over the static proxy: the answer is 204 when a context has the
  UE application ID of the body, and 403 with the state unchanged when none has; no context
  appears or disappears.\<close>

theorem http_update:
  fixes R :: "('j, 't) rest_api"
  assumes R: "rest_laws R" and inv: "static_inv s"
    and j: "json_body req = Ret j" "AppContext_of_json R j = Ret j" and ue: "associateUeAppId R nd j = Ret ue"
  shows "\<exists>rep s'. handleContextUpdate R (updateContext R nd) req s = (Ret rep, s') \<and> static_inv s' \<and>
    context_ids s' = context_ids s \<and>
    (if map_of (theApplicationsByUeAppId s) ue = None then reply_status rep = status_Forbidden \<and> s' = s
     else rep = Reply status_NoContent None)"
proof -
  obtain b s' where u: "updateContext R nd j s = (Ret b, s')" "b \<longleftrightarrow> map_of (theApplicationsByUeAppId s) ue \<noteq> None"
  proof (cases "map_of (theApplicationsByUeAppId s) ue")
    case None
    then show thesis by (intro that [of False s]) (simp_all add: updateContext_def ue)
  next
    case (Some c)
    then obtain d where "map_of (theApplicationsByContextId s) c = Some d"
      using static_invD(6) [OF inv] by (auto simp: linked_def)
    then show thesis using Some by (intro that [of True]) (simp_all add: updateContext_def ue)
  qed
  then have h: "handleContextUpdate R (updateContext R nd) req s = (Ret (if b then Reply status_NoContent None
      else problem_reply R status_Forbidden ''Unknown or invalid UE application context''), s')"
    by (simp add: handleContextUpdate_def j)
  have "context_ids s' = context_ids s" "b \<or> s' = s"
    using updateContext_Ret [OF u(1)]
    by (auto simp: context_ids_def umap_assign_def map_of_map_entry split: if_splits)
  then show ?thesis
    using h u(2) updateContext_inv [OF static_inv_sound [OF inv] u(1)] inv
    by (auto simp: static_inv_iff problem_reply_def problem_status_eq [OF R])
qed


theorem http_update_witness:
  "\<exists>s'. handleContextUpdate jrest (updateContext jrest False) sample_post sample_static =
     (Ret (Reply status_NoContent None), s')"
proof -
  have "AppContext_of_json jrest sample_request = Ret sample_request"
    "associateUeAppId jrest False sample_request = Ret ''ue1''" by code_simp+
  from http_update [OF jrest_laws sample_static_inv _ this, of sample_post]
  show ?thesis by (auto simp: sample_post_def sample_contexts)
qed


text \<open>C19. A POST that already carries a contextId and a referenceURI, for an application that the proxy
  does not have, is echoed with 201, although no context exists.\<close>

theorem http_create_echo:
  assumes R: "rest_laws R" and body: "json_body req = Ret j"
    and j: "context_ok R j ue info" "response_info R info" "string_field R j ''contextId'' = Some cid"
      "AppContext_of_json R j = Ret j"
    and unknown: "mangle R nd info = Ret k" "map_of (theApplications s) k = None"
  shows "handleContextCreate R nd (createContext R nd uuid) req s = (Ret (Reply status_Created (Some j)), s)"
proof -
  have acc: "app_acceptable R info"
    using j(1) AppInfo_of_json_sound [OF R, of info info] by (auto simp: context_ok_def)
  then have k: "k = app_key R info" using unknown(1) mangle_app_key [OF R acc, of nd] by simp
  obtain n where "fName (app_fields_of R info) = Some n" by (rule context_ok_name [OF R j(1)])
  from createContext_parsed [OF R j(1) this] have c: "createContext R nd uuid a j s = (Ret j, s)" for a
    using unknown(2) k by simp
  have "accepted_response R j" using j by (auto simp: accepted_response_def)
  from handleContextCreate_accepted [where create = "createContext R nd uuid", OF R body j(4) c this]
  show ?thesis .
qed

theorem http_create_echo_witness:
  "handleContextCreate jrest False (createContext jrest False ''c9'')
     (sample_post\<lparr>json_body := Ret sample_response\<rparr>) static_init =
   (Ret (Reply status_Created (Some sample_response)), static_init)"
proof -
  have "context_ok jrest sample_response ''ue1'' sample_response_info" unfolding context_ok_def by code_simp
  moreover have "response_info jrest sample_response_info" by code_simp
  moreover have "string_field jrest sample_response ''contextId'' = Some ''c1''"
    "AppContext_of_json jrest sample_response = Ret sample_response"
    "mangle jrest False sample_response_info = Ret ''app+prov+1.0''" by code_simp+
  ultimately show ?thesis
    by (intro http_create_echo [OF jrest_laws]) (simp_all add: static_init_def)
qed

end
