(* ===== verification/Etsi_Utils.thy ===== *)
theory Etsi_Utils
  imports Ue_App_Lcm_Proxy
begin

text \<open>
  The string helpers of EtsiMec/utils.cpp, the URI that \<open>EtsiMecServer\<close> (etsimecserver.h) passes
  to its base class, the names that \<open>UeAppLcmProxy\<close> registers, and \<open>std::to_string\<close> on an
  unsigned number. The third function of utils.cpp, \<open>parseJson\<close>, is in \<open>Ue_App_Lcm_Proxy\<close>.
\<close>

section \<open>URIs\<close>

text \<open>The loop of \<open>removeTrailingSlashes\<close>.\<close>

function removeTrailingSlashes :: "string \<Rightarrow> string" where
  "removeTrailingSlashes ret =
     (if ret \<noteq> [] \<and> last ret = CHR ''/'' then removeTrailingSlashes (butlast ret) else ret)"
  by auto
termination by (relation "measure length") (auto simp: less_Suc_eq_le intro: diff_less)

declare removeTrailingSlashes.simps [simp del]

definition staticApiName :: string where
  "staticApiName = ''mx2''"

definition staticApiVersion :: string where
  "staticApiVersion = ''v1''"

definition apiName :: string where
  "apiName = staticApiName"

definition apiVersion :: string where
  "apiVersion = staticApiVersion"

definition mx2root :: "string \<Rightarrow> string" where
  "mx2root aApiRoot =
     removeTrailingSlashes aApiRoot @ ''/'' @ staticApiName @ ''/'' @ staticApiVersion"

definition EtsiMecServer_root :: "string \<Rightarrow> string \<Rightarrow> string \<Rightarrow> string" where
  "EtsiMecServer_root aApiRoot aApiName aApiVersion =
     aApiRoot @ ''/'' @ aApiName @ ''/'' @ aApiVersion @ ''/''"

definition UeAppLcmProxy_root :: "string \<Rightarrow> string" where
  "UeAppLcmProxy_root aApiRoot = EtsiMecServer_root aApiRoot staticApiName staticApiVersion"

lemma removeTrailingSlashes_snoc [simp]:
  "removeTrailingSlashes [] = []"
  "removeTrailingSlashes (xs @ [CHR ''/'']) = removeTrailingSlashes xs"
  "c \<noteq> CHR ''/'' \<Longrightarrow> removeTrailingSlashes (xs @ [c]) = xs @ [c]"
  by (subst removeTrailingSlashes.simps; simp)+

lemma removeTrailingSlashes_replicate:
  "removeTrailingSlashes (xs @ replicate n CHR ''/'') = removeTrailingSlashes xs"
proof (induction n)
  case (Suc n)
  have "xs @ replicate (Suc n) CHR ''/'' = (xs @ replicate n CHR ''/'') @ [CHR ''/'']"
    by (simp add: replicate_append_same)
  then show ?case using Suc by (simp only: removeTrailingSlashes_snoc)
qed simp

lemma removeTrailingSlashes_decomp:
  "\<exists>n. s = removeTrailingSlashes s @ replicate n CHR ''/'' \<and>
     (removeTrailingSlashes s = [] \<or> last (removeTrailingSlashes s) \<noteq> CHR ''/'')"
proof (induction s rule: rev_induct)
  case (snoc c s)
  show ?case
  proof (cases "c = CHR ''/''")
    case True
    from snoc obtain n where n: "s = removeTrailingSlashes s @ replicate n CHR ''/''"
      "removeTrailingSlashes s = [] \<or> last (removeTrailingSlashes s) \<noteq> CHR ''/''" by blast
    have "s @ [CHR ''/''] = removeTrailingSlashes s @ replicate (Suc n) CHR ''/''"
      by (subst n(1)) (simp add: replicate_append_same)
    then show ?thesis unfolding True removeTrailingSlashes_snoc using n(2) by blast
  next
    case False
    then show ?thesis by (intro exI [of _ 0]) simp
  qed
qed simp

section \<open>Decimal numbers\<close>

definition digit :: "nat \<Rightarrow> char" where
  "digit d = char_of (48 + d)"

fun to_string :: "nat \<Rightarrow> string" where
  "to_string n = (if n < 10 then [digit n] else to_string (n div 10) @ [digit (n mod 10)])"

declare to_string.simps [simp del]

lemma digit_inject: "a < 10 \<Longrightarrow> b < 10 \<Longrightarrow> digit a = digit b \<longleftrightarrow> a = b"
proof -
  assume "a < 10" "b < 10"
  then have "of_char (digit a) = 48 + a" "of_char (digit b) = 48 + b"
    by (simp_all add: digit_def)
  then show "digit a = digit b \<longleftrightarrow> a = b" by (metis add_left_cancel)
qed

lemma to_string_small: "n < 10 \<Longrightarrow> to_string n = [digit n]"
  by (subst to_string.simps) simp

lemma to_string_large: "\<not> n < 10 \<Longrightarrow> to_string n = to_string (n div 10) @ [digit (n mod 10)]"
  by (subst to_string.simps) simp

lemma to_string_not_Nil [simp]: "to_string n \<noteq> []" "[] \<noteq> to_string n"
  by (cases "n < 10"; auto simp: to_string_small to_string_large)+

lemma to_string_inject: "to_string m = to_string n \<longleftrightarrow> m = n"
proof (induction m arbitrary: n rule: to_string.induct)
  case (1 m)
  show ?case
  proof
    assume eq: "to_string m = to_string n"
    show "m = n"
    proof (cases "m < 10")
      case True
      then have "n < 10" using eq by (cases "n < 10") (auto simp: to_string_small to_string_large)
      then show ?thesis using eq True by (simp add: to_string_small digit_inject)
    next
      case False
      then have n: "\<not> n < 10" using eq by (auto simp: to_string_small to_string_large)
      then have "to_string (m div 10) = to_string (n div 10)" "digit (m mod 10) = digit (n mod 10)"
        using eq False by (simp_all add: to_string_large)
      then have "m div 10 = n div 10" "m mod 10 = n mod 10"
        using 1 [OF False] digit_inject [of "m mod 10" "n mod 10"] by simp_all
      then show ?thesis by (metis div_mult_mod_eq)
    qed
  qed simp
qed

section \<open>Properties\<close>

text \<open>removeTrailingSlashes removes exactly the trailing slashes and is idempotent, and mx2root gives,
  however many slashes end the API root, the root that the proxy registers its handlers under.\<close>

theorem mx2root_matches_server:
  "(\<exists>n. s = removeTrailingSlashes s @ replicate n CHR ''/'') \<and>
   (removeTrailingSlashes s = [] \<or> last (removeTrailingSlashes s) \<noteq> CHR ''/'') \<and>
   removeTrailingSlashes (removeTrailingSlashes s) = removeTrailingSlashes s \<and>
   mx2root (s @ replicate n CHR ''/'') @ ''/'' = UeAppLcmProxy_root (removeTrailingSlashes s)"
proof -
  obtain m where m: "s = removeTrailingSlashes s @ replicate m CHR ''/''"
    "removeTrailingSlashes s = [] \<or> last (removeTrailingSlashes s) \<noteq> CHR ''/''"
    using removeTrailingSlashes_decomp by blast
  then have "removeTrailingSlashes (removeTrailingSlashes s) = removeTrailingSlashes s"
    by (subst removeTrailingSlashes.simps) auto
  then show ?thesis using m
    by (auto simp: mx2root_def UeAppLcmProxy_root_def EtsiMecServer_root_def removeTrailingSlashes_replicate)
qed

theorem mx2root_matches_server_witness:
  "mx2root ''http://h//'' @ ''/'' = UeAppLcmProxy_root ''http://h''"
proof -
  have "removeTrailingSlashes ''http://h//'' = ''http://h''" by code_simp
  with mx2root_matches_server [of "''http://h//''" 0] show ?thesis by simp
qed

end
