(* ===== verification/Trivial_Proxy.thy ===== *)
theory Trivial_Proxy
  imports Etsi_Utils
begin

text \<open>
  \<open>TrivialUeAppLcmProxy\<close> (EtsiMec/trivialueapplcmproxy.h): the proxy that authorizes every
  request, or refuses every one, and numbers its contexts. It provides the interface
  \<open>lcm_backend\<close> of the HTTP handlers; it keeps no contexts, so it is no \<open>lcm_store\<close>.
\<close>

record 'j trivial_state = "'j lcm_state" +
  tClientAddress :: string
  theUpdated :: "64 word"
  theContextCounter :: "64 word"
  theContextId :: string
  theValidRequest :: bool

definition trivial_init :: "'j trivial_state" where
  "trivial_init = \<lparr>theApplications = [], tClientAddress = [], theUpdated = 0,
     theContextCounter = 0, theContextId = [], theValidRequest = True\<rparr>"

definition trivial_createContext ::
  "('j, 't, 'z) rest_api_scheme \<Rightarrow> bool \<Rightarrow> string \<Rightarrow> 'j \<Rightarrow> 'j trivial_state \<Rightarrow>
     'j res \<times> 'j trivial_state" where
  "trivial_createContext R nd aClientAddress aRequest s =
     (if theValidRequest s then
        let s = s\<lparr>tClientAddress := aClientAddress\<rparr>;
            s = s\<lparr>theContextCounter := theContextCounter s + 1\<rparr>
        in (makeResponse R nd aRequest
              (''context-id-'' @ to_string (unat (theContextCounter s)))
              (''reference-uri-'' @ to_string (unat (theContextCounter s))), s)
      else (Ret aRequest, s))"

definition trivial_updateContext :: "'j \<Rightarrow> 'j trivial_state \<Rightarrow> bool res \<times> 'j trivial_state" where
  "trivial_updateContext aRequest s =
     (let s = s\<lparr>theUpdated := theUpdated s + 1\<rparr> in (Ret (theValidRequest s), s))"

definition trivial_deleteContext :: "string \<Rightarrow> 'j trivial_state \<Rightarrow> bool res \<times> 'j trivial_state" where
  "trivial_deleteContext aContextId s =
     (let s = s\<lparr>theContextId := aContextId\<rparr> in (Ret (theValidRequest s), s))"

lemma plain_makeResponse:
  assumes R: "rest_laws R" and j: "plain_request R j" and "cid \<noteq> []" "uri \<noteq> []"
  shows "\<exists>resp. makeResponse R nd j cid uri = Ret resp \<and> accepted_response R resp \<and>
    contextId R resp = cid"
proof -
  obtain ue info where ok: "context_ok R j ue info" "request_info R info"
    "string_field R j ''contextId'' = None"
    using j by (auto simp: plain_request_def)
  obtain resp where r: "makeResponse R nd j cid uri = Ret resp"
    using makeResponse_request [OF R ok(1,3,2) assms(3,4)] by metis
  with makeResponse_accepted [OF R ok(1,3,2) assms(3,4) r] show ?thesis by auto
qed

interpretation trivial: lcm_backend R nd "trivial_createContext R nd" "\<lambda>s. omap_ok (theApplications s)"
  for R :: "('j, 't) rest_api" and nd
proof
  fix s s' :: "'j trivial_state" and req resp addr
  assume R: "rest_laws R" and req: "plain_request R req"
    and c: "trivial_createContext R nd addr req s = (Ret resp, s')"
  show "resp = req \<or> accepted_response R resp"
    using c plain_makeResponse [OF R req, of
        "''context-id-'' @ to_string (unat (theContextCounter s + 1))"
        "''reference-uri-'' @ to_string (unat (theContextCounter s + 1))" nd]
    by (auto simp: trivial_createContext_def Let_def split: if_splits)
next
  fix s s' :: "'j trivial_state" and req resp addr
  assume "omap_ok (theApplications s)" "trivial_createContext R nd addr req s = (Ret resp, s')"
  then show "omap_ok (theApplications s')"
    by (auto simp: trivial_createContext_def Let_def split: if_splits)
qed

text \<open>The requests granted one after the other.\<close>

fun grant_all ::
  "('j, 't, 'z) rest_api_scheme \<Rightarrow> bool \<Rightarrow> (string \<times> 'j) list \<Rightarrow> 'j trivial_state \<Rightarrow>
     'j list res \<times> 'j trivial_state" where
  "grant_all R nd [] s = (Ret [], s)"
| "grant_all R nd ((addr, j) # reqs) s =
     and_then (trivial_createContext R nd addr j s) (\<lambda>resp s.
     and_then (grant_all R nd reqs s) (\<lambda>resps s. (Ret (resp # resps), s)))"

lemma grant_all_ids:
  assumes R: "rest_laws R" and "theValidRequest s" and "\<forall>(addr, j) \<in> set reqs. plain_request R j"
  shows "\<exists>resps s'. grant_all R nd reqs s = (Ret resps, s') \<and>
    theContextCounter s' = theContextCounter s + of_nat (length reqs) \<and>
    (\<forall>r \<in> set resps. accepted_response R r) \<and>
    map (contextId R) resps = map (\<lambda>i. ''context-id-'' @
      to_string (unat (theContextCounter s + of_nat i))) [1..<Suc (length reqs)]"
  using assms(2,3)
proof (induction reqs arbitrary: s)
  case (Cons r reqs)
  obtain addr j where r: "r = (addr, j)" by (cases r)
  let ?s = "s\<lparr>tClientAddress := addr, theContextCounter := theContextCounter s + 1\<rparr>"
  obtain resp where resp: "trivial_createContext R nd addr j s = (Ret resp, ?s)"
    "accepted_response R resp"
    "contextId R resp = ''context-id-'' @ to_string (unat (theContextCounter s + 1))"
    using plain_makeResponse [OF R, of j "''context-id-'' @ to_string (unat (theContextCounter s + 1))"
        "''reference-uri-'' @ to_string (unat (theContextCounter s + 1))" nd] Cons.prems
    by (auto simp: trivial_createContext_def r)
  obtain resps s' where IH: "grant_all R nd reqs ?s = (Ret resps, s')"
    "theContextCounter s' = theContextCounter s + 1 + of_nat (length reqs)"
    "\<forall>r \<in> set resps. accepted_response R r"
    "map (contextId R) resps = map (\<lambda>i. ''context-id-'' @
      to_string (unat (theContextCounter s + 1 + of_nat i))) [1..<Suc (length reqs)]"
    using Cons.IH [of ?s] Cons.prems by auto
  have "[1..<Suc (length (r # reqs))] = 1 # map Suc [1..<Suc (length reqs)]"
    by (simp add: upt_conv_Cons map_Suc_upt del: upt_Suc)
  then show ?case
    using resp IH by (auto simp: r ac_simps simp del: upt_Suc)
qed simp

section \<open>Properties\<close>

text \<open>C35. The trivial proxy, while it authorizes, answers every plain request with an accepted response,
  and fewer than 2^64 requests in a row, from any value of the counter, never get the same context
  ID, even when the counter wraps.\<close>

theorem trivial_ids_distinct:
  assumes R: "rest_laws R" and s: "theValidRequest s" and reqs: "\<forall>(addr, j) \<in> set reqs. plain_request R j"
    and few: "length reqs < 2 ^ 64"
  shows "\<exists>resps s'. grant_all R nd reqs s = (Ret resps, s') \<and> length resps = length reqs \<and>
    (\<forall>r \<in> set resps. accepted_response R r) \<and> distinct (map (contextId R) resps)"
proof -
  obtain resps s' where g: "grant_all R nd reqs s = (Ret resps, s')"
    "\<forall>r \<in> set resps. accepted_response R r"
    "map (contextId R) resps = map (\<lambda>i. ''context-id-'' @
      to_string (unat (theContextCounter s + of_nat i))) [1..<Suc (length reqs)]"
    using grant_all_ids [OF R s reqs, of nd] by blast
  have "inj_on (\<lambda>i. ''context-id-'' @ to_string (unat (theContextCounter s + of_nat i))) {1..<Suc (length reqs)}"
  proof (rule inj_onI)
    fix i j assume ij: "i \<in> {1..<Suc (length reqs)}" "j \<in> {1..<Suc (length reqs)}"
      and "''context-id-'' @ to_string (unat (theContextCounter s + of_nat i)) =
        ''context-id-'' @ to_string (unat (theContextCounter s + of_nat j))"
    then have "unat (theContextCounter s + of_nat i) = unat (theContextCounter s + of_nat j)"
      by (simp add: to_string_inject)
    then have "(of_nat i :: 64 word) = of_nat j" by (metis add_left_cancel word_unat_eq_iff)
    then show "i = j" using ij few by (simp add: unat_of_nat word_unat_eq_iff take_bit_eq_mod)
  qed
  then have "distinct (map (contextId R) resps)" unfolding g(3) by (simp add: distinct_map del: upt_Suc)
  moreover have "length resps = length reqs" using arg_cong [OF g(3), of length] by (simp del: upt_Suc)
  ultimately show ?thesis using g by blast
qed

theorem trivial_ids_distinct_witness:
  "\<exists>resps s'. grant_all jrest False [(''10.0.0.1'', sample_request), (''10.0.0.2'', sample_request)]
      trivial_init = (Ret resps, s') \<and> distinct (map (contextId jrest) resps)"
proof -
  have "context_ok jrest sample_request ''ue1'' sample_info" unfolding context_ok_def by code_simp
  moreover have "request_info jrest sample_info" "string_field jrest sample_request ''contextId'' = None"
    by code_simp+
  ultimately have "plain_request jrest sample_request" unfolding plain_request_def by blast
  then show ?thesis
    using trivial_ids_distinct [OF jrest_laws, of trivial_init
        "[(''10.0.0.1'', sample_request), (''10.0.0.2'', sample_request)]" False]
    by (auto simp: trivial_init_def)
qed

end
