(* ===== verification/Static_File_Proxy.thy ===== *)
theory Static_File_Proxy
  imports Static_Properties
begin

text \<open>
  \<open>StaticFileUeAppLcmProxy\<close> (EtsiMec/staticfileueapplcmproxy.cpp): the constructor that fills
  the table from a file of three columns. The file is its text, or \<open>None\<close> when it cannot be
  opened; the input stream is its rest with the flags \<open>eof\<close> and \<open>fail\<close>, and \<open>read_word\<close> is
  \<open>operator>>\<close> on a string in the C locale.
\<close>

section \<open>Reading words\<close>

definition is_space :: "char \<Rightarrow> bool" where
  "is_space c \<longleftrightarrow> c \<in> {CHR '' '', CHR 0x09, CHR 0x0A, CHR 0x0B, CHR 0x0C, CHR 0x0D}"

record istream =
  in_rest :: "string"
  in_eof :: bool
  in_fail :: bool

definition read_word :: "istream \<Rightarrow> string \<times> istream" where
  "read_word i =
     (if in_eof i \<or> in_fail i then ([], i\<lparr>in_fail := True\<rparr>)
      else
        let rest = dropWhile is_space (in_rest i)
        in if rest = [] then ([], i\<lparr>in_rest := [], in_eof := True, in_fail := True\<rparr>)
           else
             let rest' = dropWhile (\<lambda>c. \<not> is_space c) rest
             in (takeWhile (\<lambda>c. \<not> is_space c) rest,
                 i\<lparr>in_rest := rest', in_eof := (rest' = [])\<rparr>))"

lemma read_word_shorter:
  "read_word i = (w, i') \<Longrightarrow> \<not> in_fail i' \<Longrightarrow> length (in_rest i') < length (in_rest i)"
proof -
  assume e: "read_word i = (w, i')" "\<not> in_fail i'"
  let ?r = "dropWhile is_space (in_rest i)"
  have r: "?r \<noteq> []" "in_rest i' = dropWhile (\<lambda>c. \<not> is_space c) ?r"
    using e by (auto simp: read_word_def Let_def split: if_splits)
  then have "\<not> is_space (hd ?r)" using hd_dropWhile by blast
  then have "length (in_rest i') \<le> length (tl ?r)"
    using r by (cases ?r) (auto simp: length_dropWhile_le)
  also have "\<dots> < length ?r" using r(1) by (cases ?r) auto
  also have "\<dots> \<le> length (in_rest i)" by (rule length_dropWhile_le)
  finally show ?thesis .
qed

section \<open>The constructor\<close>

definition ill_formed :: "string \<Rightarrow> exn" where
  "ill_formed aConfFile = RuntimeError (''Configuration file '' @ aConfFile @ '' is ill-formed'')"

text \<open>The loop, with what remains of the input, \<open>myEmpty\<close> and the proxy so far.\<close>

function read_loop ::
  "('j, 't, 'z) rest_api_scheme \<Rightarrow> 'j static_env \<Rightarrow> bool \<Rightarrow> string \<Rightarrow> istream \<Rightarrow> bool \<Rightarrow>
     'j static_state \<Rightarrow> bool res \<times> 'j static_state" where
  "read_loop R E nd aConfFile myInput myEmpty s =
     (if in_eof myInput then (Ret myEmpty, s)
      else
        case read_word myInput of (myAddress, myInput) \<Rightarrow>
        if in_fail myInput then (Ret myEmpty, s)
        else
          let myAddress = (if myAddress = ''*'' then [] else myAddress) in
          case read_word myInput of (myAppName, myInput) \<Rightarrow>
          if in_fail myInput then (Raise (ill_formed aConfFile), s)
          else
            case read_word myInput of (myEdgeRouter, myInput) \<Rightarrow>
            if in_fail myInput then (Raise (ill_formed aConfFile), s)
            else
              and_then (cassert nd (myAppName \<noteq> [] \<and> myEdgeRouter \<noteq> []), s) (\<lambda>_ s.
              and_then (associateAddress R E nd myAddress myAppName myEdgeRouter s) (\<lambda>_ s.
              read_loop R E nd aConfFile myInput False s)))"
  by pat_completeness auto
termination
  by (relation "measure (\<lambda>(R, E, nd, f, i, e, s). length (in_rest i))")
    (auto dest!: read_word_shorter [OF sym])

definition StaticFileUeAppLcmProxy ::
  "('j, 't, 'z) rest_api_scheme \<Rightarrow> 'j static_env \<Rightarrow> bool \<Rightarrow> string \<Rightarrow> string option \<Rightarrow>
     unit res \<times> 'j static_state" where
  "StaticFileUeAppLcmProxy R E nd aConfFile file =
     (case file of
        None \<Rightarrow>
          (Raise (RuntimeError (''Cannot open '' @ aConfFile @ '' for reading'')), static_init)
      | Some txt \<Rightarrow>
          and_then (read_loop R E nd aConfFile \<lparr>in_rest = txt, in_eof = False, in_fail = False\<rparr>
              True static_init)
            (\<lambda>myEmpty s.
              if myEmpty then (Raise (RuntimeError (''Empty configuration in '' @ aConfFile)), s)
              else (Ret (), s)))"

declare read_loop.simps [simp del]

section \<open>Reference: the words of the file, three by three\<close>

function words :: "string \<Rightarrow> string list" where
  "words cs =
     (let cs' = dropWhile is_space cs
      in if cs' = [] then []
         else takeWhile (\<lambda>c. \<not> is_space c) cs' # words (dropWhile (\<lambda>c. \<not> is_space c) cs'))"
  by auto
termination
proof (relation "measure length")
  fix cs x :: string
  assume x: "x = dropWhile is_space cs" "x \<noteq> []"
  then have "\<not> is_space (hd x)" using hd_dropWhile by blast
  with x(2) have "length (dropWhile (\<lambda>c. \<not> is_space c) x) < length x"
    by (cases x) (auto simp: less_Suc_eq_le length_dropWhile_le)
  also have "\<dots> \<le> length cs" unfolding x(1) by (rule length_dropWhile_le)
  finally show "(dropWhile (\<lambda>c. \<not> is_space c) x, cs) \<in> measure length" by simp
qed simp

declare words.simps [simp del]

fun triples :: "string list \<Rightarrow> (string \<times> string \<times> string) list option" where
  "triples [] = Some []"
| "triples (a # n # r # ws) =
     map_option (\<lambda>ts. ((if a = ''*'' then [] else a), n, r) # ts) (triples ws)"
| "triples _ = None"

definition table_of :: "(string \<times> string \<times> string) list \<Rightarrow> address_app_key \<rightharpoonup> string" where
  "table_of ts = fold (\<lambda>(a, n, r) m. m(AddressAppKey a n \<mapsto> r)) ts Map.empty"

lemma words_read:
  assumes "\<not> in_fail i" and "in_eof i \<longrightarrow> words (in_rest i) = []"
  shows "words (in_rest i) = [] \<Longrightarrow> in_fail (snd (read_word i))"
    and "words (in_rest i) = w # ws \<Longrightarrow> \<exists>i'. read_word i = (w, i') \<and> w \<noteq> [] \<and> \<not> in_fail i' \<and>
      words (in_rest i') = ws \<and> (in_eof i' \<longrightarrow> ws = [])"
proof -
  let ?r = "dropWhile is_space (in_rest i)"
  have w: "words (in_rest i) = (if ?r = [] then []
      else takeWhile (\<lambda>c. \<not> is_space c) ?r # words (dropWhile (\<lambda>c. \<not> is_space c) ?r))"
    by (subst words.simps) (simp add: Let_def)
  show "words (in_rest i) = [] \<Longrightarrow> in_fail (snd (read_word i))"
    using assms(1) by (auto simp: w read_word_def Let_def split: if_splits)
  assume ws: "words (in_rest i) = w # ws"
  then have eof: "\<not> in_eof i" using assms(2) by auto
  have r: "?r \<noteq> []" using ws by (auto simp: w split: if_splits)
  then have "\<not> is_space (hd ?r)" using hd_dropWhile by blast
  then have "takeWhile (\<lambda>c. \<not> is_space c) ?r \<noteq> []" using r by (cases ?r) auto
  moreover have "words [] = []" by (subst words.simps) simp
  ultimately show "\<exists>i'. read_word i = (w, i') \<and> w \<noteq> [] \<and> \<not> in_fail i' \<and>
      words (in_rest i') = ws \<and> (in_eof i' \<longrightarrow> ws = [])"
    using ws r eof assms(1) unfolding w if_not_P [OF r]
    by (auto simp: read_word_def Let_def simp del: dropWhile_eq_Nil_conv)
qed

section \<open>The constructor reads the triples\<close>

lemma associate_no_contexts:
  assumes E: "order_ok E" and inv: "static_inv s" and c: "theApplicationsByContextId s = []"
    and n: "n \<noteq> []" "r \<noteq> []"
  shows "\<exists>s'. associateAddress R E nd a n r s = (Ret (), s') \<and> static_inv s' \<and>
    theApplicationsByContextId s' = [] \<and>
    map_of (theTable s') = (map_of (theTable s))(AddressAppKey a n \<mapsto> r)"
proof -
  let ?m = "(map_of (theTable s))(AddressAppKey a n \<mapsto> r)"
  have "\<not> routeless ?m n s" by (simp add: routeless_def c)
  then obtain ns s' where op: "associateAddress_locked E nd a n r s = (Ret ns, s')"
    and re: "rerouted ?m s ns s'"
    using associate_locked_eq(2) [OF E static_inv_sound [OF inv] n refl] by blast
  have "set ns = {}" using re by (simp add: rerouted_def to_notify_def c)
  then have "associateAddress R E nd a n r s = (Ret (), s')"
    by (simp add: associateAddress_def op notifyClients_def)
  moreover have "map_of (theApplicationsByContextId s') = Map.empty"
    using re by (simp add: rerouted_def c fun_eq_iff)
  then have "theApplicationsByContextId s' = []" by simp
  ultimately show ?thesis
    using re associating.op_inv [OF E inv op] by (auto simp: rerouted_def)
qed

text \<open>One turn of the loop on three more words, and on one or two.\<close>

lemma read_three:
  assumes E: "order_ok E" and s: "static_inv s" "theApplicationsByContextId s = []"
    and i: "\<not> in_fail i" "in_eof i \<longrightarrow> words (in_rest i) = []" and w: "words (in_rest i) = a # n # r # ws"
  obtains i' s' where "read_loop R E nd f i e s = read_loop R E nd f i' False s'"
    "\<not> in_fail i'" "in_eof i' \<longrightarrow> words (in_rest i') = []" "words (in_rest i') = ws"
    "static_inv s'" "theApplicationsByContextId s' = []"
    "map_of (theTable s') = (map_of (theTable s))(AddressAppKey (if a = ''*'' then [] else a) n \<mapsto> r)"
proof -
  obtain i1 where i1: "read_word i = (a, i1)" "\<not> in_fail i1" "words (in_rest i1) = n # r # ws"
      "in_eof i1 \<longrightarrow> False" using words_read(2) [OF i w] by blast
  obtain i2 where i2: "read_word i1 = (n, i2)" "n \<noteq> []" "\<not> in_fail i2" "words (in_rest i2) = r # ws"
      "in_eof i2 \<longrightarrow> False" using words_read(2) [OF i1(2) _ i1(3)] i1(4) by blast
  obtain i3 where i3: "read_word i2 = (r, i3)" "r \<noteq> []" "\<not> in_fail i3" "words (in_rest i3) = ws"
      "in_eof i3 \<longrightarrow> ws = []" using words_read(2) [OF i2(3) _ i2(4)] i2(5) by blast
  let ?a = "if a = ''*'' then [] else a"
  obtain s1 where s1: "associateAddress R E nd ?a n r s = (Ret (), s1)" "static_inv s1"
    "theApplicationsByContextId s1 = []"
    "map_of (theTable s1) = (map_of (theTable s))(AddressAppKey ?a n \<mapsto> r)"
    using associate_no_contexts [OF E s i2(2) i3(2), of R nd ?a] by blast
  have "\<not> in_eof i" using w i(2) by force
  then have "read_loop R E nd f i e s = read_loop R E nd f i3 False s1"
    using i1 i2 i3 s1(1) by (subst read_loop.simps) (simp add: Let_def)
  from that [OF this] show thesis using i3 s1 by blast
qed

lemma read_short:
  assumes i: "\<not> in_fail i" "in_eof i \<longrightarrow> words (in_rest i) = []" and w: "words (in_rest i) = a # ws"
    and short: "length ws < 2"
  shows "read_loop R E nd f i e s = (Raise (ill_formed f), s)"
proof -
  obtain i1 where i1: "read_word i = (a, i1)" "\<not> in_fail i1" "words (in_rest i1) = ws" "in_eof i1 \<longrightarrow> ws = []"
    using words_read(2) [OF i w] by blast
  have eof: "\<not> in_eof i" using w i(2) by force
  show ?thesis
  proof (cases ws)
    case Nil
    then have "in_fail (snd (read_word i1))" using words_read(1) [OF i1(2)] i1(3) by blast
    then show ?thesis using i1 eof by (subst read_loop.simps) (auto simp: Let_def split: prod.split)
  next
    case (Cons n ws')
    with short have w1: "words (in_rest i1) = [n]" using i1(3) by simp
    obtain i2 where i2: "read_word i1 = (n, i2)" "\<not> in_fail i2" "words (in_rest i2) = []"
      using words_read(2) [OF i1(2) _ w1] i1(3,4) by blast
    then have "in_fail (snd (read_word i2))" using words_read(1) by blast
    then show ?thesis using i1 i2 eof by (subst read_loop.simps) (auto simp: Let_def split: prod.split)
  qed
qed

lemma read_loop_triples:
  assumes "order_ok E" and "static_inv s" "theApplicationsByContextId s = []"
    and "\<not> in_fail i" "in_eof i \<longrightarrow> words (in_rest i) = []"
  shows "case triples (words (in_rest i)) of
      Some ts \<Rightarrow> \<exists>s'. read_loop R E nd f i e s = (Ret (e \<and> ts = []), s') \<and> static_inv s' \<and>
        theApplicationsByContextId s' = [] \<and> map_of (theTable s') =
          fold (\<lambda>(a, n, r) m. m(AddressAppKey a n \<mapsto> r)) ts (map_of (theTable s))
    | None \<Rightarrow> \<exists>s'. read_loop R E nd f i e s = (Raise (ill_formed f), s')"
  using assms(2-5)
proof (induction "words (in_rest i)" arbitrary: i e s rule: triples.induct [case_names nil step one two])
  case nil
  have "read_loop R E nd f i e s = (Ret e, s)"
    using words_read(1) [OF nil(4,5)] nil(1) by (subst read_loop.simps) (auto split: prod.split)
  then show ?case using nil(2,3) by (simp flip: nil(1))
next
  case (step a n r ws)
  obtain i' s' where one: "read_loop R E nd f i e s = read_loop R E nd f i' False s'"
    and i': "\<not> in_fail i'" "in_eof i' \<longrightarrow> words (in_rest i') = []" "words (in_rest i') = ws"
    and s': "static_inv s'" "theApplicationsByContextId s' = []"
      "map_of (theTable s') = (map_of (theTable s))(AddressAppKey (if a = ''*'' then [] else a) n \<mapsto> r)"
    by (rule read_three [OF assms(1) step(3-6) step(2) [symmetric]])
  from step(1) [OF i'(3) [symmetric] s'(1,2) i'(1,2), of False] show ?case
    unfolding one i'(3) using s'(3) by (auto simp: step(2) [symmetric] split: option.splits)
next
  case (one a)
  show ?case using read_short [OF one(4,5) one(1) [symmetric], of R E nd f e s] by (simp flip: one(1))
next
  case (two a n)
  show ?case using read_short [OF two(4,5) two(1) [symmetric], of R E nd f e s] by (simp flip: two(1))
qed

lemma constructor_triples:
  assumes E: "order_ok E"
  shows "triples (words txt) = None \<Longrightarrow>
      \<exists>s. StaticFileUeAppLcmProxy R E nd f (Some txt) = (Raise (ill_formed f), s)"
    and "triples (words txt) = Some [] \<Longrightarrow>
      \<exists>s. StaticFileUeAppLcmProxy R E nd f (Some txt) =
        (Raise (RuntimeError (''Empty configuration in '' @ f)), s)"
    and "triples (words txt) = Some (t # ts) \<Longrightarrow>
      \<exists>s. StaticFileUeAppLcmProxy R E nd f (Some txt) = (Ret (), s) \<and> static_inv s \<and>
        theApplicationsByContextId s = [] \<and> map_of (theTable s) = table_of (t # ts)"
  using read_loop_triples [OF E static_inv_init,
      of "\<lparr>in_rest = txt, in_eof = False, in_fail = False\<rparr>" R nd f True]
  by (auto simp: StaticFileUeAppLcmProxy_def static_init_def table_of_def)

section \<open>Properties\<close>

text \<open>C31. The constructor from a file always ends. It throws for a file that it cannot open, for one whose
  words are no triples and for an empty one; otherwise the table maps each address, or any address
  for a star, and application to the last router the file gives for them.\<close>

theorem static_file_constructor:
  assumes E: "order_ok E"
  shows "case conf of
      None \<Rightarrow> \<exists>s. StaticFileUeAppLcmProxy R E nd f conf =
        (Raise (RuntimeError (''Cannot open '' @ f @ '' for reading'')), s)
    | Some txt \<Rightarrow> (case triples (words txt) of
        None \<Rightarrow> \<exists>s. StaticFileUeAppLcmProxy R E nd f conf =
          (Raise (RuntimeError (''Configuration file '' @ f @ '' is ill-formed'')), s)
      | Some [] \<Rightarrow> \<exists>s. StaticFileUeAppLcmProxy R E nd f conf =
          (Raise (RuntimeError (''Empty configuration in '' @ f)), s)
      | Some (t # ts) \<Rightarrow> \<exists>s. StaticFileUeAppLcmProxy R E nd f conf = (Ret (), s) \<and> static_inv s \<and>
          theApplicationsByContextId s = [] \<and> map_of (theTable s) = table_of (t # ts))"
proof (cases conf)
  case None
  then show ?thesis by (simp add: StaticFileUeAppLcmProxy_def)
next
  case (Some cs)
  show ?thesis
  proof (cases "triples (words cs)")
    case None
    then show ?thesis using constructor_triples(1) [OF E None, of R nd f] Some by (simp add: ill_formed_def)
  next
    case (Some rows)
    then show ?thesis
      using constructor_triples(2) [OF E, of cs R nd f] constructor_triples(3) [OF E, of cs _ _ R nd f]
        \<open>conf = Some cs\<close> by (cases rows) simp_all
  qed
qed

theorem static_file_constructor_witness:
  "\<exists>s. StaticFileUeAppLcmProxy jrest sample_env False ''conf'' (Some ''* app r1'') = (Ret (), s) \<and>
     map_of (theTable s) = [AddressAppKey [] ''app'' \<mapsto> ''r1'']"
proof -
  have "words ''* app r1'' = [''*'', ''app'', ''r1'']"
    by (subst words.simps; simp add: is_space_def)+
  then show ?thesis
    using static_file_constructor [where conf = "Some ''* app r1''" and R = jrest and nd = False
        and f = "''conf''", OF sample_env_ok(1)]
    by (auto simp: table_of_def)
qed

end
