(* ===== verification/Grpc_Proxy.thy ===== *)
theory Grpc_Proxy
  imports Static_Properties
begin

text \<open>
  The gRPC interface of the static proxy: the messages of ueapplcmproxy.proto, the service
  \<open>GrpcUeAppLcmProxyImpl\<close> (EtsiMec/grpcueapplcmproxy.cpp) and its client
  \<open>GrpcUeAppLcmProxyClient\<close> (EtsiMec/grpcueapplcmproxyclient.cpp). A stub is a function from a
  request to a status and a reply; over the stub that calls the service, the client operations
  act on the proxy.

  Parameters: \<open>chk\<close> is \<open>rpc::checkStatus\<close> of the submodule, which throws unless the status is
  OK (hypothesis \<open>status_laws\<close>). The pointers gRPC passes are never null, so the assertions on
  them hold.
\<close>

section \<open>Messages\<close>

record address_tuple =
  a_client :: string
  a_appName :: string
  a_server :: string

record context_tuple =
  c_address :: string
  c_appName :: string
  c_edgeRouter :: string

datatype grpc_status = StatusOK | StatusError nat string

type_synonym ('q, 'p, 's) rpc = "'q \<Rightarrow> 's \<Rightarrow> (grpc_status \<times> 'p) res \<times> 's"

definition status_laws :: "(grpc_status \<Rightarrow> unit res) \<Rightarrow> bool" where
  "status_laws chk \<longleftrightarrow> chk StatusOK = Ret () \<and>
     (\<forall>n m. \<exists>e. chk (StatusError n m) = Raise e)"

section \<open>The service\<close>

text \<open>\<open>CATCH_ALL\<close> drops the result of its instruction and whatever it throws.\<close>

fun CATCH_ALL :: "'a res \<times> 's \<Rightarrow> unit res \<times> 's" where
  "CATCH_ALL (r, s) = catch_all (res_map (\<lambda>_. ()) r, s)"

definition impl_associateAddress ::
  "('j, 't, 'z) rest_api_scheme \<Rightarrow> 'j static_env \<Rightarrow> bool \<Rightarrow>
     (address_tuple, unit, 'j static_state) rpc" where
  "impl_associateAddress R E nd aReq s =
     and_then (cassert nd (a_appName aReq \<noteq> []), s) (\<lambda>_ s.
     and_then (CATCH_ALL (associateAddress R E nd (a_client aReq) (a_appName aReq) (a_server aReq) s))
       (\<lambda>_ s. (Ret (StatusOK, ()), s)))"

definition impl_removeAddress ::
  "('j, 't, 'z) rest_api_scheme \<Rightarrow> 'j static_env \<Rightarrow> bool \<Rightarrow>
     (address_tuple, unit, 'j static_state) rpc" where
  "impl_removeAddress R E nd aReq s =
     and_then (cassert nd (a_appName aReq \<noteq> []), s) (\<lambda>_ s.
     and_then (cassert nd (a_server aReq = []), s) (\<lambda>_ s.
     and_then (CATCH_ALL (removeAddress R E nd (a_client aReq) (a_appName aReq) s))
       (\<lambda>_ s. (Ret (StatusOK, ()), s))))"

text \<open>The application a lambda function is listed as.\<close>

definition lambda_app :: "('j, 't, 'z) rest_api_scheme \<Rightarrow> string \<Rightarrow> 'j res" where
  "lambda_app R v = AppInfo_list R v ''OpenLambdaMec'' ''1.0'' [] (AppCharcs_default R)"

definition impl_addLambda ::
  "('j, 't, 'z) rest_api_scheme \<Rightarrow> bool \<Rightarrow> (string, unit, ('j, 's) lcm_state_scheme) rpc" where
  "impl_addLambda R nd aReq s =
     and_then (cassert nd (aReq \<noteq> []), s) (\<lambda>_ s.
     if aReq = [] then (Ret (StatusOK, ()), s)
     else and_then (CATCH_ALL (and_then (lambda_app R aReq, s) (\<lambda>i s. addApp R nd i s)))
       (\<lambda>_ s. (Ret (StatusOK, ()), s)))"

definition impl_delLambda ::
  "('j, 't, 'z) rest_api_scheme \<Rightarrow> bool \<Rightarrow> (string, unit, ('j, 's) lcm_state_scheme) rpc" where
  "impl_delLambda R nd aReq s =
     and_then (cassert nd (aReq \<noteq> []), s) (\<lambda>_ s.
     if aReq = [] then (Ret (StatusOK, ()), s)
     else and_then (CATCH_ALL (and_then (lambda_app R aReq, s) (\<lambda>i s. delApp R nd i s)))
       (\<lambda>_ s. (Ret (StatusOK, ()), s)))"

text \<open>\<open>set_value\<close> takes a \<open>uint32\<close>: a larger number of contexts is truncated.\<close>

definition impl_numContexts :: "bool \<Rightarrow> (unit, 32 word, 'j static_state) rpc" where
  "impl_numContexts nd aReq s =
     and_then (numContexts nd s, s) (\<lambda>n s. (Ret (StatusOK, word_of_nat n), s))"

definition impl_table :: "'j static_env \<Rightarrow> (unit, address_tuple list, 'j static_state) rpc" where
  "impl_table E aReq s =
     (Ret (StatusOK, map (\<lambda>(client, appname, server).
        \<lparr>a_client = client, a_appName = appname, a_server = server\<rparr>)
        (addressAssociations E s)), s)"

definition impl_contexts :: "'j static_env \<Rightarrow> (unit, context_tuple list, 'j static_state) rpc" where
  "impl_contexts E aReq s =
     (Ret (StatusOK, map (\<lambda>(address, appname, edgerouter).
        \<lparr>c_address = address, c_appName = appname, c_edgeRouter = edgerouter\<rparr>)
        (contexts E s)), s)"

section \<open>The client\<close>

text \<open>A call: the stub, then \<open>checkStatus\<close>.\<close>

definition call :: "(grpc_status \<Rightarrow> unit res) \<Rightarrow> ('q, 'p, 's) rpc \<Rightarrow> 'q \<Rightarrow> 's \<Rightarrow> 'p res \<times> 's" where
  "call chk stub req s =
     and_then (stub req s) (\<lambda>(st, rep) s. and_then (chk st, s) (\<lambda>_ s. (Ret rep, s)))"

definition client_associateAddress ::
  "(grpc_status \<Rightarrow> unit res) \<Rightarrow> (address_tuple, unit, 's) rpc \<Rightarrow> string \<Rightarrow> string \<Rightarrow> string \<Rightarrow>
     's \<Rightarrow> unit res \<times> 's" where
  "client_associateAddress chk stub aClient aAppName aServer s =
     (if aAppName = [] then (Raise (RuntimeError ''Invalid empty application name''), s)
      else if aServer = [] then (Raise (RuntimeError ''Invalid empty edge router address''), s)
      else call chk stub \<lparr>a_client = aClient, a_appName = aAppName, a_server = aServer\<rparr> s)"

definition client_removeAddress ::
  "(grpc_status \<Rightarrow> unit res) \<Rightarrow> (address_tuple, unit, 's) rpc \<Rightarrow> string \<Rightarrow> string \<Rightarrow>
     's \<Rightarrow> unit res \<times> 's" where
  "client_removeAddress chk stub aClient aAppName s =
     (if aAppName = [] then (Raise (RuntimeError ''Invalid empty application name''), s)
      else call chk stub \<lparr>a_client = aClient, a_appName = aAppName, a_server = []\<rparr> s)"

definition client_addLambda ::
  "(grpc_status \<Rightarrow> unit res) \<Rightarrow> (string, unit, 's) rpc \<Rightarrow> string \<Rightarrow> 's \<Rightarrow> unit res \<times> 's" where
  "client_addLambda chk stub aLambda s =
     (if aLambda = [] then (Raise (RuntimeError ''Invalid empty lambda function name''), s)
      else call chk stub aLambda s)"

definition client_delLambda ::
  "(grpc_status \<Rightarrow> unit res) \<Rightarrow> (string, unit, 's) rpc \<Rightarrow> string \<Rightarrow> 's \<Rightarrow> unit res \<times> 's" where
  "client_delLambda chk stub aLambda s =
     (if aLambda = [] then (Raise (RuntimeError ''Invalid empty lambda function name''), s)
      else call chk stub aLambda s)"

definition client_numContexts ::
  "(grpc_status \<Rightarrow> unit res) \<Rightarrow> (unit, 32 word, 's) rpc \<Rightarrow> 's \<Rightarrow> 64 word res \<times> 's" where
  "client_numContexts chk stub s = and_then (call chk stub () s) (\<lambda>v s. (Ret (ucast v), s))"

definition client_table ::
  "(grpc_status \<Rightarrow> unit res) \<Rightarrow> (unit, address_tuple list, 's) rpc \<Rightarrow> 's \<Rightarrow>
     (string \<times> string \<times> string) list res \<times> 's" where
  "client_table chk stub s = and_then (call chk stub () s) (\<lambda>rep s.
     (Ret (map (\<lambda>elem. (a_client elem, a_appName elem, a_server elem)) rep), s))"

definition client_contexts ::
  "(grpc_status \<Rightarrow> unit res) \<Rightarrow> (unit, context_tuple list, 's) rpc \<Rightarrow> 's \<Rightarrow>
     (string \<times> string \<times> string) list res \<times> 's" where
  "client_contexts chk stub s = and_then (call chk stub () s) (\<lambda>rep s.
     (Ret (map (\<lambda>elem. (c_address elem, c_appName elem, c_edgeRouter elem)) rep), s))"

section \<open>The client over the service\<close>

lemma call_OK: "status_laws chk \<Longrightarrow> stub q s = (Ret (StatusOK, p), s') \<Longrightarrow> call chk stub q s = (Ret p, s')"
  by (simp add: call_def status_laws_def)

lemma CATCH_ALL_eq:
  "CATCH_ALL p = (case fst p of Ret x \<Rightarrow> Ret () | Raise e \<Rightarrow> Ret () | Abort \<Rightarrow> Abort | Undef \<Rightarrow> Undef, snd p)"
  by (cases p; cases "fst p") (auto simp: res_map_def)

lemma client_associate_eq:
  assumes chk: "status_laws chk" and n: "n \<noteq> []" "r \<noteq> []"
  shows "client_associateAddress chk (impl_associateAddress R E nd) a n r s =
    CATCH_ALL (associateAddress R E nd a n r s)"
proof -
  let ?op = "associateAddress R E nd a n r s"
  have "call chk (impl_associateAddress R E nd) \<lparr>a_client = a, a_appName = n, a_server = r\<rparr> s =
      CATCH_ALL ?op"
    using n chk by (cases ?op; cases "fst ?op")
      (simp_all add: call_def impl_associateAddress_def status_laws_def res_map_def)
  then show ?thesis using n by (simp add: client_associateAddress_def)
qed

lemma client_remove_eq:
  assumes chk: "status_laws chk" and n: "n \<noteq> []"
  shows "client_removeAddress chk (impl_removeAddress R E nd) a n s =
    CATCH_ALL (removeAddress R E nd a n s)"
proof -
  let ?op = "removeAddress R E nd a n s"
  have "call chk (impl_removeAddress R E nd) \<lparr>a_client = a, a_appName = n, a_server = []\<rparr> s =
      CATCH_ALL ?op"
    using n chk by (cases ?op; cases "fst ?op")
      (simp_all add: call_def impl_removeAddress_def status_laws_def res_map_def)
  then show ?thesis using n by (simp add: client_removeAddress_def)
qed

section \<open>Properties\<close>

text \<open>C32. A call of the gRPC client has the effect of the operation of the static proxy, crash included;
  the arguments it refuses are refused before the server is contacted, and whatever the operation
  throws is dropped by the server.\<close>

theorem grpc_same_effect:
  assumes chk: "status_laws chk"
  shows "client_associateAddress chk (impl_associateAddress R E nd) a n r s =
      (if n = [] then (Raise (RuntimeError ''Invalid empty application name''), s)
       else if r = [] then (Raise (RuntimeError ''Invalid empty edge router address''), s)
       else case associateAddress R E nd a n r s of
         (Abort, s') \<Rightarrow> (Abort, s') | (Undef, s') \<Rightarrow> (Undef, s') | (_, s') \<Rightarrow> (Ret (), s')) \<and>
    client_removeAddress chk (impl_removeAddress R E nd) a n s =
      (if n = [] then (Raise (RuntimeError ''Invalid empty application name''), s)
       else case removeAddress R E nd a n s of
         (Abort, s') \<Rightarrow> (Abort, s') | (Undef, s') \<Rightarrow> (Undef, s') | (_, s') \<Rightarrow> (Ret (), s'))"
proof
  show "client_associateAddress chk (impl_associateAddress R E nd) a n r s =
      (if n = [] then (Raise (RuntimeError ''Invalid empty application name''), s)
       else if r = [] then (Raise (RuntimeError ''Invalid empty edge router address''), s)
       else case associateAddress R E nd a n r s of
         (Abort, s') \<Rightarrow> (Abort, s') | (Undef, s') \<Rightarrow> (Undef, s') | (_, s') \<Rightarrow> (Ret (), s'))"
  proof (cases "n = [] \<or> r = []")
    case False
    then show ?thesis
      by (simp add: client_associate_eq [OF chk] CATCH_ALL_eq split: prod.split res.split)
  qed (auto simp: client_associateAddress_def)
  show "client_removeAddress chk (impl_removeAddress R E nd) a n s =
      (if n = [] then (Raise (RuntimeError ''Invalid empty application name''), s)
       else case removeAddress R E nd a n s of
         (Abort, s') \<Rightarrow> (Abort, s') | (Undef, s') \<Rightarrow> (Undef, s') | (_, s') \<Rightarrow> (Ret (), s'))"
  proof (cases "n = []")
    case False
    then show ?thesis
      by (simp add: client_remove_eq [OF chk] CATCH_ALL_eq split: prod.split res.split)
  qed (simp add: client_removeAddress_def)
qed

definition sample_check :: "grpc_status \<Rightarrow> unit res" where
  "sample_check st = (case st of StatusOK \<Rightarrow> Ret () | StatusError n m \<Rightarrow> Raise (RuntimeError m))"

lemma sample_check_laws [simp]: "status_laws sample_check"
  by (simp add: status_laws_def sample_check_def)

theorem grpc_same_effect_witness:
  "fst (client_associateAddress sample_check (impl_associateAddress jrest sample_env False)
     ''10.0.0.1'' ''app'' ''http://r2'' sample_static) = Ret ()"
proof -
  have "fst (associateAddress jrest sample_env False ''10.0.0.1'' ''app'' ''http://r2'' sample_static) = Ret ()"
    by code_simp
  then show ?thesis
    using grpc_same_effect [OF sample_check_laws, of jrest sample_env False "''10.0.0.1''" "''app''" "''http://r2''" sample_static]
    by (auto split: prod.split_asm)
qed

lemma lambda_Ret:
  assumes R: "rest_laws R" and v: "v \<noteq> []" "length v \<le> 32"
  obtains i where "lambda_app R v = Ret i" "mangle R nd i = Ret (v @ ''+OpenLambdaMec+1.0'')"
    "app_acceptable R i"
proof -
  have args: "valid_app_args v ''OpenLambdaMec'' ''1.0'' []" using v by (simp add: valid_app_args_def)
  obtain i where i: "lambda_app R v = Ret i"
    using AppInfo_list_valid [OF R args] unfolding lambda_app_def by blast
  note c = i [unfolded lambda_app_def AppCharcs_default_def]
  note f = AppInfo_list_Ret [OF R c AppCharcs_is_object [OF R]]
  have "appSoftVersion R i = ''1.0''"
    using optional_getters(1) [OF R, of i] f(3) by (simp add: non_empty_def)
  with mangle_fields [OF R, of i v "''OpenLambdaMec''" nd] f(3) constructed_acceptable(3) [OF R c] that [OF i]
  show thesis by simp
qed



text \<open>The gRPC readings are those of the proxy: table and contexts arrive unchanged and in their
  order, and the number of contexts modulo 2^32, the width of the message.\<close>

theorem grpc_readings:
  assumes chk: "status_laws chk" and inv: "static_inv s"
  shows "\<exists>n. client_numContexts chk (impl_numContexts nd) s = (Ret n, s) \<and>
      unat n = length (theApplicationsByContextId s) mod 2 ^ 32 \<and>
    client_table chk (impl_table E) s = (Ret (addressAssociations E s), s) \<and>
    client_contexts chk (impl_contexts E) s = (Ret (contexts E s), s)"
proof -
  let ?n = "length (theApplicationsByContextId s)"
  have "impl_numContexts nd () s = (Ret (StatusOK, word_of_nat ?n), s)"
    using linked_sizes [OF inv] by (simp add: impl_numContexts_def numContexts_def)
  then have "client_numContexts chk (impl_numContexts nd) s = (Ret (ucast (word_of_nat ?n :: 32 word)), s)"
    by (simp add: client_numContexts_def call_OK [OF chk])
  moreover have "unat (ucast (word_of_nat ?n :: 32 word) :: 64 word) = ?n mod 2 ^ 32"
    by (simp add: unsigned_ucast_eq unsigned_of_nat take_bit_eq_mod)
  moreover have "client_table chk (impl_table E) s = (Ret (addressAssociations E s), s)"
    by (simp add: client_table_def impl_table_def call_OK [OF chk] comp_def case_prod_beta)
  moreover have "client_contexts chk (impl_contexts E) s = (Ret (contexts E s), s)"
    by (simp add: client_contexts_def impl_contexts_def call_OK [OF chk] comp_def case_prod_beta)
  ultimately show ?thesis by blast
qed

theorem grpc_readings_witness:
  "client_contexts sample_check (impl_contexts sample_env) sample_static =
     (Ret [(''10.0.0.1'', ''app'', ''http://r1'')], sample_static)"
proof -
  have "contexts sample_env sample_static = [(''10.0.0.1'', ''app'', ''http://r1'')]"
    by (simp add: contexts_def sample_env_def sample_contexts sample_desc_def)
  with grpc_readings [OF sample_check_laws sample_static_inv, of False sample_env] show ?thesis by auto
qed

end
