(* ===== verification/App_List_Client.thy ===== *)
theory App_List_Client
  imports Etsi_Utils
begin

text \<open>
  \<open>AppListClient\<close> (EtsiMec/applistclient.cpp): the client side of GET app_list. Parameter: \<open>get\<close> is
  \<open>rest::Client(uri).get(path)\<close>, the status and the JSON body of the reply, or what it throws.
\<close>

definition AppListClient ::
  "('j, 't, 'z) rest_api_scheme \<Rightarrow> (string \<Rightarrow> string \<Rightarrow> (nat \<times> 'j) res) \<Rightarrow> string \<Rightarrow> 'j list res" where
  "AppListClient R get theApiRoot =
     res_bind (get (mx2root theApiRoot) ''/app_list'') (\<lambda>(status, body).
     res_bind
       (if status \<noteq> status_OK \<or> \<not> has_object_field R body ''ApplicationList'' then Ret True
        else res_bind (json_at R body ''ApplicationList'') (\<lambda>v.
             Ret (\<not> has_array_field R v ''appInfo''))) (\<lambda>bad.
     if bad then
       Raise (RuntimeError (''Invalid response from server: '' @ to_string status))
     else
       res_bind (json_at R body ''ApplicationList'') (\<lambda>v.
       res_bind (json_at R v ''appInfo'') (\<lambda>a.
       res_bind (as_array R a) (\<lambda>elems.
       map_res (AppInfo_of_json R) elems)))))"

text \<open>What the proxy keeps in its map of applications: objects that parse as an \<open>AppInfo\<close>.\<close>

definition apps_ok :: "('j, 't, 'z) rest_api_scheme \<Rightarrow> ('j, 's) lcm_state_scheme \<Rightarrow> bool" where
  "apps_ok R s \<longleftrightarrow> (\<forall>i \<in> snd ` set (theApplications s). AppInfo_of_json R i = Ret i)"

lemma ApplicationList_of_map_fields:
  assumes R: "rest_laws R"
  shows "is_object R (ApplicationList_of_map R apps)"
    "json_object_at R (ApplicationList_of_map R apps) ''appInfo'' =
       Ret (json_of_array R (map snd apps))"
  using R by (simp_all add: ApplicationList_of_map_def rest_simps case_prod_beta)

text \<open>The client over the handler of the proxy.\<close>

lemma AppListClient_handleAppList:
  assumes R: "rest_laws R" and ok: "apps_ok R s"
    and get: "get (mx2root root) ''/app_list'' = Ret (status_OK, body)"
    and body: "reply_body (handleAppList R s) = Some body"
  shows "AppListClient R get root = Ret (map snd (theApplications s))"
proof -
  let ?l = "ApplicationList_of_map R (theApplications s)"
  let ?a = "json_of_array R (map snd (theApplications s))"
  have b: "body = json_set R (json_null R) ''ApplicationList'' ?l"
    using body R by (simp add: handleAppList_def toJson_eq)
  have at: "json_object_at R body ''ApplicationList'' = Ret ?l"
    using R by (simp add: b object_at_set_null)
  note l = ApplicationList_of_map_fields [OF R, of "theApplications s"]
  have "has_object_field R body ''ApplicationList''"
    using at l(1) rest_lawsD(1) [OF R] unfolding json_read_laws_def by blast
  moreover have "has_array_field R ?l ''appInfo''"
    using l(2) as_array_of_array [OF R, of "map snd (theApplications s)"] rest_lawsD(1) [OF R]
    unfolding json_read_laws_def by blast
  moreover have "map_res (AppInfo_of_json R) (map snd (theApplications s)) =
      Ret (map snd (theApplications s))"
    using ok by (intro map_res_id) (auto simp: apps_ok_def)
  ultimately show ?thesis
    using R at l(2) by (simp add: AppListClient_def get json_at_eq as_array_of_array)
qed

lemma AppListClient_refuses:
  assumes R: "rest_laws R" and get: "get (mx2root root) ''/app_list'' = Ret (status, body)"
    and "status \<noteq> status_OK \<or> \<not> has_object_field R body ''ApplicationList''"
  shows "AppListClient R get root =
    Raise (RuntimeError (''Invalid response from server: '' @ to_string status))"
  using assms by (auto simp: AppListClient_def)

section \<open>Properties\<close>

text \<open>C29. The list that AppListClient reads from the handler of GET app_list is the dictionary of the
  proxy: after an addApp it holds exactly the applications that were there, with the new one in
  place of the one of its key, each once.\<close>

theorem app_list_roundtrip:
  assumes R: "rest_laws R" and ok: "apps_ok R s" "omap_ok (theApplications s)"
    and i: "AppInfo_of_json R i = Ret i" and k: "mangle R nd i = Ret k"
    and add: "addApp R nd i s = (Ret b, s1)"
    and get: "get (mx2root root) ''/app_list'' =
      Ret (reply_status (handleAppList R s1), the (reply_body (handleAppList R s1)))"
  shows "\<exists>l. AppListClient R get root = Ret l \<and> length l = length (theApplications s1) \<and>
    set l = ran ((map_of (theApplications s))(k \<mapsto> i))"
proof -
  obtain s' where s': "addApp R nd i s = (Ret (map_of (theApplications s) k = None), s')"
    "map_of (theApplications s') = (map_of (theApplications s))(k \<mapsto> i)" "omap_ok (theApplications s')"
    by (rule addApp_Ret [OF ok(2) k])
  then have eq: "s1 = s'" using add by simp
  have ran: "snd ` set (theApplications s1) = ran ((map_of (theApplications s))(k \<mapsto> i))"
    using s'(2,3) omap_ok_distinct [of "theApplications s'"] unfolding eq by (metis ran_distinct)
  have "snd ` set (theApplications s1) \<subseteq> insert i (snd ` set (theApplications s))"
  proof
    fix x assume "x \<in> snd ` set (theApplications s1)"
    then obtain q where "((map_of (theApplications s))(k \<mapsto> i)) q = Some x" unfolding ran by (auto simp: ran_def)
    then have "x = i \<or> (q, x) \<in> set (theApplications s)" by (auto split: if_splits dest: map_of_SomeD)
    then show "x \<in> insert i (snd ` set (theApplications s))" by force
  qed
  then have "apps_ok R s1" using ok(1) i unfolding apps_ok_def by blast
  moreover obtain body where body: "handleAppList R s1 = Reply status_OK (Some body)"
    by (simp add: handleAppList_def)
  ultimately have "AppListClient R get root = Ret (map snd (theApplications s1))"
    using get by (intro AppListClient_handleAppList [OF R, where body = body]) simp_all
  then show ?thesis using ran by (auto simp: image_image)
qed

theorem app_list_roundtrip_witness:
  "\<exists>l. AppListClient jrest (\<lambda>_ _. Ret (200, the (reply_body (handleAppList jrest
     (snd (addApp jrest False sample_info (lcm_init :: json lcm_state))))))) ''http://h'' = Ret l \<and> set l = {sample_info}"
proof -
  have "AppInfo_of_json jrest sample_info = Ret sample_info" "mangle jrest False sample_info = Ret ''app+prov+1.0''"
    by code_simp+
  note f = this
  have add: "addApp jrest False sample_info (lcm_init :: json lcm_state) =
      (Ret True, snd (addApp jrest False sample_info (lcm_init :: json lcm_state)))"
    by (simp add: addApp_eq [OF f(2)] put_via_def lcm_init_def)
  have "apps_ok jrest (lcm_init :: json lcm_state)" "omap_ok (theApplications (lcm_init :: json lcm_state))"
    by (simp_all add: apps_ok_def lcm_init_def omap_ok_def)
  from app_list_roundtrip [OF jrest_laws this f add, where root = "''http://h''" and
      get = "\<lambda>_ _. Ret (200, the (reply_body (handleAppList jrest
     (snd (addApp jrest False sample_info (lcm_init :: json lcm_state))))))"]
  show ?thesis by (auto simp: handleAppList_def lcm_init_def)
qed

end
