(* ===== verification/App_Context_Manager.thy ===== *)
theory App_Context_Manager
  imports Etsi_Utils
begin

text \<open>
  \<open>AppContextManager\<close> (EtsiMec/appcontextmanager.h, appcontextmanager.cpp): the client side of the
  contexts. The state is the two URIs and the open contexts by UE application ID; \<open>'w\<close> is the
  state of the rest of the world, which the REST calls change.

  Parameters: the UE application ID that \<open>support::Uuid\<close> draws; \<open>post\<close> and \<open>del\<close> are
  \<open>rest::Client(uri).post(json)\<close> and \<open>rest::Client(uri).del()\<close>; \<open>split\<close> is \<open>support::split\<close>;
  \<open>order\<close> is the order in which the unordered map is visited.
\<close>

record mdesc =
  mReferenceUri :: string
  mContextId :: string

record manager =
  mNotificationUri :: string
  mProxyUri :: string
  mContexts :: "(string \<times> mdesc) list"

definition AppContextManager :: "string \<Rightarrow> string \<Rightarrow> manager" where
  "AppContextManager aNotificationUri aProxyUri =
     \<lparr>mNotificationUri = aNotificationUri, mProxyUri = aProxyUri, mContexts = []\<rparr>"

text \<open>The route the constructor registers with the server: \<open>handleNotification\<close>.\<close>

definition AppContextManager_routes :: "(http_method \<times> string) list" where
  "AppContextManager_routes = [(POST, ''/(.*)'')]"

definition contextCreate ::
  "('j, 't, 'z) rest_api_scheme \<Rightarrow> bool \<Rightarrow>
     (string \<Rightarrow> 'j \<Rightarrow> 'w \<Rightarrow> (nat \<times> 'j) res \<times> 'w) \<Rightarrow> string \<Rightarrow> 'j \<Rightarrow> manager \<times> 'w \<Rightarrow>
     (string \<times> string) res \<times> manager \<times> 'w" where
  "contextCreate R nd post uuid aAppInfo mw =
     and_then (message R nd aAppInfo, mw) (\<lambda>msg mw.
     if msg \<noteq> AppContextRequest then
       (Raise (RuntimeError ''Invalid AppInfo passed in context creation''), mw)
     else
       and_then (AppContext_request R nd uuid (mNotificationUri (fst mw) @ ''/'' @ uuid) aAppInfo, mw)
         (\<lambda>ctx mw.
       and_then
         (case post (mProxyUri (fst mw) @ ''/mx2/v1/app_contexts'') (datatype_toJson R ctx) (snd mw) of
            (ret, w) \<Rightarrow> (ret, (fst mw, w))) (\<lambda>ret mw.
       if fst ret \<noteq> status_Created then
         (Raise (RuntimeError
            (''Invalid response from server upon creation of AppContext: '' @
             safeProblemDetailsString R (snd ret))), mw)
       else
         and_then (AppContext_of_json R (snd ret), mw) (\<lambda>myResponse mw.
         and_then (appInfo R nd myResponse, mw) (\<lambda>myAppInfo mw.
         and_then (AppContext_type R nd myResponse, mw) (\<lambda>ty mw.
         and_then (if ty = Response
                   then res_map (\<lambda>m. m = AppContextResponse) (message R nd myAppInfo)
                   else Ret False, mw) (\<lambda>good mw.
         if good then
           and_then (referenceUri R nd myAppInfo, mw) (\<lambda>myReferenceUri mw.
             (Ret (uuid, myReferenceUri),
              ((fst mw)\<lparr>mContexts := fst (umap_emplace uuid
                  \<lparr>mReferenceUri = myReferenceUri, mContextId = contextId R myResponse\<rparr>
                  (mContexts (fst mw)))\<rparr>, snd mw)))
         else
           (Raise (RuntimeError
              ''Invalid body in the server response upon creation of AppContext''), mw))))))))"

definition manager_referenceUri :: "string \<Rightarrow> manager \<Rightarrow> string res" where
  "manager_referenceUri aUeAppId m =
     (case map_of (mContexts m) aUeAppId of
        Some d \<Rightarrow> Ret (mReferenceUri d)
      | None \<Rightarrow> Raise (RuntimeError (''Invalid UE application ID '' @ aUeAppId)))"

definition proxyUri :: "manager \<Rightarrow> string" where
  "proxyUri m = mProxyUri m"

definition handleNotification ::
  "('j, 't, 'z) rest_api_scheme \<Rightarrow> bool \<Rightarrow> (string \<Rightarrow> string \<Rightarrow> string list) \<Rightarrow>
     'j http_request \<Rightarrow> manager \<Rightarrow> 'j http_reply res \<times> manager" where
  "handleNotification R nd split aReq m =
     and_then (parseJson R aReq, m) (\<lambda>myJson m.
     let myTokens = split (relative_uri aReq) ''/'' in
     if \<not> is_object R myJson \<or> \<not> has_string_field R myJson ''referenceURI'' \<or> myTokens = []
     then (Raise (RuntimeError ''Invalid NotificationEvent structure''), m)
     else
       let myUeAppId = last myTokens in
       and_then (cassert nd (myUeAppId \<noteq> []), m) (\<lambda>_ m.
       and_then (res_bind (json_at R myJson ''referenceURI'') (as_string R), m) (\<lambda>myReferenceUri m.
       case map_of (mContexts m) myUeAppId of
         Some d \<Rightarrow>
           (Ret (Reply status_NoContent None),
            m\<lparr>mContexts := umap_assign myUeAppId (d\<lparr>mReferenceUri := myReferenceUri\<rparr>) (mContexts m)\<rparr>)
       | None \<Rightarrow>
           (Raise (RuntimeError
              (''Received notification for unknown UE application '' @ myUeAppId)), m))))"

text \<open>The loop of the destructor: an exception of a call is logged, a crash is not survived.\<close>

primrec destroy_loop ::
  "(string \<Rightarrow> 'w \<Rightarrow> nat res \<times> 'w) \<Rightarrow> string \<Rightarrow> (string \<times> mdesc) list \<Rightarrow> 'w \<Rightarrow> unit res \<times> 'w" where
  "destroy_loop del theProxyUri [] w = (Ret (), w)"
| "destroy_loop del theProxyUri (elem # elems) w =
     and_then
       (catch_all (and_then
          (del (theProxyUri @ ''/mx2/v1/app_contexts/'' @ mContextId (snd elem)) w)
          (\<lambda>ret w. (Ret (), w))))
       (\<lambda>_ w. destroy_loop del theProxyUri elems w)"

definition destroy ::
  "((string \<times> mdesc) list \<Rightarrow> (string \<times> mdesc) list) \<Rightarrow> (string \<Rightarrow> 'w \<Rightarrow> nat res \<times> 'w) \<Rightarrow>
     manager \<times> 'w \<Rightarrow> unit res \<times> 'w" where
  "destroy order del mw = destroy_loop del (mProxyUri (fst mw)) (order (mContexts (fst mw))) (snd mw)"

section \<open>What the handlers do\<close>

lemma handleNotification_eq:
  assumes R: "rest_laws R" and body: "json_body req = Ret j" "is_object R j"
    and uri: "string_field R j ''referenceURI'' = Some u"
    and split: "split (relative_uri req) ''/'' = ts @ [ue]" and "ue \<noteq> []"
  shows "handleNotification R nd split req m =
    (case map_of (mContexts m) ue of
       Some d \<Rightarrow> (Ret (Reply status_NoContent None),
         m\<lparr>mContexts := umap_assign ue (d\<lparr>mReferenceUri := u\<rparr>) (mContexts m)\<rparr>)
     | None \<Rightarrow> (Raise (RuntimeError
         (''Received notification for unknown UE application '' @ ue)), m))"
  using assms by (simp add: handleNotification_def has_string_field_iff json_at_eq
      read_string_field Let_def)

lemma contextCreate_request:
  assumes R: "rest_laws R" and info: "request_info R info" "AppInfo_of_json R info = Ret info"
      "is_object R info" and uuid: "uuid \<noteq> []"
  obtains ctx where "AppContext_request R nd uuid cb info = Ret ctx"
    "context_ok R ctx uuid info" "plain_request R ctx" "AppContext_of_json R ctx = Ret ctx"
    "callbackReference R ctx = cb"
proof -
  obtain ctx where ctx: "AppContext_make R nd [] uuid cb info Request = Ret ctx"
    using AppContext_make_valid [OF R uuid, of Request info] info(1) by blast
  note f = AppContext_make_Ret [OF R info(3) ctx]
  note ok = made_context_ok [OF R info(3,2) ctx]
  have "plain_request R ctx"
    using ok f(1) info(1) unfolding plain_request_def by (auto simp: non_empty_def)
  moreover have "AppContext_of_json R ctx = Ret ctx"
    by (rule AppContext_of_json_complete [OF R ok f(6)])
  moreover have "callbackReference R ctx = cb"
    using f(4) by (simp add: context_ok_getters [OF R ok])
  ultimately show thesis using that ctx ok by (simp add: AppContext_request_def)
qed

lemma response_reference:
  assumes R: "rest_laws R" and i: "response_info R info"
  obtains u where "referenceUri R nd info = Ret u" "string_field R info ''referenceURI'' = Some u"
proof -
  obtain u where u: "string_field R info ''referenceURI'' = Some u"
    using i by (auto simp: response_info_def)
  then have "referenceUri R nd info = Ret u"
    using message_response [OF R i, of nd]
    by (simp add: referenceUri_def has_string_field_iff [OF R] read_string_field [OF R])
  with u that show thesis by blast
qed

lemma contextCreate_answered:
  assumes R: "rest_laws R" and info: "request_info R info"
    and ctx: "AppContext_request R nd uuid (mNotificationUri m @ ''/'' @ uuid) info = Ret ctx"
    and post: "post (mProxyUri m @ ''/mx2/v1/app_contexts'') ctx w = (Ret (status_Created, resp), w')"
    and resp: "context_ok R resp ue info'" "response_info R info'"
      "string_field R resp ''contextId'' \<noteq> None" "AppContext_of_json R resp = Ret resp"
    and u: "referenceUri R nd info' = Ret u"
  shows "contextCreate R nd post uuid info (m, w) =
    (Ret (uuid, u), (m\<lparr>mContexts := fst (umap_emplace uuid
       \<lparr>mReferenceUri = u, mContextId = contextId R resp\<rparr> (mContexts m))\<rparr>, w'))"
proof -
  have "AppContext_type R nd resp = Ret Response"
    by (rule AppContext_type_eq(2) [OF R resp(1,3,2)])
  then show ?thesis
    using message_request [OF R info, of nd] message_response [OF R resp(2), of nd]
      context_ok_getters(2) [OF R resp(1)] resp(4) post u
    by (simp add: contextCreate_def ctx [simplified] toJson_eq [OF R])
qed

lemma contextCreate_refused:
  assumes R: "rest_laws R"
    and ctx: "AppContext_request R nd uuid (mNotificationUri m @ ''/'' @ uuid) info = Ret ctx"
      "request_info R info"
    and post: "post (mProxyUri m @ ''/mx2/v1/app_contexts'') ctx w = (Ret (status, body), w')"
      "status \<noteq> status_Created"
  shows "contextCreate R nd post uuid info (m, w) = (Raise (RuntimeError
      (''Invalid response from server upon creation of AppContext: '' @
       safeProblemDetailsString R body)), (m, w'))"
  using message_request [OF R ctx(2), of nd] post
  by (simp add: contextCreate_def ctx(1) [simplified] toJson_eq [OF R])

text \<open>The destructor deletes every context, whatever the answers are.\<close>

lemma destroy_loop_calls:
  assumes "\<And>uri w. survives (fst (del uri w))"
  shows "destroy_loop del root elems w =
    (Ret (), fold (\<lambda>elem w. snd (del (root @ ''/mx2/v1/app_contexts/'' @ mContextId (snd elem)) w)) elems w)"
proof (induction elems arbitrary: w)
  case (Cons elem elems)
  let ?p = "del (root @ ''/mx2/v1/app_contexts/'' @ mContextId (snd elem)) w"
  have "survives (fst ?p)" by (rule assms)
  then show ?case using Cons by (cases ?p; cases "fst ?p") auto
qed simp

end
