(* ===== verification/Manager_And_Proxy.thy ===== *)
theory Manager_And_Proxy
  imports Static_Http App_Context_Manager
begin

text \<open>
  The client side and the static proxy put together: \<open>AppContextManager\<close> creates its contexts
  over the HTTP handler of the proxy, and receives the notifications that the proxy sends when
  it reroutes. The network delivers a POST to the handler registered for it; what the HTTP
  server of the submodule answers for a handler that throws is the parameter \<open>failed\<close>.
\<close>

section \<open>The network\<close>

definition post_to_proxy ::
  "('j, 't, 'z) rest_api_scheme \<Rightarrow> bool \<Rightarrow> (exn \<Rightarrow> (nat \<times> 'j) res) \<Rightarrow> string \<Rightarrow> string \<Rightarrow>
     string \<Rightarrow> 'j \<Rightarrow> 'j static_state \<Rightarrow> (nat \<times> 'j) res \<times> 'j static_state" where
  "post_to_proxy R nd failed uuid addr uri j s =
     (case handleContextCreate R nd (createContext R nd uuid)
          \<lparr>remote_address = addr, json_body = Ret j, relative_path = ''app_contexts'',
           relative_uri = ''app_contexts''\<rparr> s of
        (Ret rep, s) \<Rightarrow> (Ret (reply_status rep,
            case reply_body rep of Some b \<Rightarrow> b | None \<Rightarrow> json_null R), s)
      | (Raise e, s) \<Rightarrow> (failed e, s)
      | (Abort, s) \<Rightarrow> (Abort, s)
      | (Undef, s) \<Rightarrow> (Undef, s))"

text \<open>The manager's server receives the POSTs to URIs below its own.\<close>

definition notify_manager ::
  "('j, 't, 'z) rest_api_scheme \<Rightarrow> bool \<Rightarrow> (string \<Rightarrow> string \<Rightarrow> string list) \<Rightarrow> notification \<Rightarrow>
     manager \<Rightarrow> manager" where
  "notify_manager R nd split n m =
     (case n of (cb, r, c) \<Rightarrow>
        if take (length (mNotificationUri m)) cb = mNotificationUri m then
          snd (handleNotification R nd split
            \<lparr>remote_address = [], json_body = NotificationEvent R r,
             relative_path = drop (length (mNotificationUri m)) cb,
             relative_uri = drop (length (mNotificationUri m)) cb\<rparr> m)
        else m)"

definition split_laws :: "(string \<Rightarrow> string \<Rightarrow> string list) \<Rightarrow> bool" where
  "split_laws split \<longleftrightarrow>
     (\<forall>u. u \<noteq> [] \<and> CHR ''/'' \<notin> set u \<longrightarrow> (\<exists>ts. split (''/'' @ u) ''/'' = ts @ [u]))"

section \<open>Creating a context, end to end\<close>

lemma post_to_proxy_accepted:
  assumes R: "rest_laws R" and j: "AppContext_of_json R j = Ret j"
    and c: "createContext R nd uuid addr j s = (Ret resp, s')" and acc: "accepted_response R resp"
  shows "post_to_proxy R nd failed uuid addr uri j s = (Ret (status_Created, resp), s')"
proof -
  let ?req = "\<lparr>remote_address = addr, json_body = Ret j, relative_path = ''app_contexts'',
    relative_uri = ''app_contexts''\<rparr>"
  have "handleContextCreate R nd (createContext R nd uuid) ?req s =
      (Ret (Reply status_Created (Some resp)), s')"
    by (rule handleContextCreate_accepted [OF R _ j _ acc]) (simp_all add: c)
  then show ?thesis by (simp add: post_to_proxy_def)
qed

text \<open>The context of a manager as the proxy stores it.\<close>

definition context_of_manager :: "manager \<Rightarrow> string \<Rightarrow> string \<Rightarrow> string \<Rightarrow> string \<Rightarrow> desc" where
  "context_of_manager m ue addr n r = \<lparr>theAssociateUeAppId = ue,
     theCallbackReference = mNotificationUri m @ ''/'' @ ue, theClientAddress = addr,
     theAppName = n, theEdgeRouterEndpoint = r\<rparr>"

lemma context_posted:
  assumes R: "rest_laws R" and inv: "static_sound s"
    and info: "request_info R info" "AppInfo_of_json R info = Ret info" "is_object R info"
      "fName (app_fields_of R info) = Some n"
    and known: "map_of (theApplications s) (app_key R info) \<noteq> None"
    and r: "route (map_of (theTable s)) addr n = Some r"
    and ue: "ue \<noteq> []" "map_of (theApplicationsByUeAppId s) ue = None"
    and c: "c \<noteq> []" "map_of (theApplicationsByContextId s) c = None"
  obtains ctx resp info' where "AppContext_request R nd ue (mNotificationUri m @ ''/'' @ ue) info = Ret ctx"
    "\<forall>failed uri. post_to_proxy R nd failed c addr uri ctx s =
       (Ret (status_Created, resp), with_context c (context_of_manager m ue addr n r) s)"
    "context_ok R resp ue info'" "response_info R info'" "string_field R resp ''contextId'' \<noteq> None"
    "AppContext_of_json R resp = Ret resp" "referenceUri R nd info' = Ret r" "contextId R resp = c"
proof -
  let ?cb = "mNotificationUri m @ ''/'' @ ue"
  obtain ctx where ctx: "AppContext_request R nd ue ?cb info = Ret ctx"
    "context_ok R ctx ue info" "plain_request R ctx" "AppContext_of_json R ctx = Ret ctx"
    "callbackReference R ctx = ?cb"
    by (rule contextCreate_request [OF R info(1-3) ue(1)])
  have r0: "r \<noteq> []" using table_ok_route [OF static_soundD(5) [OF inv] r] .
  have noid: "string_field R ctx ''contextId'' = None"
    using ctx(3) by (auto simp: plain_request_def)
  obtain resp info' where resp: "makeResponse R nd ctx c r = Ret resp"
    "context_ok R resp ue info'" "string_or_absent R resp ''contextId''"
    "contextId R resp = c" "response_info R info'" "referenceUri R nd info' = Ret r"
    using makeResponse_request [OF R ctx(2) noid info(1) c(1) r0, of nd] by metis
  have "createContext R nd c addr ctx s = (Ret resp, with_context c (new_desc R ctx ue addr n r) s)"
    using createContext_fresh [OF R ctx(2) noid info(1,4) known r r0 c(1,2) ue(2), of nd] resp(1)
    by (metis res.inject(1))
  moreover have "new_desc R ctx ue addr n r = context_of_manager m ue addr n r"
    by (simp add: new_desc_def context_of_manager_def ctx(5))
  moreover have "accepted_response R resp"
    using accepted_responseI [OF R resp(2,5)] resp(4) c(1) by simp
  ultimately have "post_to_proxy R nd failed c addr uri ctx s =
      (Ret (status_Created, resp), with_context c (context_of_manager m ue addr n r) s)" for failed uri
    using post_to_proxy_accepted [OF R ctx(4)] by simp
  moreover have "string_field R resp ''contextId'' \<noteq> None"
    using contextId_present [OF R resp(2)] resp(4) c(1) by simp
  ultimately show thesis
    using that [of ctx resp info'] ctx(1) resp(2,4-6) AppContext_of_json_complete [OF R resp(2,3)] by blast
qed

lemma contextCreate_served:
  assumes R: "rest_laws R" and inv: "static_sound s"
    and info: "request_info R info" "AppInfo_of_json R info = Ret info" "is_object R info"
      "fName (app_fields_of R info) = Some n"
    and known: "map_of (theApplications s) (app_key R info) \<noteq> None"
    and r: "route (map_of (theTable s)) addr n = Some r"
    and ue: "ue \<noteq> []" "map_of (theApplicationsByUeAppId s) ue = None" "map_of (mContexts m) ue = None"
    and c: "c \<noteq> []" "map_of (theApplicationsByContextId s) c = None"
  shows "contextCreate R nd (post_to_proxy R nd failed c addr) ue info (m, s) =
    (Ret (ue, r), (m\<lparr>mContexts := (ue, \<lparr>mReferenceUri = r, mContextId = c\<rparr>) # mContexts m\<rparr>,
      with_context c (context_of_manager m ue addr n r) s))"
proof -
  obtain ctx resp info' where ctx: "AppContext_request R nd ue (mNotificationUri m @ ''/'' @ ue) info = Ret ctx"
    and post: "\<forall>failed uri. post_to_proxy R nd failed c addr uri ctx s =
      (Ret (status_Created, resp), with_context c (context_of_manager m ue addr n r) s)"
    and resp: "context_ok R resp ue info'" "response_info R info'" "string_field R resp ''contextId'' \<noteq> None"
      "AppContext_of_json R resp = Ret resp" "referenceUri R nd info' = Ret r" "contextId R resp = c"
    by (rule context_posted [where nd = nd and m = m, OF R inv info known r ue(1,2) c])
  show ?thesis
    using contextCreate_answered [where post = "post_to_proxy R nd failed c addr" and w = s,
        OF R info(1) ctx post [rule_format] resp(1-5)] ue(3)
    by (simp add: resp(6) umap_emplace_def)
qed

lemma post_to_proxy_refused:
  assumes R: "rest_laws R" and j: "AppContext_of_json R j = Ret j" "plain_request R j"
    and c: "createContext R nd uuid addr j s = (Ret j, s')"
  shows "\<exists>body. post_to_proxy R nd failed uuid addr uri j s = (Ret (status_Forbidden, body), s')"
  using j c plain_request_type [OF R j(2), of nd]
  by (simp add: post_to_proxy_def handleContextCreate_def problem_reply_def problem_status_eq [OF R])

lemma contextCreate_unserved:
  assumes R: "rest_laws R"
    and info: "request_info R info" "AppInfo_of_json R info = Ret info" "is_object R info"
      "fName (app_fields_of R info) = Some n"
    and unserved: "map_of (theApplications s) (app_key R info) = None \<or> route (map_of (theTable s)) addr n = None"
    and ue: "ue \<noteq> []"
  shows "\<exists>e. contextCreate R nd (post_to_proxy R nd failed c addr) ue info (m, s) = (Raise e, (m, s))"
proof -
  obtain ctx where ctx: "AppContext_request R nd ue (mNotificationUri m @ ''/'' @ ue) info = Ret ctx"
    "context_ok R ctx ue info" "plain_request R ctx" "AppContext_of_json R ctx = Ret ctx"
    by (rule contextCreate_request [OF R info(1-3) ue])
  have "createContext R nd c addr ctx s = (Ret ctx, s)"
    using unserved by (auto simp: createContext_parsed [OF R ctx(2) info(4)])
  from post_to_proxy_refused [where failed = failed, OF R ctx(4,3) this]
  obtain body where "\<And>uri. post_to_proxy R nd failed c addr uri ctx s = (Ret (status_Forbidden, body), s)"
    by (auto simp: post_to_proxy_def)
  from contextCreate_refused [where post = "post_to_proxy R nd failed c addr", OF R ctx(1) info(1) this]
  show ?thesis by simp
qed

lemma open_outcome:
  assumes R: "rest_laws R" and inv: "static_sound s"
    and info: "AppInfo_of_json R info = Ret info" "is_object R info"
    and ue: "ue \<noteq> []" "map_of (theApplicationsByUeAppId s) ue = None" "map_of (mContexts m) ue = None"
    and c: "c \<noteq> []" "map_of (theApplicationsByContextId s) c = None"
    and ret: "contextCreate R nd (post_to_proxy R nd failed c addr) ue info (m, s) = (x, (m', s'))"
  shows "m' = m \<and> s' = s \<or> (\<exists>n r. route (map_of (theTable s)) addr n = Some r \<and> n \<noteq> [] \<and> x = Ret (ue, r) \<and>
     m' = m\<lparr>mContexts := (ue, \<lparr>mReferenceUri = r, mContextId = c\<rparr>) # mContexts m\<rparr> \<and>
     s' = with_context c (context_of_manager m ue addr n r) s)"
proof (cases "request_info R info")
  case False
  then have "message R nd info \<noteq> Ret AppContextRequest" by (simp add: message_request_iff [OF R])
  then show ?thesis using ret
    by (cases "message R nd info") (auto simp: contextCreate_def)
next
  case True
  have "app_acceptable R info" using AppInfo_of_json_sound [OF R info(1)] by simp
  then obtain n where n: "fName (app_fields_of R info) = Some n" "n \<noteq> []" by (auto simp: app_acceptable_def)
  show ?thesis
  proof (cases "map_of (theApplications s) (app_key R info) = None \<or> route (map_of (theTable s)) addr n = None")
    case unserved: True
    then show ?thesis
      using contextCreate_unserved [OF R True info n(1) unserved ue(1), of nd failed c m] ret by auto
  next
    case False
    then obtain r where r: "map_of (theApplications s) (app_key R info) \<noteq> None"
      "route (map_of (theTable s)) addr n = Some r" by auto
    from contextCreate_served [OF R inv True info n(1) r ue c, of nd failed] show ?thesis
      using ret r(2) n(2) by (intro disjI2 exI [of _ n] exI [of _ r]) simp
  qed
qed

text \<open>C11. A context created by the manager over the HTTP handler of the static proxy: when the application
  is known and the client has a route, the manager gets back its UE application ID with that
  router and records it with the new context ID, and the proxy stores exactly that context, with
  the callback of the manager.\<close>

theorem create_end_to_end:
  assumes R: "rest_laws R" and inv: "static_inv s"
    and info: "request_info R info" "AppInfo_of_json R info = Ret info" "is_object R info"
      "fName (app_fields_of R info) = Some n"
    and known: "map_of (theApplications s) (app_key R info) \<noteq> None"
    and r: "route (map_of (theTable s)) addr n = Some r"
    and ue: "ue \<noteq> []" "map_of (theApplicationsByUeAppId s) ue = None" "map_of (mContexts m) ue = None"
    and c: "c \<noteq> []" "map_of (theApplicationsByContextId s) c = None"
  shows "contextCreate R nd (post_to_proxy R nd failed c addr) ue info (m, s) =
    (Ret (ue, r),
     (m\<lparr>mContexts := (ue, \<lparr>mReferenceUri = r, mContextId = c\<rparr>) # mContexts m\<rparr>,
      with_context c \<lparr>theAssociateUeAppId = ue,
        theCallbackReference = mNotificationUri m @ ''/'' @ ue, theClientAddress = addr,
        theAppName = n, theEdgeRouterEndpoint = r\<rparr> s))"
  using contextCreate_served [OF R static_inv_sound [OF inv] info known r ue c]
  by (simp add: context_of_manager_def)

theorem create_end_to_end_witness:
  "contextCreate jrest False (post_to_proxy jrest False (\<lambda>e. Raise e) ''c1'' ''10.0.0.1'') ''ue1'' sample_info
     (AppContextManager ''http://m'' ''http://p'', sample_table) =
   (Ret (''ue1'', ''http://r1''),
    ((AppContextManager ''http://m'' ''http://p'')\<lparr>mContexts := [(''ue1'', \<lparr>mReferenceUri = ''http://r1'', mContextId = ''c1''\<rparr>)]\<rparr>,
     with_context ''c1'' (sample_desc\<lparr>theCallbackReference := ''http://m/ue1''\<rparr>) sample_table))"
proof -
  have "AppInfo_of_json jrest sample_info = Ret sample_info" "is_object jrest sample_info"
    "fName (app_fields_of jrest sample_info) = Some ''app''" "app_key jrest sample_info = ''app+prov+1.0''"
    by code_simp+
  then show ?thesis
    using create_end_to_end [where nd = False and failed = "\<lambda>e. Raise e" and n = "''app''" and r = "''http://r1''"
        and ue = "''ue1''" and c = "''c1''" and addr = "''10.0.0.1''" and
        m = "AppContextManager ''http://m'' ''http://p''", OF jrest_laws sample_table_inv sample_parsed(3)]
    by (simp add: sample_table_def route_def AppContextManager_def sample_desc_def)
qed

section \<open>Rerouting, end to end\<close>

text \<open>
  The manager and the proxy agree: every context of the manager is one of the proxy, with the
  manager's callback, and the manager knows the router that serves it, if any does; no other
  client gave the proxy a callback below the manager's URI.
\<close>

definition agrees :: "manager \<Rightarrow> 'j static_state \<Rightarrow> bool" where
  "agrees m s \<longleftrightarrow>
     (\<forall>ue d. map_of (mContexts m) ue = Some d \<longrightarrow> ue \<noteq> [] \<and> CHR ''/'' \<notin> set ue \<and>
        (\<exists>e. map_of (theApplicationsByContextId s) (mContextId d) = Some e \<and>
           theCallbackReference e = mNotificationUri m @ ''/'' @ ue \<and>
           (theEdgeRouterEndpoint e \<noteq> [] \<longrightarrow> mReferenceUri d = theEdgeRouterEndpoint e))) \<and>
     (\<forall>c e. map_of (theApplicationsByContextId s) c = Some e \<longrightarrow>
        take (length (mNotificationUri m)) (theCallbackReference e) = mNotificationUri m \<longrightarrow>
        (\<exists>ue d. map_of (mContexts m) ue = Some d \<and> c = mContextId d))"

lemma handleNotification_own:
  assumes R: "rest_laws R" and split: "split_laws split" and "ue \<noteq> []" "CHR ''/'' \<notin> set ue" "r \<noteq> []"
  shows "handleNotification R nd split \<lparr>remote_address = [], json_body = NotificationEvent R r,
      relative_path = ''/'' @ ue, relative_uri = ''/'' @ ue\<rparr> m =
    (case map_of (mContexts m) ue of
       Some d \<Rightarrow> (Ret (Reply status_NoContent None),
         m\<lparr>mContexts := umap_assign ue (d\<lparr>mReferenceUri := r\<rparr>) (mContexts m)\<rparr>)
     | None \<Rightarrow> (Raise (RuntimeError
         (''Received notification for unknown UE application '' @ ue)), m))"
proof -
  obtain j where j: "NotificationEvent R r = Ret j" "is_object R j"
    "string_field R j ''referenceURI'' = Some r"
    using NotificationEvent_fields [OF R assms(5)] by blast
  obtain ts where ts: "split (''/'' @ ue) ''/'' = ts @ [ue]"
    using split assms(3,4) unfolding split_laws_def by blast
  show ?thesis
    by (rule handleNotification_eq [OF R _ j(2,3) _ assms(3), where ts = ts])
      (simp_all only: j(1) ts http_request.simps)
qed

lemma notify_manager_eq:
  assumes R: "rest_laws R" and split: "split_laws split" and "ue \<noteq> []" "CHR ''/'' \<notin> set ue" "r \<noteq> []"
  shows "notify_manager R nd split (mNotificationUri m @ ''/'' @ ue, r, c) m =
    (case map_of (mContexts m) ue of
       Some d \<Rightarrow> m\<lparr>mContexts := umap_assign ue (d\<lparr>mReferenceUri := r\<rparr>) (mContexts m)\<rparr>
     | None \<Rightarrow> m)"
  using handleNotification_own [OF assms, of nd m]
  by (simp add: notify_manager_def split: option.split)

definition ref_after :: "notification list \<Rightarrow> string \<Rightarrow> string \<Rightarrow> string" where
  "ref_after ns cb r0 = fold (\<lambda>(cb', r, c) x. if cb' = cb then r else x) ns r0"

lemma ref_after_Cons:
  "ref_after ((cb', r, c) # ns) cb r0 = ref_after ns cb (if cb' = cb then r else r0)"
  by (simp add: ref_after_def)

lemma ref_after_unique:
  assumes "\<forall>r' c. (cb, r', c) \<in> set ns \<longrightarrow> r' = r"
  shows "ref_after ns cb r0 = (if \<exists>c. (cb, r, c) \<in> set ns then r else r0)"
  using assms
proof (induction ns arbitrary: r0)
  case (Cons n ns)
  obtain cb' r' c where n: "n = (cb', r', c)" by (cases n)
  have IH: "ref_after ns cb x = (if \<exists>c. (cb, r, c) \<in> set ns then r else x)" for x
    using Cons.prems by (intro Cons.IH) auto
  have "cb' = cb \<Longrightarrow> r' = r" using Cons.prems by (auto simp: n)
  then show ?case unfolding n ref_after_Cons IH by auto
qed (simp add: ref_after_def)

text \<open>One round of notifications, delivered in its order.\<close>

definition deliver ::
  "('j, 't, 'z) rest_api_scheme \<Rightarrow> bool \<Rightarrow> (string \<Rightarrow> string \<Rightarrow> string list) \<Rightarrow> notification list \<Rightarrow>
     manager \<Rightarrow> manager" where
  "deliver R nd split ns m = fold (notify_manager R nd split) ns m"

definition round_ok :: "manager \<Rightarrow> notification list \<Rightarrow> bool" where
  "round_ok m ns \<longleftrightarrow> (\<forall>(cb, r, c) \<in> set ns. r \<noteq> [] \<and>
     (take (length (mNotificationUri m)) cb = mNotificationUri m \<longrightarrow>
        (\<exists>ue. cb = mNotificationUri m @ ''/'' @ ue \<and> ue \<noteq> [] \<and> CHR ''/'' \<notin> set ue)))"

lemma notify_manager_lookup:
  assumes R: "rest_laws R" and split: "split_laws split" and ok: "round_ok m [(cb, r, c)]"
    and um: "umap_ok (mContexts m)"
  shows "mNotificationUri (notify_manager R nd split (cb, r, c) m) = mNotificationUri m"
    "umap_ok (mContexts (notify_manager R nd split (cb, r, c) m))"
    "map_of (mContexts (notify_manager R nd split (cb, r, c) m)) ue =
      map_option (\<lambda>d. d\<lparr>mReferenceUri :=
          ref_after [(cb, r, c)] (mNotificationUri m @ ''/'' @ ue) (mReferenceUri d)\<rparr>)
        (map_of (mContexts m) ue)"
proof -
  let ?m' = "notify_manager R nd split (cb, r, c) m"
  have "mNotificationUri ?m' = mNotificationUri m \<and> umap_ok (mContexts ?m') \<and>
    map_of (mContexts ?m') ue = map_option (\<lambda>d. d\<lparr>mReferenceUri :=
      ref_after [(cb, r, c)] (mNotificationUri m @ ''/'' @ ue) (mReferenceUri d)\<rparr>)
      (map_of (mContexts m) ue)"
  proof (cases "take (length (mNotificationUri m)) cb = mNotificationUri m")
    case True
    then obtain ue' where u: "cb = mNotificationUri m @ ''/'' @ ue'" "ue' \<noteq> []" "CHR ''/'' \<notin> set ue'"
      and r: "r \<noteq> []"
      using ok by (auto simp: round_ok_def)
    note eq = notify_manager_eq [OF R split u(2,3) r, of nd m c, folded u(1)]
    show ?thesis
    proof (cases "map_of (mContexts m) ue'")
      case None
      then show ?thesis
        unfolding eq using um by (cases "map_of (mContexts m) ue") (auto simp: ref_after_def u(1))
    next
      case (Some d)
      then show ?thesis
        unfolding eq using um umap.lookup_assign [OF um Some] umap.ok_assign [OF um]
        by (cases "map_of (mContexts m) ue") (auto simp: ref_after_def u(1))
    qed
  next
    case False
    then have "cb \<noteq> mNotificationUri m @ ''/'' @ ue" by auto
    with False show ?thesis
      using um by (cases "map_of (mContexts m) ue") (simp_all add: notify_manager_def ref_after_def)
  qed
  then show "mNotificationUri ?m' = mNotificationUri m" "umap_ok (mContexts ?m')"
    "map_of (mContexts ?m') ue = map_option (\<lambda>d. d\<lparr>mReferenceUri :=
      ref_after [(cb, r, c)] (mNotificationUri m @ ''/'' @ ue) (mReferenceUri d)\<rparr>)
      (map_of (mContexts m) ue)" by blast+
qed

lemma deliver_lookup:
  assumes R: "rest_laws R" and split: "split_laws split" and "round_ok m ns" "umap_ok (mContexts m)"
  shows "mNotificationUri (deliver R nd split ns m) = mNotificationUri m \<and>
    map_of (mContexts (deliver R nd split ns m)) ue = map_option (\<lambda>d. d\<lparr>mReferenceUri :=
      ref_after ns (mNotificationUri m @ ''/'' @ ue) (mReferenceUri d)\<rparr>) (map_of (mContexts m) ue)"
  using assms(3,4)
proof (induction ns arbitrary: m)
  case Nil
  then show ?case by (cases "map_of (mContexts m) ue") (auto simp: deliver_def ref_after_def)
next
  case (Cons n ns)
  obtain cb r c where n: "n = (cb, r, c)" by (cases n)
  have ok: "round_ok m [(cb, r, c)]" "round_ok m ns" using Cons.prems(1) by (auto simp: round_ok_def n)
  note one = notify_manager_lookup [OF R split ok(1) Cons.prems(2), of nd]
  let ?m = "notify_manager R nd split (cb, r, c) m"
  have "round_ok ?m ns" using ok(2) by (simp add: round_ok_def one(1))
  from Cons.IH [OF this one(2)] show ?case
    by (cases "map_of (mContexts m) ue") (auto simp: deliver_def n one(1,3) ref_after_def)
qed

lemma agrees_mine:
  assumes "agrees m s" and "map_of (mContexts m) ue = Some d"
  obtains e where "map_of (theApplicationsByContextId s) (mContextId d) = Some e"
    "theCallbackReference e = mNotificationUri m @ ''/'' @ ue"
    "theEdgeRouterEndpoint e \<noteq> [] \<longrightarrow> mReferenceUri d = theEdgeRouterEndpoint e"
    "ue \<noteq> []" "CHR ''/'' \<notin> set ue"
  using assms unfolding agrees_def by blast

lemma agrees_below:
  assumes agr: "agrees m s" and e: "map_of (theApplicationsByContextId s) c = Some e"
    and p: "take (length (mNotificationUri m)) (theCallbackReference e) = mNotificationUri m"
  obtains ue d where "map_of (mContexts m) ue = Some d" "c = mContextId d"
    "theCallbackReference e = mNotificationUri m @ ''/'' @ ue" "ue \<noteq> []" "CHR ''/'' \<notin> set ue"
proof -
  obtain ue d where d: "map_of (mContexts m) ue = Some d" "c = mContextId d"
    using agr e p unfolding agrees_def by blast
  from agrees_mine [OF agr d(1)] e d(2) have
    "theCallbackReference e = mNotificationUri m @ ''/'' @ ue" "ue \<noteq> []" "CHR ''/'' \<notin> set ue"
    by (metis option.inject)+
  with d that show thesis by blast
qed

lemma rerouted_notes:
  "rerouted t s ns s' \<Longrightarrow> (cb, r, c) \<in> set ns \<longleftrightarrow> (\<exists>e. map_of (theApplicationsByContextId s) c = Some e \<and>
     cb = theCallbackReference e \<and> desc_route t e = Some r \<and> r \<noteq> theEdgeRouterEndpoint e)"
  by (auto simp: rerouted_def to_notify_def)

lemma agrees_round_ok:
  assumes agr: "agrees m s" and re: "rerouted t s ns s'" and t: "table_ok t"
  shows "round_ok m ns"
  unfolding round_ok_def
proof clarify
  fix cb r c assume "(cb, r, c) \<in> set ns"
  then obtain e where e: "map_of (theApplicationsByContextId s) c = Some e" "cb = theCallbackReference e"
    "desc_route t e = Some r" unfolding rerouted_notes [OF re] by blast
  have "r \<noteq> []" using e(3) table_ok_route [OF t] by (auto simp: desc_route_def)
  moreover have "\<exists>ue. cb = mNotificationUri m @ ''/'' @ ue \<and> ue \<noteq> [] \<and> CHR ''/'' \<notin> set ue"
    if "take (length (mNotificationUri m)) cb = mNotificationUri m"
    using agrees_below [OF agr e(1) that [unfolded e(2)]] e(2) by metis
  ultimately show "r \<noteq> [] \<and> (take (length (mNotificationUri m)) cb = mNotificationUri m \<longrightarrow>
      (\<exists>ue. cb = mNotificationUri m @ ''/'' @ ue \<and> ue \<noteq> [] \<and> CHR ''/'' \<notin> set ue))" by blast
qed

text \<open>After its round the manager knows the router that a context was moved to.\<close>

lemma agrees_reference:
  assumes agr: "agrees m s" and re: "rerouted t s ns s'" and t: "table_ok t"
    and d: "map_of (mContexts m) ue = Some d"
    and e: "map_of (theApplicationsByContextId s) (mContextId d) = Some e" and r: "desc_route t e = Some r"
  shows "ref_after ns (mNotificationUri m @ ''/'' @ ue) (mReferenceUri d) = r"
proof -
  let ?cb = "mNotificationUri m @ ''/'' @ ue"
  have cb: "theCallbackReference e = ?cb"
    and ref: "theEdgeRouterEndpoint e \<noteq> [] \<longrightarrow> mReferenceUri d = theEdgeRouterEndpoint e"
    using agrees_mine [OF agr d] e by (metis option.inject)+
  have "r' = r" if n: "(?cb, r', c) \<in> set ns" for r' c
  proof -
    obtain e' where e': "map_of (theApplicationsByContextId s) c = Some e'" "?cb = theCallbackReference e'"
      "desc_route t e' = Some r'" using n unfolding rerouted_notes [OF re] by blast
    obtain ue' d' where "map_of (mContexts m) ue' = Some d'" "c = mContextId d'"
      "theCallbackReference e' = mNotificationUri m @ ''/'' @ ue'"
      using agrees_below [OF agr e'(1)] by (metis append_eq_conv_conj e'(2))
    with e'(2) d have "c = mContextId d" by simp
    with e'(1,3) e r show ?thesis by simp
  qed
  then have "ref_after ns ?cb (mReferenceUri d) =
      (if \<exists>c. (?cb, r, c) \<in> set ns then r else mReferenceUri d)" by (intro ref_after_unique) blast
  moreover have "theEdgeRouterEndpoint e = r" if "\<not> (\<exists>c. (?cb, r, c) \<in> set ns)"
    using that rerouted_notes [OF re, of ?cb r "mContextId d"] e cb r by auto
  moreover have "r \<noteq> []" using r table_ok_route [OF t] by (auto simp: desc_route_def)
  ultimately show ?thesis using ref by auto
qed

text \<open>Once its round is delivered, an operation of the table leaves the two in agreement.\<close>

lemma agrees_rerouted:
  assumes R: "rest_laws R" and split: "split_laws split"
    and um: "umap_ok (mContexts m)" and agr: "agrees m s"
    and re: "rerouted t s ns s'" and t: "table_ok t"
  shows "agrees (deliver R nd split ns m) s'"
proof -
  let ?uri = "mNotificationUri m" and ?m' = "deliver R nd split ns m"
  have C': "map_of (theApplicationsByContextId s') c =
      map_option (retarget t) (map_of (theApplicationsByContextId s) c)" for c
    using re by (simp add: rerouted_def)
  note del = deliver_lookup [OF R split agrees_round_ok [OF agr re t] um, of nd]
  have uri': "mNotificationUri ?m' = ?uri" and M': "map_of (mContexts ?m') ue = map_option (\<lambda>d. d\<lparr>mReferenceUri :=
      ref_after ns (?uri @ ''/'' @ ue) (mReferenceUri d)\<rparr>) (map_of (mContexts m) ue)" for ue
    using del by blast+
  show ?thesis
    unfolding agrees_def uri'
  proof (intro conjI allI impI)
    fix ue d' assume "map_of (mContexts ?m') ue = Some d'"
    then obtain d where d: "map_of (mContexts m) ue = Some d"
      and d': "d' = d\<lparr>mReferenceUri := ref_after ns (?uri @ ''/'' @ ue) (mReferenceUri d)\<rparr>"
      by (auto simp: M')
    obtain e where e: "map_of (theApplicationsByContextId s) (mContextId d) = Some e"
      "theCallbackReference e = ?uri @ ''/'' @ ue" "ue \<noteq> []" "CHR ''/'' \<notin> set ue"
      by (rule agrees_mine [OF agr d])
    show "ue \<noteq> []" "CHR ''/'' \<notin> set ue" by (fact e(3,4))+
    show "\<exists>e. map_of (theApplicationsByContextId s') (mContextId d') = Some e \<and>
        theCallbackReference e = ?uri @ ''/'' @ ue \<and>
        (theEdgeRouterEndpoint e \<noteq> [] \<longrightarrow> mReferenceUri d' = theEdgeRouterEndpoint e)"
      using e(1,2) agrees_reference [OF agr re t d e(1)] by (cases "desc_route t e") (auto simp: C' d')
  next
    fix c e' assume "map_of (theApplicationsByContextId s') c = Some e'"
      and p: "take (length ?uri) (theCallbackReference e') = ?uri"
    then obtain e where e: "map_of (theApplicationsByContextId s) c = Some e" "e' = retarget t e"
      by (auto simp: C')
    have "take (length ?uri) (theCallbackReference e) = ?uri" using p e(2) by simp
    then obtain ue d where "map_of (mContexts m) ue = Some d" "c = mContextId d"
      by (rule agrees_below [OF agr e(1)])
    then show "\<exists>ue d. map_of (mContexts ?m') ue = Some d \<and> c = mContextId d"
      by (intro exI [of _ ue]) (auto simp: M')
  qed
qed

section \<open>Samples\<close>

text \<open>A manager with one context, and the proxy it is a context of, served by a router.\<close>

definition sample_manager :: manager where
  "sample_manager = \<lparr>mNotificationUri = ''http://'', mProxyUri = ''http://p'',
     mContexts = [(''ue1'', \<lparr>mReferenceUri = ''http://r1'', mContextId = ''c1''\<rparr>)]\<rparr>"

definition race_net :: "string \<Rightarrow> notification list list \<Rightarrow> json net" where
  "race_net r rds = \<lparr>proxy = \<lparr>theApplications = [(''app+prov+1.0'', sample_info)],
     theTable = [(AddressAppKey ''10.0.0.1'' ''app'', r)],
     theApplicationsByContextId = [(''c1'',
       sample_desc\<lparr>theCallbackReference := ''http:///ue1'', theEdgeRouterEndpoint := r\<rparr>)],
     theApplicationsByUeAppId = [(''ue1'', ''c1'')]\<rparr>, rounds = rds\<rparr>"

lemma race_associate:
  "associateAddress_locked sample_env nd ''10.0.0.1'' ''app'' ''http://r2'' (proxy (race_net ''http://r1'' rds)) =
     (Ret [(''http:///ue1'', ''http://r2'', ''c1'')], proxy (race_net ''http://r2'' rds))"
  "associateAddress_locked sample_env nd ''10.0.0.1'' ''app'' ''http://r3'' (proxy (race_net ''http://r2'' rds)) =
     (Ret [(''http:///ue1'', ''http://r3'', ''c1'')], proxy (race_net ''http://r3'' rds))"
  by (induction nd rule: bool.induct; code_simp)+

lemma race_notify:
  assumes "k < length rds" "rds ! k = (''http:///ue1'', r', ''c1'') # ns" "r' \<noteq> []"
  shows "static_step jrest E nd (race_net r rds) (Notify k True (Ret 204)) (race_net r (rds[k := ns]))"
proof -
  obtain ev where ev: "NotificationEvent jrest r' = Ret ev"
    using NotificationEvent_fields [OF jrest_laws assms(3)] by blast
  have "notify_loop jrest (E\<lparr>uri_validate := \<lambda>_. True, client_post := \<lambda>_ _ _. Ret 204\<rparr>) nd
      [(''http:///ue1'', r', ''c1'')] 0 (proxy (race_net r rds)) = (Ret (), proxy (race_net r rds))"
    using assms(3) by (simp add: ev cassert_def)
  from step_notify [OF _ _ this, of k ns] assms(1,2) show ?thesis by (simp add: race_net_def)
qed

section \<open>Agreement\<close>

text \<open>Manager and proxy stay in agreement: once the notifications of an associateAddress or
  removeAddress are delivered, every context of the manager is one of the proxy, and where its
  client and application have a router the manager answers with that router.\<close>

theorem agreement_after_reroute:
  assumes R: "rest_laws R" and split: "split_laws split" and E: "order_ok E" and inv: "static_inv s"
    and um: "umap_ok (mContexts m)" and agr: "agrees m s"
    and op: "associateAddress_locked E nd a n r s = (Ret ns, s') \<or> removeAddress_locked E nd a n s = (Ret ns, s')"
    and ue: "map_of (mContexts (deliver R nd' split ns m)) ue = Some d"
  shows "agrees (deliver R nd' split ns m) s' \<and>
    (\<exists>e. map_of (theApplicationsByContextId s') (mContextId d) = Some e \<and>
      (desc_route (map_of (theTable s')) e \<noteq> None \<longrightarrow>
        Some (mReferenceUri d) = desc_route (map_of (theTable s')) e \<and>
        manager_referenceUri ue (deliver R nd' split ns m) = Ret (mReferenceUri d)))"
proof -
  have "\<exists>t. rerouted t s ns s' \<and> table_ok t \<and> static_inv s'"
    using op
  proof
    assume "associateAddress_locked E nd a n r s = (Ret ns, s')"
    from associating.op_rerouted [OF E static_inv_sound [OF inv] this] associating.upd_ok [OF this static_invD(5) [OF inv]]
      associating.op_inv [OF E inv this] show ?thesis by blast
  next
    assume "removeAddress_locked E nd a n s = (Ret ns, s')"
    from removing.op_rerouted [OF E static_inv_sound [OF inv] this] removing.upd_ok [OF this static_invD(5) [OF inv]]
      removing.op_inv [OF E inv this] show ?thesis by blast
  qed
  then obtain t where t: "rerouted t s ns s'" "table_ok t" and inv': "static_inv s'" by blast
  have agr': "agrees (deliver R nd' split ns m) s'"
    by (rule agrees_rerouted [OF R split um agr t])
  then obtain e where e: "map_of (theApplicationsByContextId s') (mContextId d) = Some e"
    "theEdgeRouterEndpoint e \<noteq> [] \<longrightarrow> mReferenceUri d = theEdgeRouterEndpoint e"
    using ue unfolding agrees_def by blast
  have "desc_route (map_of (theTable s')) e = Some x \<Longrightarrow> mReferenceUri d = x" for x
    using e(2) static_inv_context(3) [OF inv' e(1)] table_ok_route [OF static_invD(5) [OF inv']]
    by (auto simp: desc_route_def)
  then show ?thesis using agr' e(1) ue by (auto simp: manager_referenceUri_def)
qed

lemma sample_agrees: "agrees sample_manager (proxy (race_net ''http://r1'' []))"
  by (simp add: agrees_def sample_manager_def race_net_def sample_desc_def)

theorem agreement_after_reroute_witness:
  "manager_referenceUri ''ue1'' (deliver jrest False (\<lambda>s _. [tl s])
     [(''http:///ue1'', ''http://r2'', ''c1'')] sample_manager) = Ret ''http://r2''"
proof -
  let ?m = "deliver jrest False (\<lambda>s _. [tl s]) [(''http:///ue1'', ''http://r2'', ''c1'')] sample_manager"
  have d: "map_of (mContexts ?m) ''ue1'' = Some \<lparr>mReferenceUri = ''http://r2'', mContextId = ''c1''\<rparr>"
    by code_simp
  have "static_inv (proxy (race_net ''http://r1'' []))"
    by (auto simp: race_net_def static_inv_def static_wf_def linked_def coherent_def umap_ok_def omap_ok_def
        table_ok_def desc_route_def route_def sample_desc_def)
  moreover have "umap_ok (mContexts sample_manager)" by (simp add: sample_manager_def umap_ok_def)
  moreover have "split_laws (\<lambda>s _. [tl s])" by (auto simp: split_laws_def)
  ultimately show ?thesis
    using agreement_after_reroute [OF jrest_laws _ sample_env_ok(1) _ _ sample_agrees
        disjI1 [OF race_associate(1) [of False]] d]
    by (auto simp: race_net_def desc_route_def route_def sample_desc_def)
qed

text \<open>C22. The order of the notifications is not kept: two associations of one client, each notified by its
  own thread, can reach the manager in the opposite order, which leaves the manager with the first
  router for good while the proxy serves the client by the second.\<close>

theorem stale_router_after_race:
  "\<exists>n2 n3. run (static_step jrest sample_env nd) (race_net ''http://r1'' [])
       [Associate ''10.0.0.1'' ''app'' ''http://r2'', Associate ''10.0.0.1'' ''app'' ''http://r3'']
       (race_net ''http://r3'' [[n2], [n3]]) \<and>
     run (static_step jrest sample_env nd) (race_net ''http://r3'' [[n2], [n3]])
       [Notify 1 True (Ret 204), Notify 0 True (Ret 204)] (race_net ''http://r3'' [[], []]) \<and>
     edgeRouter nd ''10.0.0.1'' ''app'' (proxy (race_net ''http://r3'' [[], []])) = Ret ''http://r3'' \<and>
     manager_referenceUri ''ue1'' (deliver jrest nd (\<lambda>s _. [tl s]) [n3, n2] sample_manager) = Ret ''http://r2''"
proof -
  let ?n2 = "(''http:///ue1'', ''http://r2'', ''c1'')" and ?n3 = "(''http:///ue1'', ''http://r3'', ''c1'')"
  have "static_step jrest sample_env nd (race_net ''http://r1'' [])
      (Associate ''10.0.0.1'' ''app'' ''http://r2'') (race_net ''http://r2'' [[?n2]])"
    using step_associate [where R = jrest, OF race_associate(1) [where rds = "[]"]] by (simp add: race_net_def)
  moreover have "static_step jrest sample_env nd (race_net ''http://r2'' [[?n2]])
      (Associate ''10.0.0.1'' ''app'' ''http://r3'') (race_net ''http://r3'' [[?n2], [?n3]])"
    using step_associate [where R = jrest, OF race_associate(2) [where rds = "[[?n2]]"]] by (simp add: race_net_def)
  moreover have "static_step jrest sample_env nd (race_net ''http://r3'' [[?n2], [?n3]])
      (Notify 1 True (Ret 204)) (race_net ''http://r3'' [[?n2], []])"
    using race_notify [of 1 "[[?n2], [?n3]]"] by simp
  moreover have "static_step jrest sample_env nd (race_net ''http://r3'' [[?n2], []])
      (Notify 0 True (Ret 204)) (race_net ''http://r3'' [[], []])"
    using race_notify [of 0 "[[?n2], []]"] by simp
  moreover have "edgeRouter nd ''10.0.0.1'' ''app'' (proxy (race_net ''http://r3'' [[], []])) = Ret ''http://r3''"
    by (induction nd rule: bool.induct) code_simp+
  moreover have "manager_referenceUri ''ue1'' (deliver jrest nd (\<lambda>s _. [tl s]) [?n3, ?n2] sample_manager) =
      Ret ''http://r2''"
    by (induction nd rule: bool.induct) code_simp+
  ultimately show ?thesis unfolding run_Cons run_Nil by blast
qed

section \<open>The destructor\<close>

text \<open>A DELETE reaches the handler of the proxy with the path below the root of its server.\<close>

definition delete_at_proxy ::
  "('j, 't, 'z) rest_api_scheme \<Rightarrow> bool \<Rightarrow> (exn \<Rightarrow> nat res) \<Rightarrow> string \<Rightarrow> string \<Rightarrow> 'j static_state \<Rightarrow>
     nat res \<times> 'j static_state" where
  "delete_at_proxy R nd failed root uri s =
     (case handleContextDelete R nd (deleteContext nd)
          \<lparr>remote_address = [], json_body = Ret (json_null R),
           relative_path = drop (length (root @ ''/mx2/v1/'')) uri,
           relative_uri = drop (length (root @ ''/mx2/v1/'')) uri\<rparr> s of
        (Ret rep, s) \<Rightarrow> (Ret (reply_status rep), s)
      | (Raise e, s) \<Rightarrow> (failed e, s)
      | (Abort, s) \<Rightarrow> (Abort, s)
      | (Undef, s) \<Rightarrow> (Undef, s))"

lemma delete_at_proxy_eq:
  assumes "static_inv s"
  shows "delete_at_proxy R nd failed root (root @ ''/mx2/v1/app_contexts/'' @ c) s =
    (Ret (if map_of (theApplicationsByContextId s) c = None
          then problem_status R status_Forbidden ''Unknown UE application context'' else status_NoContent),
     drop_context c s)"
proof -
  have "drop (length (root @ ''/mx2/v1/'')) (root @ ''/mx2/v1/app_contexts/'' @ c) = contexts_prefix @ c"
    by (simp add: contexts_prefix_def)
  then show ?thesis
    by (simp only: delete_at_proxy_def) (simp add: handleContextDelete_def deleteContext_eq [OF static_invD(6) [OF assms]]
        problem_reply_def Let_def)
qed

lemma destroy_loop_proxy:
  "static_inv s \<Longrightarrow> destroy_loop (delete_at_proxy R nd failed root) root es s =
     (Ret (), fold drop_context (map (mContextId \<circ> snd) es) s)"
proof (induction es arbitrary: s)
  case (Cons e es)
  then show ?case
    by (simp only: destroy_loop.simps delete_at_proxy_eq) (simp add: static_inv_drop)
qed simp



end
