(* ===== verification/Mec_System.thy ===== *)
theory Mec_System
  imports Manager_And_Proxy
begin

text \<open>
  The whole system: the static proxy with its rounds of notifications, its administrators and its
  other clients, and one \<open>AppContextManager\<close> whose POSTs the proxy answers and whom the proxy
  notifies. Every other manager is one of the other clients.

  \<open>Open\<close> is \<open>contextCreate\<close> over the network, with the identifiers that \<open>support::Uuid\<close> draws;
  \<open>Told k\<close> is the next notification of round \<open>k\<close> when it is addressed to the manager, whose answer
  decides whether the proxy purges the context; \<open>Env e\<close> is any step of the proxy on behalf of
  anyone else, overlapping rounds and notifications that get lost included.

  The manager does not follow the proxy along every run: two rounds under way together can reach it in
  the wrong order (\<open>stale_router_after_race\<close>), and a notification can arrive before \<open>contextCreate\<close>
  has stored its context (\<open>Mec_Overtaken\<close>). It does along the orderly ones (\<open>orderly\<close>): a context is
  opened in one step; the table changes only while no notification to the manager is pending (those to
  other clients may be); the notifications to the manager reach it; the other clients use
  neither its notification URI nor its UE application IDs nor its context IDs.
\<close>

section \<open>The system\<close>

text \<open>
  The manager's answer to a notification: \<open>handleNotification\<close> on the body that the proxy posts
  (the fields of \<open>NotificationEvent\<close>), with the path that its server reads below the root of the
  notification URI; an exception becomes the reply that the REST library makes of it.
\<close>

definition notify_answer ::
  "('j, 't, 'z) rest_api_scheme \<Rightarrow> bool \<Rightarrow> (string \<Rightarrow> string \<Rightarrow> string list) \<Rightarrow> (exn \<Rightarrow> nat res) \<Rightarrow>
     notification \<Rightarrow> manager \<Rightarrow> nat res" where
  "notify_answer R nd split failed n m =
     (case n of (cb, r, c) \<Rightarrow>
        (case fst (handleNotification R nd split
          \<lparr>remote_address = [], json_body = NotificationEvent R r,
           relative_path = drop (length (mNotificationUri m)) cb,
           relative_uri = drop (length (mNotificationUri m)) cb\<rparr> m) of
          Ret rep \<Rightarrow> Ret (reply_status rep)
        | Raise e \<Rightarrow> failed e
        | Abort \<Rightarrow> Abort
        | Undef \<Rightarrow> Undef))"

record 'j mec =
  mgr :: manager
  net :: "'j net"

text \<open>The context IDs that the manager holds.\<close>

definition opened :: "manager \<Rightarrow> string set" where
  "opened m = mContextId ` ran (map_of (mContexts m))"

lemma opened_iff: "c \<in> opened m \<longleftrightarrow> (\<exists>ue d. map_of (mContexts m) ue = Some d \<and> mContextId d = c)"
  by (auto simp: opened_def ran_def)

datatype 'j mec_event = Open string string 'j | Env "'j event" | Told nat

text \<open>The notifications that are addressed to the manager, and those not served yet.\<close>

definition below :: "manager \<Rightarrow> string \<Rightarrow> bool" where
  "below m cb \<longleftrightarrow> take (length (mNotificationUri m)) cb = mNotificationUri m"

definition pending :: "'j net \<Rightarrow> notification set" where
  "pending w = (\<Union>ns \<in> set (rounds w). set ns)"

text \<open>The steps of the whole system.\<close>

inductive mec_step ::
  "('j, 't) rest_api \<Rightarrow> 'j static_env \<Rightarrow> bool \<Rightarrow> (string \<Rightarrow> string \<Rightarrow> string list) \<Rightarrow> string \<Rightarrow>
     (exn \<Rightarrow> (nat \<times> 'j) res) \<Rightarrow> (exn \<Rightarrow> nat res) \<Rightarrow> 'j mec \<Rightarrow> 'j mec_event \<Rightarrow> 'j mec \<Rightarrow> bool"
  for R E nd split addr failed answer where
  mec_open: "AppInfo_of_json R info = Ret info \<Longrightarrow> is_object R info \<Longrightarrow>
    ue \<noteq> [] \<Longrightarrow> CHR ''/'' \<notin> set ue \<Longrightarrow> map_of (mContexts (mgr w)) ue = None \<Longrightarrow>
    map_of (theApplicationsByUeAppId (proxy (net w))) ue = None \<Longrightarrow>
    c \<noteq> [] \<Longrightarrow> map_of (theApplicationsByContextId (proxy (net w))) c = None \<Longrightarrow>
    (\<forall>n \<in> pending (net w). snd (snd n) \<noteq> c) \<Longrightarrow>
    contextCreate R nd (post_to_proxy R nd failed c addr) ue info (mgr w, proxy (net w)) = (x, (m, s)) \<Longrightarrow>
    survives x \<Longrightarrow>
    mec_step R E nd split addr failed answer w (Open ue c info) \<lparr>mgr = m, net = (net w)\<lparr>proxy := s\<rparr>\<rparr>"
| mec_env: "static_step R E nd (net w) e n \<Longrightarrow>
    mec_step R E nd split addr failed answer w (Env e) (w\<lparr>net := n\<rparr>)"
| mec_told: "k < length (rounds (net w)) \<Longrightarrow> rounds (net w) ! k = (cb, r, c) # ns \<Longrightarrow> below (mgr w) cb \<Longrightarrow>
    static_step R E nd (net w) (Notify k True (notify_answer R nd split answer (cb, r, c) (mgr w))) n \<Longrightarrow>
    mec_step R E nd split addr failed answer w (Told k)
      \<lparr>mgr = notify_manager R nd split (cb, r, c) (mgr w), net = n\<rparr>"

definition mec_init :: "'j mec \<Rightarrow> bool" where
  "mec_init w \<longleftrightarrow> net_init (net w) \<and> mContexts (mgr w) = []"

section \<open>Orderly runs\<close>

definition untold :: "manager \<Rightarrow> 'j net \<Rightarrow> bool" where
  "untold m w \<longleftrightarrow> (\<exists>(cb, r, c) \<in> pending w. below m cb)"

text \<open>What the others do in an orderly run (see above).\<close>

fun foreign :: "('j, 't) rest_api \<Rightarrow> manager \<Rightarrow> 'j net \<Rightarrow> 'j event \<Rightarrow> bool" where
  "foreign R m w (Associate a n r) \<longleftrightarrow> \<not> untold m w"
| "foreign R m w (Remove a n) \<longleftrightarrow> \<not> untold m w"
| "foreign R m w (Create c a j) \<longleftrightarrow> \<not> below m (callbackReference R j)"
| "foreign R m w (Update j) \<longleftrightarrow> \<not> below m (callbackReference R j) \<and>
     map_of (mContexts m) (stringOrEmpty R j ''associateUeAppId'') = None"
| "foreign R m w (Delete c) \<longleftrightarrow> c \<notin> opened m"
| "foreign R m w (AddApp i) \<longleftrightarrow> True"
| "foreign R m w (DelApp i) \<longleftrightarrow> True"
| "foreign R m w (Notify k v p) \<longleftrightarrow> (\<forall>cb r c ns. rounds w ! k = (cb, r, c) # ns \<longrightarrow> \<not> below m cb)"

fun orderly :: "('j, 't) rest_api \<Rightarrow> 'j mec \<Rightarrow> 'j mec_event \<Rightarrow> bool" where
  "orderly R w (Open ue c info) \<longleftrightarrow> True"
| "orderly R w (Env e) \<longleftrightarrow> foreign R (mgr w) (net w) e"
| "orderly R w (Told k) \<longleftrightarrow> True"

definition orderly_step ::
  "('j, 't) rest_api \<Rightarrow> 'j static_env \<Rightarrow> bool \<Rightarrow> (string \<Rightarrow> string \<Rightarrow> string list) \<Rightarrow> string \<Rightarrow>
     (exn \<Rightarrow> (nat \<times> 'j) res) \<Rightarrow> (exn \<Rightarrow> nat res) \<Rightarrow> 'j mec \<Rightarrow> 'j mec_event \<Rightarrow> 'j mec \<Rightarrow> bool" where
  "orderly_step R E nd split addr failed answer w e w' \<longleftrightarrow>
     mec_step R E nd split addr failed answer w e w' \<and> orderly R w e"

section \<open>The invariant\<close>

text \<open>A context of the manager as the proxy has it: the router of the two may differ while the
  notification of the new one is pending.\<close>

definition in_step :: "manager \<Rightarrow> 'j net \<Rightarrow> string \<Rightarrow> mdesc \<Rightarrow> desc \<Rightarrow> bool" where
  "in_step m w ue d e \<longleftrightarrow>
     map_of (theApplicationsByContextId (proxy w)) (mContextId d) = Some e \<and>
     theAssociateUeAppId e = ue \<and> theCallbackReference e = mNotificationUri m @ ''/'' @ ue \<and>
     (theEdgeRouterEndpoint e = [] \<or> mReferenceUri d = theEdgeRouterEndpoint e \<or>
       (theCallbackReference e, theEdgeRouterEndpoint e, mContextId d) \<in> pending w)"

text \<open>
  Every context of the manager is in step; a context of the proxy that calls the manager back is one
  of the manager; a pending notification to the manager carries the router that the proxy stores.
\<close>

definition managed :: "bool \<Rightarrow> manager \<Rightarrow> 'j net \<Rightarrow> bool" where
  "managed nd m w \<longleftrightarrow> net_inv nd w \<and> umap_ok (mContexts m) \<and>
     (\<forall>ue d. map_of (mContexts m) ue = Some d \<longrightarrow> ue \<noteq> [] \<and> CHR ''/'' \<notin> set ue \<and> (\<exists>e. in_step m w ue d e)) \<and>
     (\<forall>c e. map_of (theApplicationsByContextId (proxy w)) c = Some e \<longrightarrow> below m (theCallbackReference e) \<longrightarrow>
        c \<in> opened m) \<and>
     (\<forall>cb r c. (cb, r, c) \<in> pending w \<longrightarrow> below m cb \<or> c \<in> opened m \<longrightarrow>
        c \<in> opened m \<and>
        (\<exists>e. map_of (theApplicationsByContextId (proxy w)) c = Some e \<and>
           theCallbackReference e = cb \<and> theEdgeRouterEndpoint e = r))"

lemma below_own [simp]: "below m (mNotificationUri m @ x)"
  by (simp add: below_def)

lemma managedI:
  assumes "net_inv nd w" "umap_ok (mContexts m)"
    and "\<And>ue d. map_of (mContexts m) ue = Some d \<Longrightarrow> ue \<noteq> []"
    and "\<And>ue d. map_of (mContexts m) ue = Some d \<Longrightarrow> CHR ''/'' \<notin> set ue"
    and "\<And>ue d. map_of (mContexts m) ue = Some d \<Longrightarrow> \<exists>e. in_step m w ue d e"
    and "\<And>c e. map_of (theApplicationsByContextId (proxy w)) c = Some e \<Longrightarrow> below m (theCallbackReference e) \<Longrightarrow>
      c \<in> opened m"
    and "\<And>cb r c. (cb, r, c) \<in> pending w \<Longrightarrow> below m cb \<or> c \<in> opened m \<Longrightarrow>
      c \<in> opened m \<and>
      (\<exists>e. map_of (theApplicationsByContextId (proxy w)) c = Some e \<and>
         theCallbackReference e = cb \<and> theEdgeRouterEndpoint e = r)"
  shows "managed nd m w"
  using assms unfolding managed_def by blast

lemma managedD:
  assumes "managed nd m w"
  shows "net_inv nd w" "static_sound (proxy w)" "umap_ok (mContexts m)"
    and "\<And>ue d. map_of (mContexts m) ue = Some d \<Longrightarrow> ue \<noteq> []"
    and "\<And>ue d. map_of (mContexts m) ue = Some d \<Longrightarrow> CHR ''/'' \<notin> set ue"
    and "\<And>ue d. map_of (mContexts m) ue = Some d \<Longrightarrow> \<exists>e. in_step m w ue d e"
    and "\<And>c e. map_of (theApplicationsByContextId (proxy w)) c = Some e \<Longrightarrow> below m (theCallbackReference e) \<Longrightarrow>
      c \<in> opened m"
    and "\<And>cb r c. (cb, r, c) \<in> pending w \<Longrightarrow> below m cb \<or> c \<in> opened m \<Longrightarrow>
      c \<in> opened m \<and>
      (\<exists>e. map_of (theApplicationsByContextId (proxy w)) c = Some e \<and>
         theCallbackReference e = cb \<and> theEdgeRouterEndpoint e = r)"
  using assms net_invD(2) [of nd w] unfolding managed_def by blast+

text \<open>A step that leaves the contexts of the manager and the notifications to it as they are.\<close>

lemma managed_frame:
  assumes inv: "managed nd m w" and net: "net_inv nd n"
    and mine: "\<And>c. c \<in> opened m \<Longrightarrow>
      map_of (theApplicationsByContextId (proxy n)) c = map_of (theApplicationsByContextId (proxy w)) c"
    and others: "\<And>c e. map_of (theApplicationsByContextId (proxy n)) c = Some e \<Longrightarrow>
      below m (theCallbackReference e) \<Longrightarrow> map_of (theApplicationsByContextId (proxy w)) c = Some e"
    and less: "pending n \<subseteq> pending w"
    and kept: "\<And>cb r c. (cb, r, c) \<in> pending w \<Longrightarrow> below m cb \<Longrightarrow> (cb, r, c) \<in> pending n"
  shows "managed nd m n"
proof (rule managedI [OF net managedD(3-5) [OF inv]])
  fix ue d assume d: "map_of (mContexts m) ue = Some d"
  then obtain e where "in_step m w ue d e" using managedD(6) [OF inv] by blast
  then have "in_step m n ue d e"
    using mine [of "mContextId d"] d kept by (auto simp: in_step_def opened_iff)
  then show "\<exists>e. in_step m n ue d e" by blast
next
  fix c e assume "map_of (theApplicationsByContextId (proxy n)) c = Some e" "below m (theCallbackReference e)"
  then show "c \<in> opened m" using managedD(7) [OF inv] others by blast
next
  fix cb r c assume p: "(cb, r, c) \<in> pending n"
    and o: "below m cb \<or> c \<in> opened m"
  have "(cb, r, c) \<in> pending w" using p less by blast
  from managedD(8) [OF inv this o]
  show "c \<in> opened m \<and>
      (\<exists>e. map_of (theApplicationsByContextId (proxy n)) c = Some e \<and>
         theCallbackReference e = cb \<and> theEdgeRouterEndpoint e = r)" using mine by simp
qed

lemma pending_sel [simp]: "pending \<lparr>proxy = s, rounds = rs @ [ns]\<rparr> = pending \<lparr>proxy = s, rounds = rs\<rparr> \<union> set ns"
  "pending (w\<lparr>proxy := s\<rparr>) = pending w" "pending \<lparr>proxy = s, rounds = rounds w\<rparr> = pending w"
  by (auto simp: pending_def)

lemma pending_served:
  assumes "k < length (rounds w)" and "rounds w ! k = n # ns"
  shows "pending w = insert n (pending \<lparr>proxy = s, rounds = (rounds w)[k := ns]\<rparr>)"
proof -
  have "set (rounds w) = insert (n # ns) (set (take k (rounds w)) \<union> set (drop (Suc k) (rounds w)))"
    using id_take_nth_drop [OF assms(1)] unfolding assms(2) by (metis set_append list.simps(15) Un_insert_right)
  moreover have "set ((rounds w)[k := ns]) = insert ns (set (take k (rounds w)) \<union> set (drop (Suc k) (rounds w)))"
    using assms(1) by (simp add: upd_conv_take_nth_drop)
  ultimately show ?thesis by (auto simp: pending_def)
qed

lemma opened_new:
  "map_of (mContexts m) ue = None \<Longrightarrow> opened (m\<lparr>mContexts := (ue, d) # mContexts m\<rparr>) = insert (mContextId d) (opened m)"
  by (simp add: opened_def)

lemma below_update [simp]: "below (m\<lparr>mContexts := x\<rparr>) = below m"
  by (simp add: below_def fun_eq_iff)

section \<open>The steps keep it\<close>

lemma managed_open:
  assumes inv: "managed nd m w" and net: "net_inv nd (w\<lparr>proxy := with_context c (context_of_manager m ue addr n r) (proxy w)\<rparr>)"
    and ue: "ue \<noteq> []" "CHR ''/'' \<notin> set ue" "map_of (mContexts m) ue = None"
    and c: "map_of (theApplicationsByContextId (proxy w)) c = None" "\<forall>n \<in> pending w. snd (snd n) \<noteq> c"
  shows "managed nd (m\<lparr>mContexts := (ue, \<lparr>mReferenceUri = r, mContextId = c\<rparr>) # mContexts m\<rparr>)
    (w\<lparr>proxy := with_context c (context_of_manager m ue addr n r) (proxy w)\<rparr>)"
    (is "managed nd ?m ?w")
proof (rule managedI [OF net])
  have other: "mContextId d \<noteq> c" if "map_of (mContexts m) ue' = Some d" for ue' d
    using managedD(6) [OF inv that] c(1) by (auto simp: in_step_def)
  show "umap_ok (mContexts ?m)"
    using managedD(3) [OF inv] ue(3) by (simp add: umap_ok_def map_of_eq_None_iff)
  fix ue' d assume d: "map_of (mContexts ?m) ue' = Some d"
  show "ue' \<noteq> []" "CHR ''/'' \<notin> set ue'"
    using d ue managedD(4,5) [OF inv] by (auto split: if_splits)
  show "\<exists>e. in_step ?m ?w ue' d e"
  proof (cases "ue' = ue")
    case True
    then show ?thesis using d by (auto simp: in_step_def context_of_manager_def)
  next
    case False
    then have d: "map_of (mContexts m) ue' = Some d" using d by simp
    then obtain e where "in_step m w ue' d e" using managedD(6) [OF inv] by blast
    then have "in_step ?m ?w ue' d e" using other [OF d] by (auto simp: in_step_def)
    then show ?thesis by blast
  qed
next
  fix c' e assume "map_of (theApplicationsByContextId (proxy ?w)) c' = Some e" "below ?m (theCallbackReference e)"
  then show "c' \<in> opened ?m"
    using managedD(7) [OF inv] by (auto simp: opened_new [OF ue(3)] split: if_splits)
next
  fix cb r' c' assume p: "(cb, r', c') \<in> pending ?w" and o: "below ?m cb \<or> c' \<in> opened ?m"
  have p': "(cb, r', c') \<in> pending w" using p by simp
  then have "c' \<noteq> c" using c(2) by force
  moreover have "below m cb \<or> c' \<in> opened m"
    using o \<open>c' \<noteq> c\<close> by (simp add: opened_new [OF ue(3)])
  from managedD(8) [OF inv p' this]
  show "c' \<in> opened ?m \<and> (\<exists>e. map_of (theApplicationsByContextId (proxy ?w)) c' = Some e \<and>
      theCallbackReference e = cb \<and> theEdgeRouterEndpoint e = r')"
    using \<open>c' \<noteq> c\<close> by (simp add: opened_new [OF ue(3)])
qed

lemma opened_below:
  assumes "managed nd m w" and "c \<in> opened m"
  shows "\<exists>e. map_of (theApplicationsByContextId (proxy w)) c = Some e \<and> below m (theCallbackReference e)"
  using assms(2) managedD(6) [OF assms(1)] unfolding opened_iff in_step_def by (metis below_own)

lemma managed_rerouting:
  assumes op: "rerouting E op upd" and E: "order_ok E" and inv: "managed nd m w" and told: "\<not> untold m w"
    and ret: "op (proxy w) = (Ret ns, s)"
  shows "managed nd m \<lparr>proxy = s, rounds = rounds w @ [ns]\<rparr>" (is "managed nd m ?w")
proof (rule managedI [OF rerouting_inv [OF op E managedD(1) [OF inv] ret] managedD(3-5) [OF inv]])
  let ?t = "upd (map_of (theTable (proxy w)))"
  have re: "rerouted ?t (proxy w) ns s" by (rule rerouting.op_rerouted [OF op E managedD(2) [OF inv] ret])
  have t: "table_ok ?t" by (rule rerouting.upd_ok [OF op ret static_soundD(5) [OF managedD(2) [OF inv]]])
  have C: "map_of (theApplicationsByContextId s) c = map_option (retarget ?t) (map_of (theApplicationsByContextId (proxy w)) c)" for c
    using re by (simp add: rerouted_def)
  have pend: "pending ?w = pending w \<union> set ns" by simp
  have quiet: "\<not> below m cb \<and> c \<notin> opened m" if "(cb, r, c) \<in> pending w" for cb r c
    using that told managedD(8) [OF inv that] opened_below [OF inv, of c] unfolding untold_def by fastforce
  { fix ue d assume d: "map_of (mContexts m) ue = Some d"
    then obtain e where e: "map_of (theApplicationsByContextId (proxy w)) (mContextId d) = Some e"
      "theAssociateUeAppId e = ue" "theCallbackReference e = mNotificationUri m @ ''/'' @ ue"
      "theEdgeRouterEndpoint e = [] \<or> mReferenceUri d = theEdgeRouterEndpoint e"
      using managedD(6) [OF inv d] quiet by (fastforce simp: in_step_def)
    have "in_step m ?w ue d (retarget ?t e)"
    proof (cases "desc_route ?t e")
      case None
      then show ?thesis using e by (simp add: in_step_def C or_empty_def)
    next
      case (Some r)
      then have "r \<noteq> []" using table_ok_route [OF t] by (auto simp: desc_route_def)
      then show ?thesis
        using e Some rerouted_notes [OF re, of "theCallbackReference e" r "mContextId d"]
        by (auto simp: in_step_def C or_empty_def pend simp del: pending_sel)
    qed
    then show "\<exists>e. in_step m ?w ue d e" by blast
  next
    fix c e assume "map_of (theApplicationsByContextId (proxy ?w)) c = Some e" "below m (theCallbackReference e)"
    then show "c \<in> opened m" using managedD(7) [OF inv] by (auto simp: C)
  next
    fix cb r c assume p: "(cb, r, c) \<in> pending ?w" and o: "below m cb \<or> c \<in> opened m"
    then have "(cb, r, c) \<in> set ns" using quiet unfolding pend by blast
    then obtain e where e: "map_of (theApplicationsByContextId (proxy w)) c = Some e" "cb = theCallbackReference e"
      "desc_route ?t e = Some r"
      unfolding rerouted_notes [OF re] by blast
    have "c \<in> opened m" using o e managedD(7) [OF inv e(1)] by blast
    then show "c \<in> opened m \<and> (\<exists>e. map_of (theApplicationsByContextId (proxy ?w)) c = Some e \<and>
        theCallbackReference e = cb \<and> theEdgeRouterEndpoint e = r)"
      using e by (simp add: C or_empty_def)
  }
qed

text \<open>What a POST and a PUT of another client leave in the map of contexts.\<close>

lemma created_context:
  assumes R: "rest_laws R" and inv: "static_sound s" and j: "AppContext_of_json R j = Ret j"
    and fresh: "map_of (theApplicationsByContextId s) uuid = None"
    and ret: "createContext R nd uuid addr j s = (Ret resp, s')"
  shows "s' = s \<or> (\<exists>d. theCallbackReference d = callbackReference R j \<and> s' = entered uuid d s)"
proof -
  obtain ue info where c: "context_ok R j ue info" "stringOrEmpty R j ''associateUeAppId'' = ue"
    by (rule parsed_context [OF R j])
  obtain n where "fName (app_fields_of R info) = Some n"
    using c(1) by (rule context_ok_name [OF R])
  from createContext_inv [OF R inv c(1) ret fresh this]
  have "s' = s \<or> (\<exists>r. s' = entered uuid (new_desc R j ue addr n r) s)" by (auto split: if_splits)
  then show ?thesis by (auto intro: exI [of _ "new_desc R j ue addr n r" for r] simp: new_desc_def)
qed

lemma updated_context:
  assumes R: "rest_laws R" and inv: "static_sound s" and j: "AppContext_of_json R j = Ret j"
    and ret: "updateContext R nd j s = (Ret b, s')"
  shows "map_of (theApplicationsByContextId s') c = map_of (theApplicationsByContextId s) c \<or>
    (\<exists>e. map_of (theApplicationsByContextId s) c = Some e \<and>
       theAssociateUeAppId e = stringOrEmpty R j ''associateUeAppId'' \<and>
       map_of (theApplicationsByContextId s') c = Some (e\<lparr>theCallbackReference := callbackReference R j\<rparr>))"
proof (cases b)
  case True
  obtain ue info where ok: "context_ok R j ue info" "stringOrEmpty R j ''associateUeAppId'' = ue"
    by (rule parsed_context [OF R j])
  with updateContext_Ret [OF ret] True context_ok_getters(1) [OF R ok(1), of nd] obtain c' d where
    d: "map_of (theApplicationsByUeAppId s) ue = Some c'" "map_of (theApplicationsByContextId s) c' = Some d"
    "s' = s\<lparr>theApplicationsByContextId := umap_assign c' (d\<lparr>theCallbackReference := callbackReference R j\<rparr>)
        (theApplicationsByContextId s)\<rparr>" by auto
  have "theAssociateUeAppId d = ue" using static_sound_index [OF inv d(1)] d(2) by auto
  then show ?thesis
    using umap.lookup_assign [OF static_soundD(2) [OF inv] d(2)] d(2) ok(2) by (simp add: d(3))
qed (use updateContext_Ret [OF ret] in simp)

lemma apps_contexts:
  "theApplicationsByContextId (snd (addApp R nd i s)) = theApplicationsByContextId s"
  "theApplicationsByContextId (snd (delApp R nd i s)) = theApplicationsByContextId s"
  by (cases "mangle R nd i"; auto simp: addApp_def delApp_def split: prod.splits)+

text \<open>A notification of another client drops no context of the manager.\<close>

lemma foreign_served:
  assumes R: "rest_laws R" and inv: "managed nd m w" and k: "k < length (rounds w)" "rounds w ! k = (cb, r, c) # ns"
    and ret: "notify_loop R (E\<lparr>uri_validate := \<lambda>_. v, client_post := \<lambda>_ _ _. p\<rparr>) nd [(cb, r, c)] 0 (proxy w) = (Ret (), s)"
    and nb: "\<not> below m cb"
  shows "c \<notin> opened m" "s = proxy w \<or> s = drop_context c (proxy w)"
proof -
  show "c \<notin> opened m"
  proof
    assume o: "c \<in> opened m"
    have "(cb, r, c) \<in> pending w"
      using k nth_mem unfolding pending_def by (metis UN_I list.set_intros(1))
    from managedD(8) [OF inv this disjI2 [OF o]] opened_below [OF inv o] nb show False by auto
  qed
  show "s = proxy w \<or> s = drop_context c (proxy w)"
    using notify_served(1) [OF R managedD(1) [OF inv] k ret] by auto
qed

lemma managed_created:
  assumes inv: "managed nd m w" and net: "net_inv nd n" and n: "proxy n = entered uuid d (proxy w)" "pending n = pending w"
    and fresh: "map_of (theApplicationsByContextId (proxy w)) uuid = None"
    and other: "\<not> below m (theCallbackReference d)"
  shows "managed nd m n"
proof (rule managed_frame [OF inv net])
  fix c assume "c \<in> opened m"
  from opened_below [OF inv this]
  show "map_of (theApplicationsByContextId (proxy n)) c = map_of (theApplicationsByContextId (proxy w)) c"
    using fresh by (auto simp: n)
qed (use other in \<open>auto simp: n split: if_splits\<close>)

lemma managed_updated:
  assumes R: "rest_laws R" and inv: "managed nd m w" and net: "net_inv nd (w\<lparr>proxy := s\<rparr>)"
    and j: "AppContext_of_json R j = Ret j" and ret: "updateContext R nd j (proxy w) = (Ret b, s)"
    and other: "\<not> below m (callbackReference R j)"
      "map_of (mContexts m) (stringOrEmpty R j ''associateUeAppId'') = None"
  shows "managed nd m (w\<lparr>proxy := s\<rparr>)"
proof (rule managed_frame [OF inv net])
  note upd = updated_context [OF R managedD(2) [OF inv] j ret]
  fix c assume "c \<in> opened m"
  then obtain ue d where d: "map_of (mContexts m) ue = Some d" "mContextId d = c" by (auto simp: opened_iff)
  have "theAssociateUeAppId e = ue" if "map_of (theApplicationsByContextId (proxy w)) c = Some e" for e
    using managedD(6) [OF inv d(1)] d(2) that by (auto simp: in_step_def)
  then show "map_of (theApplicationsByContextId (proxy (w\<lparr>proxy := s\<rparr>))) c = map_of (theApplicationsByContextId (proxy w)) c"
    using upd [of c] d(1) other(2) by auto
next
  fix c e assume "map_of (theApplicationsByContextId (proxy (w\<lparr>proxy := s\<rparr>))) c = Some e" "below m (theCallbackReference e)"
  then show "map_of (theApplicationsByContextId (proxy w)) c = Some e"
    using updated_context [OF R managedD(2) [OF inv] j ret, of c] other(1) by auto
qed simp_all

lemma managed_foreign_notice:
  assumes R: "rest_laws R" and inv: "managed nd m w" and net: "net_inv nd \<lparr>proxy = s, rounds = (rounds w)[k := ns]\<rparr>"
    and k: "k < length (rounds w)" "rounds w ! k = nf # ns"
    and ret: "notify_loop R (E\<lparr>uri_validate := \<lambda>_. v, client_post := \<lambda>_ _ _. p\<rparr>) nd [nf] 0 (proxy w) = (Ret (), s)"
    and nb: "\<not> below m (fst nf)"
  shows "managed nd m \<lparr>proxy = s, rounds = (rounds w)[k := ns]\<rparr>"
proof -
  obtain cb r c where nf: "nf = (cb, r, c)" by (cases nf)
  show ?thesis
    using nb pending_served [OF k, of s] foreign_served [OF R inv k [unfolded nf] ret [unfolded nf]]
    by (intro managed_frame [OF inv net]) (auto simp: nf split: if_splits)
qed

lemma managed_env:
  assumes R: "rest_laws R" and E: "order_ok E" and inv: "managed nd m w"
    and step: "static_step R E nd w e n" and foreign: "foreign R m w e"
  shows "managed nd m n"
proof -
  note st = managedD(2) [OF inv] and net = net_inv_step [OF R E managedD(1) [OF inv] step]
  from step show ?thesis
  proof cases
    case step_associate
    then show ?thesis using managed_rerouting [OF associating.rerouting_axioms E inv] foreign by simp
  next
    case step_associate_throws
    then have "n = w" using associating.op_throws [OF step_associate_throws(3)] by simp
    then show ?thesis using inv by simp
  next
    case step_remove
    then show ?thesis using managed_rerouting [OF removing.rerouting_axioms E inv] foreign by simp
  next
    case step_remove_throws
    then have "n = w" using removing.op_throws [OF step_remove_throws(3)] by simp
    then show ?thesis using inv by simp
  next
    case (step_create j uuid addr resp s)
    have "s = proxy w \<or> (\<exists>d. theCallbackReference d = callbackReference R j \<and> s = entered uuid d (proxy w))"
      by (rule created_context [OF R st step_create(3-5)])
    then show ?thesis
    proof
      assume "s = proxy w"
      then show ?thesis using inv by (simp add: step_create)
    next
      assume "\<exists>d. theCallbackReference d = callbackReference R j \<and> s = entered uuid d (proxy w)"
      then show ?thesis
        using managed_created [OF inv net] step_create(4) foreign by (auto simp: step_create(1,2))
    qed
  next
    case (step_update j b s)
    show ?thesis
      using managed_updated [OF R inv net [unfolded step_update(2)] step_update(3,4)] foreign
      by (simp add: step_update(1,2))
  next
    case (step_delete c b s)
    have s: "s = drop_context c (proxy w)" by (rule deleteContext_Ret [OF step_delete(3)])
    show ?thesis
      by (rule managed_frame [OF inv net])
        (use foreign in \<open>auto simp: step_delete(1,2) s opened_def split: if_splits\<close>)
  next
    case (step_add i b s)
    then have "theApplicationsByContextId s = theApplicationsByContextId (proxy w)"
      using apps_contexts(1) [of R nd i "proxy w"] by simp
    then show ?thesis by (intro managed_frame [OF inv net]) (simp_all add: step_add(2))
  next
    case (step_del i b s)
    then have "theApplicationsByContextId s = theApplicationsByContextId (proxy w)"
      using apps_contexts(2) [of R nd i "proxy w"] by simp
    then show ?thesis by (intro managed_frame [OF inv net]) (simp_all add: step_del(2))
  next
    case (step_notify k nf ns p v s)
    then show ?thesis
      using managed_foreign_notice [OF R inv net [unfolded step_notify(2)] step_notify(3,4,5)] foreign
      by (cases nf) (auto simp: step_notify(1,2))
  qed
qed

lemma notify_answer_eq:
  assumes R: "rest_laws R" and split: "split_laws split" and "ue \<noteq> []" "CHR ''/'' \<notin> set ue" "r \<noteq> []"
  shows "notify_answer R nd split answer (mNotificationUri m @ ''/'' @ ue, r, c) m =
    (if map_of (mContexts m) ue = None
     then answer (RuntimeError (''Received notification for unknown UE application '' @ ue))
     else Ret status_NoContent)"
  using handleNotification_own [OF assms, of nd m]
  by (cases "map_of (mContexts m) ue") (simp_all add: notify_answer_def)

lemma opened_option: "c \<in> opened m \<longleftrightarrow> (\<exists>u. map_option mContextId (map_of (mContexts m) u) = Some c)"
  by (simp add: opened_iff)

text \<open>The manager knows every context that it is told about.\<close>

lemma manager_told:
  assumes R: "rest_laws R" and split: "split_laws split" and inv: "managed nd m w"
    and pend: "(cb, r, c) \<in> pending w" and own: "below m cb"
  obtains ue d e where "map_of (mContexts m) ue = Some d" "mContextId d = c" "ue \<noteq> []" "CHR ''/'' \<notin> set ue"
    "cb = mNotificationUri m @ ''/'' @ ue"
    "map_of (theApplicationsByContextId (proxy w)) c = Some e" "theCallbackReference e = cb"
    "theAssociateUeAppId e = ue" "theEdgeRouterEndpoint e = r"
    "notify_manager R nd split (cb, r, c) m =
       m\<lparr>mContexts := umap_assign ue (d\<lparr>mReferenceUri := r\<rparr>) (mContexts m)\<rparr>"
    "notify_answer R nd split answer (cb, r, c) m = Ret status_NoContent"
proof -
  from pend obtain ns where "ns \<in> set (rounds w)" "(cb, r, c) \<in> set ns" by (auto simp: pending_def)
  then have r: "r \<noteq> []" using net_invD(3) [OF managedD(1) [OF inv]] by (force simp: addressed_def)
  from managedD(8) [OF inv pend] own obtain ue d e where d: "map_of (mContexts m) ue = Some d" "mContextId d = c"
    and e: "map_of (theApplicationsByContextId (proxy w)) c = Some e" "theCallbackReference e = cb"
      "theEdgeRouterEndpoint e = r" by (auto simp: opened_iff)
  have cb: "cb = mNotificationUri m @ ''/'' @ ue" "theAssociateUeAppId e = ue"
    using managedD(6) [OF inv d(1)] e d(2) by (auto simp: in_step_def)
  note ue = managedD(4,5) [OF inv d(1)]
  have "notify_manager R nd split (cb, r, c) m = m\<lparr>mContexts := umap_assign ue (d\<lparr>mReferenceUri := r\<rparr>) (mContexts m)\<rparr>"
    using notify_manager_eq [OF R split ue r, of nd m c] d(1) by (simp add: cb)
  moreover have "notify_answer R nd split answer (cb, r, c) m = Ret status_NoContent"
    using notify_answer_eq [OF R split ue r, of nd answer m c] d(1) by (simp add: cb)
  ultimately show thesis using that d e cb ue by blast
qed

text \<open>The manager stores the router of a notification: its other contexts are as they were.\<close>

lemma managed_stored:
  assumes inv: "managed nd m w" and net: "net_inv nd n" and p: "proxy n = proxy w"
    and pn: "pending w = insert (theCallbackReference e, theEdgeRouterEndpoint e, mContextId d) (pending n)"
    and d: "map_of (mContexts m) ue = Some d"
    and e: "map_of (theApplicationsByContextId (proxy w)) (mContextId d) = Some e"
  shows "managed nd (m\<lparr>mContexts := umap_assign ue (d\<lparr>mReferenceUri := theEdgeRouterEndpoint e\<rparr>) (mContexts m)\<rparr>) n"
    (is "managed nd ?m n")
    and "map_option mContextId (map_of (umap_assign ue (d\<lparr>mReferenceUri := theEdgeRouterEndpoint e\<rparr>) (mContexts m)) u) =
      map_option mContextId (map_of (mContexts m) u)"
proof -
  have M: "map_of (mContexts ?m) = (map_of (mContexts m))(ue \<mapsto> d\<lparr>mReferenceUri := theEdgeRouterEndpoint e\<rparr>)"
    using umap.lookup_assign [OF managedD(3) [OF inv] d] by (simp add: fun_eq_iff)
  have ids: "map_option mContextId (map_of (mContexts ?m) u) = map_option mContextId (map_of (mContexts m) u)" for u
    unfolding M using d by simp
  then show "map_option mContextId (map_of (umap_assign ue (d\<lparr>mReferenceUri := theEdgeRouterEndpoint e\<rparr>) (mContexts m)) u) =
      map_option mContextId (map_of (mContexts m) u)" by simp
  have opened: "opened ?m = opened m" using ids by (simp only: set_eq_iff opened_option simp_thms)
  show "managed nd ?m n"
  proof (rule managedI [OF net])
    show "umap_ok (mContexts ?m)" using managedD(3) [OF inv] by (simp add: umap.ok_assign)
    fix ue' d' assume d': "map_of (mContexts ?m) ue' = Some d'"
    then show "ue' \<noteq> []" "CHR ''/'' \<notin> set ue'"
      using d managedD(4,5) [OF inv] unfolding M by (auto split: if_splits)
    obtain d'' where d'': "map_of (mContexts m) ue' = Some d''"
      "d' = (if ue' = ue then d\<lparr>mReferenceUri := theEdgeRouterEndpoint e\<rparr> else d'')"
      using d' d unfolding M by (auto split: if_splits)
    then obtain e' where e': "in_step m w ue' d'' e'" using managedD(6) [OF inv] by blast
    have "theCallbackReference e = mNotificationUri m @ ''/'' @ ue"
      using managedD(6) [OF inv d] e by (auto simp: in_step_def)
    then have "in_step ?m n ue' d' e'"
      using e' d d'' e by (auto simp: in_step_def p pn)
    then show "\<exists>e. in_step ?m n ue' d' e" by blast
  next
    fix c' e' assume "map_of (theApplicationsByContextId (proxy n)) c' = Some e'" "below ?m (theCallbackReference e')"
    then show "c' \<in> opened ?m" unfolding opened using managedD(7) [OF inv] by (simp add: p)
  next
    fix cb' r' c' assume "(cb', r', c') \<in> pending n" and o: "below ?m cb' \<or> c' \<in> opened ?m"
    then have "(cb', r', c') \<in> pending w" by (simp add: pn)
    from managedD(8) [OF inv this] o
    show "c' \<in> opened ?m \<and> (\<exists>e. map_of (theApplicationsByContextId (proxy n)) c' = Some e \<and>
        theCallbackReference e = cb' \<and> theEdgeRouterEndpoint e = r')"
      unfolding opened by (simp add: p)
  qed
qed

lemma managed_told:
  assumes R: "rest_laws R" and E: "order_ok E" and split: "split_laws split" and inv: "managed nd m w"
    and k: "k < length (rounds w)" "rounds w ! k = (cb, r, c) # ns" and own: "below m cb"
    and step: "static_step R E nd w (Notify k True (notify_answer R nd split answer (cb, r, c) m)) n"
  shows "managed nd (notify_manager R nd split (cb, r, c) m) n" and "proxy n = proxy w"
    "rounds n = (rounds w)[k := ns]"
    "\<And>u. map_option mContextId (map_of (mContexts (notify_manager R nd split (cb, r, c) m)) u) =
      map_option mContextId (map_of (mContexts m) u)"
proof -
  have pend: "(cb, r, c) \<in> pending w" using k nth_mem unfolding pending_def by (metis UN_I list.set_intros(1))
  obtain ue d e where d: "map_of (mContexts m) ue = Some d" and c: "mContextId d = c"
    and e: "map_of (theApplicationsByContextId (proxy w)) c = Some e" "theCallbackReference e = cb"
      "theEdgeRouterEndpoint e = r"
    and m: "notify_manager R nd split (cb, r, c) m =
      m\<lparr>mContexts := umap_assign ue (d\<lparr>mReferenceUri := r\<rparr>) (mContexts m)\<rparr>"
    and ans: "notify_answer R nd split answer (cb, r, c) m = Ret status_NoContent"
    by (rule manager_told [OF R split inv pend own, of answer])
  from step have n: "n = \<lparr>proxy = proxy w, rounds = (rounds w)[k := ns]\<rparr>"
  proof cases
    case (step_notify nf ns' s)
    then have eq: "nf = (cb, r, c)" "ns' = ns" using k(2) by auto
    from notify_served(1) [OF R managedD(1) [OF inv] k step_notify(4) [unfolded eq]]
    have "s = proxy w" by (simp add: ans)
    then show ?thesis using step_notify(1) eq by simp
  qed
  then show p: "proxy n = proxy w" and "rounds n = (rounds w)[k := ns]" by simp_all
  have pn: "pending w = insert (theCallbackReference e, theEdgeRouterEndpoint e, mContextId d) (pending n)"
    using pending_served [OF k, of "proxy w"] by (simp add: n e c)
  note stored = managed_stored [OF inv net_inv_step [OF R E managedD(1) [OF inv] step] p pn d e(1) [folded c]]
  show "managed nd (notify_manager R nd split (cb, r, c) m) n" using stored(1) by (simp add: m e)
  show "map_option mContextId (map_of (mContexts (notify_manager R nd split (cb, r, c) m)) u) =
      map_option mContextId (map_of (mContexts m) u)" for u using stored(2) by (simp add: m e)
qed

lemma mec_inv_step:
  assumes R: "rest_laws R" and E: "order_ok E" and split: "split_laws split" and inv: "managed nd (mgr w) (net w)"
    and step: "orderly_step R E nd split addr failed answer w e w'"
  shows "managed nd (mgr w') (net w')"
  using conjunct1 [OF step [unfolded orderly_step_def]]
proof cases
  case (mec_open info ue c x m s)
  note st = managedD(2) [OF inv]
  from open_outcome [OF R st mec_open(3-5) mec_open(8,7) mec_open(9,10,12)]
  show ?thesis
  proof
    assume "m = mgr w \<and> s = proxy (net w)"
    then show ?thesis using inv by (simp add: mec_open(2))
  next
    assume "\<exists>n r. route (map_of (theTable (proxy (net w)))) addr n = Some r \<and> n \<noteq> [] \<and> x = Ret (ue, r) \<and>
      m = (mgr w)\<lparr>mContexts := (ue, \<lparr>mReferenceUri = r, mContextId = c\<rparr>) # mContexts (mgr w)\<rparr> \<and>
      s = with_context c (context_of_manager (mgr w) ue addr n r) (proxy (net w))"
    then obtain n r where r: "route (map_of (theTable (proxy (net w)))) addr n = Some r" "n \<noteq> []"
      and m: "m = (mgr w)\<lparr>mContexts := (ue, \<lparr>mReferenceUri = r, mContextId = c\<rparr>) # mContexts (mgr w)\<rparr>"
      and s: "s = with_context c (context_of_manager (mgr w) ue addr n r) (proxy (net w))" by blast
    have "proxy_inv nd s"
      unfolding s using mec_open(8,9,10) r
      by (intro proxy_inv_with_context [OF net_invD(1) [OF managedD(1) [OF inv]]])
        (simp_all add: context_of_manager_def desc_route_def or_empty_def)
    then have "net_inv nd ((net w)\<lparr>proxy := s\<rparr>)" by (rule net_inv_put [OF managedD(1) [OF inv]])
    from managed_open [OF inv this [unfolded s] mec_open(5,6,7,10,11)] show ?thesis
      by (simp add: mec_open(2) m s)
  qed
next
  case mec_env
  then show ?thesis using managed_env [OF R E inv] step by (simp add: orderly_step_def)
next
  case mec_told
  then show ?thesis using managed_told(1) [OF R E split inv] by simp
qed

interpretation mec_system: step_system mec_init "orderly_step R E nd split addr failed answer"
  "\<lambda>w. rest_laws R \<and> order_ok E \<and> split_laws split \<longrightarrow> managed nd (mgr w) (net w)" for R E nd split addr failed answer
proof
  fix w :: "'a mec"
  assume "mec_init w"
  then show "rest_laws R \<and> order_ok E \<and> split_laws split \<longrightarrow> managed nd (mgr w) (net w)"
    by (auto simp: mec_init_def managed_def net_init_def net_inv_def static_inv_proxy [OF static_inv_init]
        umap_ok_def pending_def)
      (simp add: static_init_def)
next
  fix w w' and e :: "'a mec_event"
  assume "rest_laws R \<and> order_ok E \<and> split_laws split \<longrightarrow> managed nd (mgr w) (net w)"
    "orderly_step R E nd split addr failed answer w e w'"
  then show "rest_laws R \<and> order_ok E \<and> split_laws split \<longrightarrow> managed nd (mgr w') (net w')"
    using mec_inv_step by blast
qed

section \<open>The manager follows the proxy\<close>

lemma managed_router:
  assumes inv: "managed nd m w" and d: "map_of (mContexts m) ue = Some d"
  shows "\<exists>e. map_of (theApplicationsByContextId (proxy w)) (mContextId d) = Some e \<and>
    theAssociateUeAppId e = ue \<and> theCallbackReference e = mNotificationUri m @ ''/'' @ ue \<and>
    (\<forall>r. find_route nd (theTable (proxy w)) (theClientAddress e) (theAppName e) = Ret (Some r) \<longrightarrow>
       manager_referenceUri ue m = Ret r \<or> (theCallbackReference e, r, mContextId d) \<in> pending w)"
proof -
  obtain e where e: "in_step m w ue d e" using managedD(6) [OF inv d] by blast
  then have c: "map_of (theApplicationsByContextId (proxy w)) (mContextId d) = Some e" by (simp add: in_step_def)
  note ctx = static_sound_context [OF managedD(2) [OF inv] c]
  have "r = theEdgeRouterEndpoint e \<and> r \<noteq> []"
    if "find_route nd (theTable (proxy w)) (theClientAddress e) (theAppName e) = Ret (Some r)" for r
    using that ctx(2,3) table_ok_route [OF static_soundD(5) [OF managedD(2) [OF inv]]]
    by (auto simp: find_route_eq desc_route_def or_empty_def)
  then show ?thesis
    using e d unfolding in_step_def manager_referenceUri_def by auto
qed

text \<open>C3. In every state that an orderly run reaches (contexts are opened in one step with unused IDs, the table changes only
  while no notification to the manager is pending, those notifications are not lost, and the other
  clients leave the manager's URI and IDs alone), in both builds, each context of the manager is a
  context of the proxy with the manager's UE application ID and callback, and the router that the routing
  table gives to it is the one that the manager answers, or a notification with that router is pending.\<close>

theorem manager_follows_proxy:
  assumes "rest_laws R" "order_ok E" "split_laws split"
    and w: "reachable mec_init (orderly_step R E nd split addr failed answer) w"
    and d: "map_of (mContexts (mgr w)) ue = Some d"
  shows "\<exists>e. map_of (theApplicationsByContextId (proxy (net w))) (mContextId d) = Some e \<and>
    theAssociateUeAppId e = ue \<and> theCallbackReference e = mNotificationUri (mgr w) @ ''/'' @ ue \<and>
    (\<forall>r. find_route nd (theTable (proxy (net w))) (theClientAddress e) (theAppName e) = Ret (Some r) \<longrightarrow>
       manager_referenceUri ue (mgr w) = Ret r \<or>
       (theCallbackReference e, r, mContextId d) \<in> pending (net w))"
  using managed_router [OF _ d] mec_system.inv_reachable [OF w] assms(1-3) by blast

section \<open>A sample run\<close>

abbreviation sample_split :: "string \<Rightarrow> string \<Rightarrow> string list" where
  "sample_split \<equiv> \<lambda>s _. [tl s]"

definition sample_mec_step :: "json mec \<Rightarrow> json mec_event \<Rightarrow> json mec \<Rightarrow> bool" where
  "sample_mec_step = orderly_step jrest sample_env False sample_split ''10.0.0.1'' Raise Raise"

definition opened_manager :: manager where
  "opened_manager = (AppContextManager ''http://m'' ''http://p'')
     \<lparr>mContexts := [(''ue1'', \<lparr>mReferenceUri = ''http://r1'', mContextId = ''c1''\<rparr>)]\<rparr>"

definition opened_proxy :: "json static_state" where
  "opened_proxy = with_context ''c1'' (sample_desc\<lparr>theCallbackReference := ''http://m/ue1''\<rparr>) sample_table"

definition sample_mec :: "json mec" where
  "sample_mec = \<lparr>mgr = opened_manager, net = \<lparr>proxy = opened_proxy
     \<lparr>theTable := [(AddressAppKey ''10.0.0.1'' ''app'', ''http://r2'')],
      theApplicationsByContextId := [(''c1'', sample_desc\<lparr>theCallbackReference := ''http://m/ue1'',
        theEdgeRouterEndpoint := ''http://r2''\<rparr>)]\<rparr>,
     rounds = [[], [(''http://m/ue1'', ''http://r2'', ''c1'')]]\<rparr>\<rparr>"

lemma sample_env_step:
  "static_step jrest sample_env False n e n' \<Longrightarrow> foreign jrest m n e \<Longrightarrow>
   sample_mec_step \<lparr>mgr = m, net = n\<rparr> (Env e) \<lparr>mgr = m, net = n'\<rparr>"
  using mec_env [of jrest sample_env False "\<lparr>mgr = m, net = n\<rparr>" e n']
  by (simp add: sample_mec_step_def orderly_step_def)

lemma sample_mec_reachable: "reachable mec_init sample_mec_step sample_mec"
proof -
  let ?m = "AppContextManager ''http://m'' ''http://p''"
  let ?apps = "static_init\<lparr>theApplications := [(''app+prov+1.0'', sample_info)]\<rparr>"
  have 0: "reachable mec_init sample_mec_step \<lparr>mgr = ?m, net = \<lparr>proxy = static_init, rounds = []\<rparr>\<rparr>"
    by (rule reachable_init) (simp add: mec_init_def net_init_def AppContextManager_def)
  have "sample_mec_step \<lparr>mgr = ?m, net = \<lparr>proxy = static_init, rounds = []\<rparr>\<rparr> (Env (AddApp sample_info))
      \<lparr>mgr = ?m, net = \<lparr>proxy = ?apps, rounds = []\<rparr>\<rparr>"
    by (rule sample_env_step [OF sample_served_steps(1)]) simp
  note 1 = reachable_step [OF 0, OF this]
  have "sample_mec_step \<lparr>mgr = ?m, net = \<lparr>proxy = ?apps, rounds = []\<rparr>\<rparr>
      (Env (Associate ''10.0.0.1'' ''app'' ''http://r1'')) \<lparr>mgr = ?m, net = \<lparr>proxy = sample_table, rounds = [[]]\<rparr>\<rparr>"
    by (rule sample_env_step [OF sample_served_steps(2)]) (simp add: pending_def untold_def)
  note 2 = reachable_step [OF 1, OF this]
  have "AppInfo_of_json jrest sample_info = Ret sample_info" "is_object jrest sample_info"
    "contextCreate jrest False (post_to_proxy jrest False Raise ''c1'' ''10.0.0.1'') ''ue1'' sample_info (?m, sample_table) =
      (Ret (''ue1'', ''http://r1''), (opened_manager, opened_proxy))" by code_simp+
  with mec_open [where w = "\<lparr>mgr = ?m, net = \<lparr>proxy = sample_table, rounds = [[]]\<rparr>\<rparr>" and R = jrest and nd = False
      and info = sample_info and ue = "''ue1''" and c = "''c1''" and failed = Raise and addr = "''10.0.0.1''"]
  have "sample_mec_step \<lparr>mgr = ?m, net = \<lparr>proxy = sample_table, rounds = [[]]\<rparr>\<rparr> (Open ''ue1'' ''c1'' sample_info)
      \<lparr>mgr = opened_manager, net = \<lparr>proxy = opened_proxy, rounds = [[]]\<rparr>\<rparr>"
    by (simp add: sample_mec_step_def orderly_step_def AppContextManager_def sample_table_def pending_def)
  note 3 = reachable_step [OF 2, OF this]
  have "associateAddress_locked sample_env False ''10.0.0.1'' ''app'' ''http://r2'' opened_proxy =
      (Ret [(''http://m/ue1'', ''http://r2'', ''c1'')], proxy (net sample_mec))" by code_simp
  from static_step_intros(2) [OF this, where R = jrest and rs = "[[]]"]
  have "static_step jrest sample_env False \<lparr>proxy = opened_proxy, rounds = [[]]\<rparr>
      (Associate ''10.0.0.1'' ''app'' ''http://r2'') (net sample_mec)" by (simp add: sample_mec_def)
  then have "sample_mec_step \<lparr>mgr = opened_manager, net = \<lparr>proxy = opened_proxy, rounds = [[]]\<rparr>\<rparr>
      (Env (Associate ''10.0.0.1'' ''app'' ''http://r2'')) \<lparr>mgr = opened_manager, net = net sample_mec\<rparr>"
    by (rule sample_env_step) (simp add: pending_def untold_def)
  from reachable_step [OF 3, OF this] show ?thesis by (simp add: sample_mec_def)
qed

lemma sample_mec_parts: "split_laws sample_split"
  "map_of (mContexts (mgr sample_mec)) ''ue1'' = Some \<lparr>mReferenceUri = ''http://r1'', mContextId = ''c1''\<rparr>"
  "pending (net sample_mec) = {(''http://m/ue1'', ''http://r2'', ''c1'')}"
  by (auto simp: split_laws_def sample_mec_def opened_manager_def pending_def)

lemma sample_mec_route:
  "map_of (theApplicationsByContextId (proxy (net sample_mec))) ''c1'' =
     Some (sample_desc\<lparr>theCallbackReference := ''http://m/ue1'', theEdgeRouterEndpoint := ''http://r2''\<rparr>)"
  "find_route False (theTable (proxy (net sample_mec))) ''10.0.0.1'' ''app'' = Ret (Some ''http://r2'')"
  by code_simp+

theorem manager_follows_proxy_witness:
  "manager_referenceUri ''ue1'' (mgr sample_mec) = Ret ''http://r2'' \<or>
   (''http://m/ue1'', ''http://r2'', ''c1'') \<in> pending (net sample_mec)"
  using manager_follows_proxy [OF jrest_laws sample_env_ok(1) sample_mec_parts(1)
      sample_mec_reachable [unfolded sample_mec_step_def] sample_mec_parts(2)] sample_mec_route
  by (auto simp: sample_desc_def simp del: find_route_def)

end
