(* ===== verification/Mec_Catch_Up.thy ===== *)
theory Mec_Catch_Up
  imports Mec_System
begin

text \<open>
  The pending notifications of the system of \<open>Mec_System\<close> can always be served, in some order of the
  rounds, and serving them brings the manager up to date.
\<close>

section \<open>Serving one notification\<close>

text \<open>Serving a notification: the manager answers its own, the other clients as they like.\<close>

definition serves :: "(notification \<Rightarrow> bool \<times> nat res) \<Rightarrow> 'j mec_event \<Rightarrow> bool" where
  "serves ans e \<longleftrightarrow> (\<exists>k n. e = Told k \<or> e = Env (Notify k (fst (ans n)) (snd (ans n))))"

definition same_contexts :: "'j mec \<Rightarrow> 'j mec \<Rightarrow> bool" where
  "same_contexts w w' \<longleftrightarrow>
     (\<forall>u. map_option mContextId (map_of (mContexts (mgr w')) u) = map_option mContextId (map_of (mContexts (mgr w)) u)) \<and>
     (\<forall>c \<in> opened (mgr w). map_of (theApplicationsByContextId (proxy (net w'))) c =
        map_of (theApplicationsByContextId (proxy (net w))) c)"

lemma same_contexts_trans: "same_contexts w w' \<Longrightarrow> same_contexts w' w'' \<Longrightarrow> same_contexts w w''"
  by (simp add: same_contexts_def opened_option)

lemma serve_own:
  assumes R: "rest_laws R" and E: "order_ok E" and split: "split_laws split" and inv: "managed nd (mgr w) (net w)"
    and k: "k < length (rounds (net w))" "rounds (net w) ! k = (cb, r, c) # ns"
    and cb: "nd \<or> cb \<noteq> []" and own: "below (mgr w) cb"
  shows "\<exists>w'. orderly_step R E nd split addr failed answer w (Told k) w' \<and>
    theTable (proxy (net w')) = theTable (proxy (net w)) \<and> rounds (net w') = (rounds (net w))[k := ns] \<and>
    same_contexts w w'"
proof -
  let ?p = "notify_answer R nd split answer (cb, r, c) (mgr w)"
  have p: "(cb, r, c) \<in> pending (net w)" using k nth_mem unfolding pending_def by (metis UN_I list.set_intros(1))
  have "?p = Ret status_NoContent" by (rule manager_told [OF R split inv p own])
  then have "survives ?p" by simp
  moreover have "nd \<or> fst (cb, r, c) \<noteq> []" using cb by simp
  ultimately obtain s where
    s: "static_step R E nd (net w) (Notify k True ?p) \<lparr>proxy = s, rounds = (rounds (net w))[k := ns]\<rparr>"
    using notify_step [OF R managedD(1) [OF inv] k] by blast
  note told = managed_told [OF R E split inv k own s]
  then have "same_contexts w \<lparr>mgr = notify_manager R nd split (cb, r, c) (mgr w),
      net = \<lparr>proxy = s, rounds = (rounds (net w))[k := ns]\<rparr>\<rparr>"
    by (simp add: same_contexts_def)
  moreover have "orderly_step R E nd split addr failed answer w (Told k)
      \<lparr>mgr = notify_manager R nd split (cb, r, c) (mgr w), net = \<lparr>proxy = s, rounds = (rounds (net w))[k := ns]\<rparr>\<rparr>"
    unfolding orderly_step_def using mec_told [OF k own s] by simp
  ultimately show ?thesis using told(2,3) by (intro exI conjI) (assumption | simp)+
qed

lemma serve_other:
  assumes R: "rest_laws R" and inv: "managed nd (mgr w) (net w)"
    and k: "k < length (rounds (net w))" "rounds (net w) ! k = (cb, r, c) # ns"
    and cb: "nd \<or> cb \<noteq> []" and other: "\<not> below (mgr w) cb" and p: "survives p"
  shows "\<exists>w'. orderly_step R E nd split addr failed answer w (Env (Notify k v p)) w' \<and>
    theTable (proxy (net w')) = theTable (proxy (net w)) \<and> rounds (net w') = (rounds (net w))[k := ns] \<and>
    same_contexts w w'"
proof -
  have "nd \<or> fst (cb, r, c) \<noteq> []" using cb by simp
  then obtain s where s: "static_step R E nd (net w) (Notify k v p) \<lparr>proxy = s, rounds = (rounds (net w))[k := ns]\<rparr>"
    "theTable s = theTable (proxy (net w))"
    using notify_step [OF R managedD(1) [OF inv] k _ p] by blast
  have "foreign R (mgr w) (net w) (Notify k v p)" using other k(2) by simp
  moreover have "same_contexts w (w\<lparr>net := \<lparr>proxy = s, rounds = (rounds (net w))[k := ns]\<rparr>\<rparr>)"
    using s(1)
  proof cases
    case (step_notify nf ns' s')
    then have "nf = (cb, r, c)" "ns' = ns" "s' = s" using k(2) by auto
    from foreign_served [OF R inv k step_notify(4) [unfolded this] other]
    show ?thesis by (auto simp: same_contexts_def)
  qed
  moreover have "orderly_step R E nd split addr failed answer w (Env (Notify k v p))
      (w\<lparr>net := \<lparr>proxy = s, rounds = (rounds (net w))[k := ns]\<rparr>\<rparr>)"
    unfolding orderly_step_def using mec_env [OF s(1)] calculation(1) by simp
  ultimately show ?thesis using s(2) by (intro exI conjI) (assumption | simp)+
qed

lemma serve_one:
  assumes "rest_laws R" "order_ok E" "split_laws split" "managed nd (mgr w) (net w)"
    and k: "k < length (rounds (net w))" "rounds (net w) ! k = n # ns"
    and cb: "nd \<or> (\<forall>(cb, r, c) \<in> pending (net w). cb \<noteq> [])" and ans: "survives (snd (ans n))"
  shows "\<exists>e w'. orderly_step R E nd split addr failed answer w e w' \<and> serves ans e \<and>
    theTable (proxy (net w')) = theTable (proxy (net w)) \<and> rounds (net w') = (rounds (net w))[k := ns] \<and>
    same_contexts w w'"
proof -
  obtain cb r c where n: "n = (cb, r, c)" by (cases n)
  have "n \<in> pending (net w)" using k nth_mem unfolding pending_def by (metis UN_I list.set_intros(1))
  then have ne: "nd \<or> cb \<noteq> []" using cb by (auto simp: n)
  have told: "serves ans (Told k)" "serves ans (Env (Notify k (fst (ans n)) (snd (ans n))))"
    unfolding serves_def by blast+
  show ?thesis
  proof (cases "below (mgr w) cb")
    case True
    from serve_own [OF assms(1-4) k [unfolded n] ne this] told(1) show ?thesis by blast
  next
    case False
    from serve_other [OF assms(1,4) k [unfolded n] ne this ans] told(2) show ?thesis by blast
  qed
qed

section \<open>Serving all of them\<close>

lemma concat_served: "k < length rs \<Longrightarrow> rs ! k = n # ns \<Longrightarrow> length (concat rs) = Suc (length (concat (rs[k := ns])))"
proof (induction rs arbitrary: k)
  case (Cons r rs)
  then show ?case by (cases k) auto
qed simp

lemma drain:
  assumes R: "rest_laws R" and E: "order_ok E" and split: "split_laws split" and inv: "managed nd (mgr w) (net w)"
    and cb: "nd \<or> (\<forall>(cb, r, c) \<in> pending (net w). cb \<noteq> [])" and ans: "\<And>n :: notification. survives (snd (ans n))"
  shows "\<exists>es w'. run (orderly_step R E nd split addr failed answer) w es w' \<and> managed nd (mgr w') (net w') \<and>
    (\<forall>e \<in> set es. serves ans e) \<and>
    pending (net w') = {} \<and> theTable (proxy (net w')) = theTable (proxy (net w)) \<and> same_contexts w w'"
  using inv cb
proof (induction "length (concat (rounds (net w)))" arbitrary: w)
  case 0
  then have "pending (net w) = {}" by (auto simp: pending_def)
  then show ?case using 0 by (intro exI [of _ "[]"] exI [of _ w]) (simp add: same_contexts_def)
next
  case (Suc l)
  then obtain x where "x \<in> set (rounds (net w))" "x \<noteq> []" by (metis concat_eq_Nil_conv length_0_conv nat.simps(3))
  then obtain k n ns where k: "k < length (rounds (net w))" "rounds (net w) ! k = n # ns"
    by (metis in_set_conv_nth list.exhaust)
  obtain e w1 where one: "orderly_step R E nd split addr failed answer w e w1" "serves ans e"
      "theTable (proxy (net w1)) = theTable (proxy (net w))" "rounds (net w1) = (rounds (net w))[k := ns]"
      "same_contexts w w1"
    using serve_one [where ans = ans and addr = addr and failed = failed and answer = answer,
        OF R E split Suc.prems(1) k Suc.prems(2) ans] by blast
  have "managed nd (mgr w1) (net w1)" by (rule mec_inv_step [OF R E split Suc.prems(1) one(1)])
  moreover have "l = length (concat (rounds (net w1)))"
    using concat_served [OF k] Suc.hyps(2) unfolding one(4) by simp
  moreover have "pending (net w1) \<subseteq> pending (net w)"
    using pending_served [OF k, of "proxy (net w)"] one(4) by (auto simp: pending_def)
  ultimately obtain es w' where "run (orderly_step R E nd split addr failed answer) w1 es w'" "managed nd (mgr w') (net w')"
    "\<forall>e \<in> set es. serves ans e"
    "pending (net w') = {}" "theTable (proxy (net w')) = theTable (proxy (net w1))"
    "same_contexts w1 w'"
    using Suc.hyps(1) [of w1] Suc.prems(2) by (auto; blast)
  with one same_contexts_trans [OF one(5)] show ?case
    by (intro exI [of _ "e # es"] exI [of _ w']) (auto simp: run_Cons)
qed

text \<open>What a debug build does not serve: its assertion on the callback stops it.\<close>

lemma unserved_step:
  assumes "mec_step R E False split addr failed answer w e w'" and p: "([], r, c) \<in> pending (net w)"
  shows "([], r, c) \<in> pending (net w')"
proof -
  obtain ns where ns: "ns \<in> set (rounds (net w))" "([], r, c) \<in> set ns" using p by (auto simp: pending_def)
  have stays: "([], r, c) \<in> pending n" if "static_step R E False (net w) e' n" for e' n
    using callbackless_stays [OF that ns] by (auto simp: pending_def)
  from assms(1) show ?thesis
  proof cases
    case mec_open
    then show ?thesis using p by simp
  next
    case mec_env
    then show ?thesis using stays by simp
  next
    case mec_told
    then show ?thesis using stays by simp
  qed
qed

lemma unserved_run:
  "run (mec_step R E False split addr failed answer) w es w' \<Longrightarrow> ([], r, c) \<in> pending (net w) \<Longrightarrow>
   ([], r, c) \<in> pending (net w')"
  by (induction rule: run.induct) (blast intro: unserved_step)+

lemma caught_up:
  assumes R: "rest_laws R" and E: "order_ok E" and split: "split_laws split"
    and w: "reachable mec_init (orderly_step R E nd split addr failed answer) w"
    and cb: "nd \<or> (\<forall>(cb, r, c) \<in> pending (net w). cb \<noteq> [])" and ans: "\<And>n :: notification. survives (snd (ans n))"
  shows "\<exists>es w'. run (orderly_step R E nd split addr failed answer) w es w' \<and>
    (\<forall>e \<in> set es. serves ans e) \<and>
    pending (net w') = {} \<and> theTable (proxy (net w')) = theTable (proxy (net w)) \<and>
    (\<forall>ue d. map_of (mContexts (mgr w)) ue = Some d \<longrightarrow>
      (\<exists>e. map_of (theApplicationsByContextId (proxy (net w))) (mContextId d) = Some e \<and>
        map_of (theApplicationsByContextId (proxy (net w'))) (mContextId d) = Some e \<and>
        (\<forall>r. find_route nd (theTable (proxy (net w))) (theClientAddress e) (theAppName e) = Ret (Some r) \<longrightarrow>
           manager_referenceUri ue (mgr w') = Ret r)))"
proof -
  have "managed nd (mgr w) (net w)" using mec_system.inv_reachable [OF w] R E split by blast
  from drain [where ans = ans and addr = addr and failed = failed and answer = answer, OF R E split this cb ans] obtain es w' where
    w': "run (orderly_step R E nd split addr failed answer) w es w'" "managed nd (mgr w') (net w')"
      "\<forall>e \<in> set es. serves ans e"
      "pending (net w') = {}" "theTable (proxy (net w')) = theTable (proxy (net w))"
      "same_contexts w w'"
    by blast
  have "\<exists>e. map_of (theApplicationsByContextId (proxy (net w))) (mContextId d) = Some e \<and>
      map_of (theApplicationsByContextId (proxy (net w'))) (mContextId d) = Some e \<and>
      (\<forall>r. find_route nd (theTable (proxy (net w))) (theClientAddress e) (theAppName e) = Ret (Some r) \<longrightarrow>
         manager_referenceUri ue (mgr w') = Ret r)" if d: "map_of (mContexts (mgr w)) ue = Some d" for ue d
  proof -
    have "map_option mContextId (map_of (mContexts (mgr w')) ue) = Some (mContextId d)"
      using w'(6) d by (simp add: same_contexts_def)
    then obtain d' where d': "map_of (mContexts (mgr w')) ue = Some d'" "mContextId d' = mContextId d" by auto
    have "mContextId d \<in> opened (mgr w)" using d unfolding opened_iff by blast
    then have "map_of (theApplicationsByContextId (proxy (net w'))) (mContextId d) =
        map_of (theApplicationsByContextId (proxy (net w))) (mContextId d)"
      using w'(6) by (simp add: same_contexts_def)
    with managed_router [OF w'(2) d'(1)] d'(2) w'(4,5) show ?thesis by auto
  qed
  with w' show ?thesis by blast
qed

text \<open>C4. From every state that an orderly run reaches (see C3) the pending notifications can all be served,
  whatever the other clients answer, and then every context of the manager answers the router that the
  table of the proxy gives to it: the same contexts, the same table, none of the manager's contexts purged
  on the way. A debug build with a pending notification of an empty callback never serves all of
  them, along any run, orderly or not.\<close>

theorem manager_catches_up:
  assumes R: "rest_laws R" and E: "order_ok E" and split: "split_laws split"
    and w: "reachable mec_init (orderly_step R E nd split addr failed answer) w"
    and ans: "\<And>n :: notification. survives (snd (ans n))"
  shows "if nd \<or> (\<forall>(cb, r, c) \<in> pending (net w). cb \<noteq> [])
    then \<exists>es w'. run (orderly_step R E nd split addr failed answer) w es w' \<and>
        (\<forall>e \<in> set es. serves ans e) \<and>
        pending (net w') = {} \<and> theTable (proxy (net w')) = theTable (proxy (net w)) \<and>
        (\<forall>ue d. map_of (mContexts (mgr w)) ue = Some d \<longrightarrow>
          (\<exists>e. map_of (theApplicationsByContextId (proxy (net w))) (mContextId d) = Some e \<and>
            map_of (theApplicationsByContextId (proxy (net w'))) (mContextId d) = Some e \<and>
            (\<forall>r. find_route nd (theTable (proxy (net w))) (theClientAddress e) (theAppName e) = Ret (Some r) \<longrightarrow>
               manager_referenceUri ue (mgr w') = Ret r)))
    else \<forall>es w'. run (mec_step R E nd split addr failed answer) w es w' \<longrightarrow> pending (net w') \<noteq> {}"
proof (cases "nd \<or> (\<forall>(cb, r, c) \<in> pending (net w). cb \<noteq> [])")
  case True
  from caught_up [where ans = ans, OF R E split w this ans] True show ?thesis by (simp only: if_True)
next
  case False
  then obtain r c where "\<not> nd" "([], r, c) \<in> pending (net w)" by blast
  then have "\<forall>es w'. run (mec_step R E nd split addr failed answer) w es w' \<longrightarrow> pending (net w') \<noteq> {}"
    using unserved_run [of R E split addr failed answer w _ _ r c] by auto
  with False show ?thesis by (simp only: if_False)
qed

theorem manager_catches_up_witness:
  "\<exists>es w'. run sample_mec_step sample_mec es w' \<and> pending (net w') = {} \<and>
     manager_referenceUri ''ue1'' (mgr w') = Ret ''http://r2''"
proof -
  have "\<forall>(cb, r, c) \<in> pending (net sample_mec). cb \<noteq> []" by (simp add: sample_mec_parts(3))
  with manager_catches_up [where ans = "\<lambda>_. (True, Ret 204)", OF jrest_laws sample_env_ok(1) sample_mec_parts(1)
      sample_mec_reachable [unfolded sample_mec_step_def]] sample_mec_parts(2)
  obtain es w' where "run sample_mec_step sample_mec es w'" "pending (net w') = {}"
    "find_route False (theTable (proxy (net sample_mec))) ''10.0.0.1'' ''app'' = Ret (Some ''http://r2'') \<longrightarrow>
       manager_referenceUri ''ue1'' (mgr w') = Ret ''http://r2''"
    by (fastforce simp: sample_mec_route(1) sample_desc_def sample_mec_step_def)
  with sample_mec_route(2) show ?thesis by blast
qed

end
