(* ===== verification/Mec_Overtaken.thy ===== *)
theory Mec_Overtaken
  imports Mec_System
begin

text \<open>
  \<open>AppContextManager::contextCreate\<close> stores the context after the proxy has answered
  (appcontextmanager.cpp, the \<open>emplace\<close> after \<open>simplePost\<close>), so a notification can overtake it.
  \<open>post_overtaken\<close> is the POST with an administrator's \<open>associateAddress\<close> between the proxy's answer
  and the return to the manager.
\<close>

section \<open>The two sides of the race\<close>

definition post_overtaken ::
  "('j, 't) rest_api \<Rightarrow> 'j static_env \<Rightarrow> bool \<Rightarrow> (exn \<Rightarrow> (nat \<times> 'j) res) \<Rightarrow> string \<Rightarrow> string \<Rightarrow> string \<Rightarrow> string \<Rightarrow>
     string \<Rightarrow> 'j \<Rightarrow> 'j static_state \<Rightarrow> (nat \<times> 'j) res \<times> 'j static_state" where
  "post_overtaken R E nd failed uuid addr n r uri j s =
     (case post_to_proxy R nd failed uuid addr uri j s of
        (ret, s) \<Rightarrow> (ret, snd (associateAddress R E nd addr n r s)))"

text \<open>A POST to a notification URI of the manager is answered by the manager.\<close>

definition reaches_manager ::
  "('j, 't) rest_api \<Rightarrow> bool \<Rightarrow> (string \<Rightarrow> string \<Rightarrow> string list) \<Rightarrow> (exn \<Rightarrow> nat res) \<Rightarrow> manager \<Rightarrow> 'j static_env \<Rightarrow> bool" where
  "reaches_manager R nd split answer m E \<longleftrightarrow> (\<forall>i ue r c ev. ue \<noteq> [] \<and> CHR ''/'' \<notin> set ue \<and> r \<noteq> [] \<and> NotificationEvent R r = Ret ev \<longrightarrow>
     uri_validate E (mNotificationUri m @ ''/'' @ ue) \<and>
     client_post E i (mNotificationUri m @ ''/'' @ ue) (datatype_toJson R ev) =
       notify_answer R nd split answer (mNotificationUri m @ ''/'' @ ue, r, c) m)"

lemma unanswered_mem:
  assumes "(cb, r, c) \<in> set ns" and "uri_validate E cb"
    and "\<And>i. \<exists>ev st. NotificationEvent R r = Ret ev \<and> client_post E i cb (datatype_toJson R ev) = Ret st \<and> st \<noteq> status_NoContent"
  shows "c \<in> set (unanswered R E i ns)"
  using assms(1)
proof (induction ns arbitrary: i)
  case (Cons n ns)
  obtain cb' r' c' where n: "n = (cb', r', c')" by (cases n)
  show ?case using Cons assms(2,3) by (auto simp: n)
qed simp

section \<open>The round of notifications overtakes the manager\<close>

text \<open>The round of an administrator that moves a context whose client does not accept the notification.\<close>

lemma moved_and_refused:
  assumes R: "rest_laws R" and E: "order_ok E" "posts_survive E" and inv: "static_inv s"
    and n: "n \<noteq> []" "addr \<noteq> []" and r': "r' \<noteq> []"
    and d: "map_of (theApplicationsByContextId s) c = Some d" "theClientAddress d = addr" "theAppName d = n"
      "theEdgeRouterEndpoint d \<noteq> r'"
    and served: "\<And>c d. map_of (theApplicationsByContextId s) c = Some d \<Longrightarrow>
      theCallbackReference d \<noteq> [] \<and> theEdgeRouterEndpoint d \<noteq> []"
    and valid: "uri_validate E (theCallbackReference d)"
    and refused: "\<And>i. \<exists>ev st. NotificationEvent R r' = Ret ev \<and>
      client_post E i (theCallbackReference d) (datatype_toJson R ev) = Ret st \<and> st \<noteq> status_NoContent"
  shows "\<exists>s'. snd (associateAddress R E nd addr n r' s) = s' \<and> static_inv s' \<and>
    map_of (theApplicationsByContextId s') c = None \<and> edgeRouter nd addr n s' = Ret r'"
proof -
  let ?t = "(map_of (theTable s))(AddressAppKey addr n \<mapsto> r')"
  have "\<not> routeless ?t n s"
  proof
    assume "routeless ?t n s"
    then obtain c' d where d: "map_of (theApplicationsByContextId s) c' = Some d" "desc_route ?t d = None"
      by (auto simp: routeless_def)
    then have "desc_route (map_of (theTable s)) d = None" by (auto simp: desc_route_def route_upd split: if_splits)
    then show False using static_inv_context(3) [OF inv d(1)] served [OF d(1)] by (simp add: or_empty_def)
  qed
  then obtain ns t where op: "associateAddress_locked E nd addr n r' s = (Ret ns, t)" and re: "rerouted ?t s ns t"
    using associate_locked_eq(2) [OF E(1) static_inv_sound [OF inv] n(1) r' refl, where a = addr and nd = nd] by auto
  let ?s' = "fold drop_context (unanswered R E 0 ns) t"
  note round = rerouting_then_notify [OF associating.rerouting_axioms R E static_inv_proxy [OF inv] op]
  have s': "snd (associateAddress R E nd addr n r' s) = ?s'" "static_inv ?s'"
    using round(1) round(3) [OF _ inv] served by (auto simp: associateAddress_def op)
  have "(theCallbackReference d, r', c) \<in> set ns"
    unfolding rerouted_notes [OF re] using d by (auto simp: desc_route_def route_def)
  from unanswered_mem [OF this valid refused] have "c \<in> set (unanswered R E 0 ns)" .
  then have "map_of (theApplicationsByContextId ?s') c = None" by (simp add: fold_drop_contexts)
  moreover have "edgeRouter nd addr n ?s' = Ret r'"
    using n re by (simp add: edgeRouter_def find_route_eq rerouted_def route_def fold_drop_sel)
  ultimately show ?thesis using s' by blast
qed

text \<open>C21. When the client is moved between the proxy's answer to \<open>contextCreate\<close> and the manager
  storing the context, the manager refuses the notification, the proxy purges the context, and yet
  \<open>contextCreate\<close> returns the old router and stores it: the manager holds a context that the proxy
  does not know, with a router that is no longer the one of the table.\<close>

theorem early_notification_purges:
  assumes R: "rest_laws R" and E: "order_ok E" "posts_survive E" and inv: "static_inv s" and split: "split_laws split"
    and info: "request_info R info" "AppInfo_of_json R info = Ret info" "is_object R info"
      "fName (app_fields_of R info) = Some n"
    and known: "map_of (theApplications s) (app_key R info) \<noteq> None"
    and r: "route (map_of (theTable s)) addr n = Some r" and addr: "addr \<noteq> []"
    and ue: "ue \<noteq> []" "map_of (theApplicationsByUeAppId s) ue = None" "map_of (mContexts m) ue = None" "CHR ''/'' \<notin> set ue"
    and c: "c \<noteq> []" "map_of (theApplicationsByContextId s) c = None"
    and r': "r' \<noteq> []" "r' \<noteq> r"
    and others: "\<forall>c d. map_of (theApplicationsByContextId s) c = Some d \<longrightarrow>
      theCallbackReference d \<noteq> [] \<and> theEdgeRouterEndpoint d \<noteq> []"
    and manager: "reaches_manager R nd split answer m E" "\<And>e. \<exists>st. answer e = Ret st \<and> st \<noteq> status_NoContent"
  shows "\<exists>s'. contextCreate R nd (post_overtaken R E nd failed c addr n r') ue info (m, s) =
      (Ret (ue, r), (m\<lparr>mContexts := (ue, \<lparr>mReferenceUri = r, mContextId = c\<rparr>) # mContexts m\<rparr>, s')) \<and>
    static_inv s' \<and> map_of (theApplicationsByContextId s') c = None \<and> edgeRouter nd addr n s' = Ret r'"
proof -
  let ?d = "context_of_manager m ue addr n r" and ?cb = "mNotificationUri m @ ''/'' @ ue"
  let ?s1 = "with_context c ?d s"
  obtain ctx resp info' where ctx: "AppContext_request R nd ue ?cb info = Ret ctx"
    and post: "\<forall>failed uri. post_to_proxy R nd failed c addr uri ctx s = (Ret (status_Created, resp), ?s1)"
    and resp: "context_ok R resp ue info'" "response_info R info'" "string_field R resp ''contextId'' \<noteq> None"
      "AppContext_of_json R resp = Ret resp" "referenceUri R nd info' = Ret r" "contextId R resp = c"
    by (rule context_posted [where nd = nd and m = m, OF R static_inv_sound [OF inv] info known r ue(1,2) c])
  have n: "n \<noteq> []" using AppInfo_of_json_sound [OF R info(2)] info(4) by (auto simp: app_acceptable_def)
  have inv1: "static_inv ?s1"
    using ue c r n by (intro static_inv_with_context [OF inv])
      (simp_all add: context_of_manager_def desc_route_def or_empty_def)
  have served: "theCallbackReference d \<noteq> [] \<and> theEdgeRouterEndpoint d \<noteq> []"
    if "map_of (theApplicationsByContextId ?s1) c' = Some d" for c' d
    using that others table_ok_route [OF static_invD(5) [OF inv] r]
    by (auto simp: context_of_manager_def split: if_splits)
  obtain ev where ev: "NotificationEvent R r' = Ret ev" using NotificationEvent_fields [OF R r'(1)] by blast
  have reach: "uri_validate E ?cb"
    "client_post E i ?cb (datatype_toJson R ev) = notify_answer R nd split answer (?cb, r', c) m" for i
    using manager(1) ue(1,4) r'(1) ev unfolding reaches_manager_def by blast+
  obtain st where "notify_answer R nd split answer (?cb, r', c) m = Ret st" "st \<noteq> status_NoContent"
    using notify_answer_eq [OF R split ue(1,4) r'(1), of nd answer m c] ue(3) manager(2) by auto
  with reach have "\<exists>ev st. NotificationEvent R r' = Ret ev \<and>
      client_post E i ?cb (datatype_toJson R ev) = Ret st \<and> st \<noteq> status_NoContent" for i using ev by simp
  then obtain s' where s': "snd (associateAddress R E nd addr n r' ?s1) = s'" "static_inv s'"
    "map_of (theApplicationsByContextId s') c = None" "edgeRouter nd addr n s' = Ret r'"
    using moved_and_refused [where nd = nd, OF R E inv1 n addr r'(1) _ _ _ _ served, of c ?d] reach(1) r'(2)
    by (auto simp: context_of_manager_def)
  have "contextCreate R nd (post_overtaken R E nd failed c addr n r') ue info (m, s) =
      (Ret (ue, r), (m\<lparr>mContexts := (ue, \<lparr>mReferenceUri = r, mContextId = c\<rparr>) # mContexts m\<rparr>, s'))"
    using contextCreate_answered [where post = "post_overtaken R E nd failed c addr n r'" and w = s and w' = s',
        OF R info(1) ctx _ resp(1-5)] ue(3)
    by (simp add: post_overtaken_def post s'(1) resp(6) umap_emplace_def)
  with s' show ?thesis by blast
qed

theorem early_notification_purges_witness:
  "\<exists>s'. contextCreate jrest False (post_overtaken jrest (sample_env\<lparr>client_post := \<lambda>_ _ _. Ret 500\<rparr>) False Raise
       ''c1'' ''10.0.0.1'' ''app'' ''http://r2'') ''ue1'' sample_info (AppContextManager ''http://m'' ''http://p'', sample_table) =
     (Ret (''ue1'', ''http://r1''), (opened_manager, s')) \<and>
   map_of (theApplicationsByContextId s') ''c1'' = None"
proof -
  let ?E = "sample_env\<lparr>client_post := \<lambda>_ _ _. Ret 500\<rparr>" and ?m = "AppContextManager ''http://m'' ''http://p''"
  have f: "AppInfo_of_json jrest sample_info = Ret sample_info" "is_object jrest sample_info"
    "fName (app_fields_of jrest sample_info) = Some ''app''" "map_of (theApplications sample_table) (app_key jrest sample_info) \<noteq> None"
    by code_simp+
  have E: "order_ok ?E" "posts_survive ?E" by (simp_all add: sample_env_def order_ok_def posts_survive_def)
  have "reaches_manager jrest False sample_split (\<lambda>_. Ret 500) ?m ?E"
    using notify_answer_eq [OF jrest_laws sample_mec_parts(1), where nd = False and answer = "\<lambda>_. Ret 500" and m = ?m]
    by (simp add: reaches_manager_def sample_env_def) (simp add: AppContextManager_def)
  from early_notification_purges [where nd = False and failed = Raise, OF jrest_laws E sample_table_inv sample_mec_parts(1)
      sample_parsed(3) f, where addr = "''10.0.0.1''" and r = "''http://r1''" and r' = "''http://r2''" and ue = "''ue1''"
        and c = "''c1''", OF _ _ _ _ _ _ _ _ _ _ _ this]
  show ?thesis by (auto simp: sample_table_def route_def AppContextManager_def opened_manager_def)
qed

end
