(* ===== verification/Wsk.thy ===== *)
theory Wsk
  imports Etsi_Utils
begin

text \<open>
  The OpenWhisk client (src/OpenWhisk): \<open>ActionKey\<close> and \<open>Action\<close> (action.h, action.cpp), the
  base class \<open>Command\<close> (command.h, command.cpp), \<open>Invoker\<close> (invoker.cpp) and \<open>Lister\<close>
  (lister.cpp).

  Parameters (record \<open>wsk_env\<close>): the empty JSON object, \<open>parse\<close> and \<open>serialize\<close> of cpprest, and
  the POST and GET of \<open>rest::Client\<close> with the Authorization header: the API root, the header, the
  path and the query, and for a POST the body.
\<close>

section \<open>Actions\<close>

datatype ActionKey = ActionKey (keySpace: string) (keyName: string)

definition ActionKey_less :: "ActionKey \<Rightarrow> ActionKey \<Rightarrow> bool" where
  "ActionKey_less a aOther \<longleftrightarrow>
     keySpace a < keySpace aOther \<or> (keySpace a = keySpace aOther \<and> keyName a < keyName aOther)"

definition ActionKey_eq :: "ActionKey \<Rightarrow> ActionKey \<Rightarrow> bool" where
  "ActionKey_eq a aOther \<longleftrightarrow> keySpace a = keySpace aOther \<and> keyName a = keyName aOther"

definition ActionKey_toString :: "ActionKey \<Rightarrow> string" where
  "ActionKey_toString a = ''/'' @ keySpace a @ ''/'' @ keyName a"

text \<open>The order that \<open>std::map\<close> uses is the code's \<open>operator<\<close>; it is a strict total order.\<close>

instantiation ActionKey :: linorder
begin

definition less_ActionKey :: "ActionKey \<Rightarrow> ActionKey \<Rightarrow> bool" where
  "less_ActionKey = ActionKey_less"

definition less_eq_ActionKey :: "ActionKey \<Rightarrow> ActionKey \<Rightarrow> bool" where
  "less_eq_ActionKey a b \<longleftrightarrow> ActionKey_less a b \<or> a = b"

instance
proof
  fix x y z :: ActionKey
  show "x < y \<longleftrightarrow> x \<le> y \<and> \<not> y \<le> x"
    by (cases x; cases y) (auto simp: less_ActionKey_def less_eq_ActionKey_def ActionKey_less_def)
  show "x \<le> x" by (simp add: less_eq_ActionKey_def)
  show "x \<le> y \<Longrightarrow> y \<le> z \<Longrightarrow> x \<le> z"
    by (cases x; cases y; cases z) (auto simp: less_eq_ActionKey_def ActionKey_less_def)
  show "x \<le> y \<Longrightarrow> y \<le> x \<Longrightarrow> x = y"
    by (cases x; cases y) (auto simp: less_eq_ActionKey_def ActionKey_less_def)
  show "x \<le> y \<or> y \<le> x"
    by (cases x; cases y) (auto simp: less_eq_ActionKey_def ActionKey_less_def)
qed

end

record Action =
  theSpace :: string
  theName :: string
  theUpdatedAt :: "64 word"
  theVersion :: string

definition Action_make :: "string \<Rightarrow> string \<Rightarrow> 64 word \<Rightarrow> string \<Rightarrow> Action" where
  "Action_make aSpace aName aUpdated aVersion =
     \<lparr>theSpace = aSpace, theName = aName, theUpdatedAt = aUpdated, theVersion = aVersion\<rparr>"

definition Action_space :: "Action \<Rightarrow> string" where
  "Action_space a = theSpace a"

definition Action_name :: "Action \<Rightarrow> string" where
  "Action_name a = theName a"

definition Action_updated :: "Action \<Rightarrow> 64 word" where
  "Action_updated a = theUpdatedAt a"

definition Action_version :: "Action \<Rightarrow> string" where
  "Action_version a = theVersion a"

definition Action_key :: "Action \<Rightarrow> ActionKey" where
  "Action_key a = ActionKey (theSpace a) (theName a)"

definition Action_eq :: "Action \<Rightarrow> Action \<Rightarrow> bool" where
  "Action_eq a aOther \<longleftrightarrow>
     theSpace a = theSpace aOther \<and> theName a = theName aOther \<and>
     theUpdatedAt a = theUpdatedAt aOther \<and> theVersion a = theVersion aOther"

definition Action_toString :: "Action \<Rightarrow> string" where
  "Action_toString a =
     ActionKey_toString (Action_key a) @ '', updated '' @ to_string (unat (theUpdatedAt a)) @
     '', version '' @ theVersion a"

definition sameKeys :: "(ActionKey \<times> Action) list \<Rightarrow> (ActionKey \<times> Action) list \<Rightarrow> bool" where
  "sameKeys aLhs aRhs =
     (if length aLhs \<noteq> length aRhs then False
      else
        let myLhs = set (map (\<lambda>elem. ActionKey_toString (fst elem)) aLhs);
            myRhs = set (map (\<lambda>elem. ActionKey_toString (fst elem)) aRhs)
        in myLhs = myRhs)"

section \<open>Commands\<close>

record wsk_command =
  cApiRoot :: string
  cPath :: string
  cAuth :: string

definition Command :: "string \<Rightarrow> string \<Rightarrow> wsk_command res" where
  "Command aApiRoot aAuth =
     (let c = \<lparr>cApiRoot = aApiRoot, cPath = ''/api/v1/namespaces/'', cAuth = ''Basic '' @ aAuth\<rparr>
      in if aApiRoot = [] then Raise (RuntimeError ''Invalid empty OpenWhisk API root'')
         else if aAuth = [] then Raise (RuntimeError ''Invalid empty OpenWhisk auth token'')
         else Ret c)"

definition command_apiRoot :: "wsk_command \<Rightarrow> string" where
  "command_apiRoot c = cApiRoot c"

text \<open>The getter returns the path.\<close>

definition command_auth :: "wsk_command \<Rightarrow> string" where
  "command_auth c = cPath c"

record 'j wsk_env =
  json_object :: 'j
  json_parse :: "string \<Rightarrow> 'j res"
  json_serialize :: "'j \<Rightarrow> string"
  wsk_post :: "string \<Rightarrow> string \<Rightarrow> 'j \<Rightarrow> string \<Rightarrow> string \<Rightarrow> (nat \<times> 'j) res"
  wsk_get :: "string \<Rightarrow> string \<Rightarrow> string \<Rightarrow> string \<Rightarrow> (nat \<times> 'j) res"

section \<open>Invoking an action\<close>

definition theQuery :: string where
  "theQuery = ''blocking=true&result=true''"

text \<open>The two handlers of \<open>operator()\<close>: a crash is not survived.\<close>

fun describe_error :: "(bool \<times> string) res \<Rightarrow> (bool \<times> string) res" where
  "describe_error (Raise (RuntimeError m)) = Ret (False, ''error encountered: '' @ m)"
| "describe_error (Raise (OtherStd m)) = Ret (False, ''error encountered: '' @ m)"
| "describe_error (Raise NonStd) = Ret (False, ''unknown error encountered'')"
| "describe_error r = r"

definition Invoker_call ::
  "('j, 'z) json_api_scheme \<Rightarrow> 'j wsk_env \<Rightarrow> wsk_command \<Rightarrow> string \<Rightarrow> string \<Rightarrow> string \<Rightarrow>
     (bool \<times> string) res" where
  "Invoker_call J W c aName aSpace aParams =
     describe_error
       (res_bind (json_parse W aParams) (\<lambda>v.
        res_bind (wsk_post W (cApiRoot c) (cAuth c) v
           (cPath c @ (if aSpace = [] then ''_'' else aSpace) @ ''/actions/'' @ aName) theQuery)
          (\<lambda>res.
        if fst res \<noteq> status_OK then
          Ret (False, ''unexpected HTTP response: '' @ to_string (fst res))
        else if \<not> has_string_field J (snd res) ''payload'' then
          Ret (False, ''unexpected body: payload field missing'')
        else
          res_bind (json_at J (snd res) ''payload'') (\<lambda>p.
          res_bind (as_string J p) (\<lambda>s. Ret (True, s))))))"

text \<open>\<open>Parameters\<close> is a \<open>std::map\<close>, visited in key order.\<close>

definition Invoker_call_map ::
  "('j, 'z) json_api_scheme \<Rightarrow> 'j wsk_env \<Rightarrow> wsk_command \<Rightarrow> string \<Rightarrow> string \<Rightarrow>
     (string \<times> string) list \<Rightarrow> (bool \<times> string) res" where
  "Invoker_call_map J W c aName aSpace aParams =
     Invoker_call J W c aName aSpace (json_serialize W
       (fold (\<lambda>elem v. json_set J v (fst elem) (json_of_string J (snd elem))) aParams
          (json_object W)))"

definition Invoker_call_plain ::
  "('j, 'z) json_api_scheme \<Rightarrow> 'j wsk_env \<Rightarrow> wsk_command \<Rightarrow> string \<Rightarrow> string \<Rightarrow>
     (bool \<times> string) res" where
  "Invoker_call_plain J W c aName aSpace = Invoker_call_map J W c aName aSpace []"

section \<open>Listing the actions\<close>

definition makeQuery :: "64 word \<Rightarrow> 64 word \<Rightarrow> string" where
  "makeQuery aLimit aSkip =
     ''limit='' @ to_string (unat aLimit) @ ''&skip='' @ to_string (unat aSkip)"

definition list_elem :: "('j, 'z) json_api_scheme \<Rightarrow> 'j \<Rightarrow> Action res" where
  "list_elem J elem =
     (if \<not> is_object J elem \<or> \<not> has_string_field J elem ''name'' \<or>
         \<not> has_string_field J elem ''namespace'' \<or> \<not> has_number_field J elem ''updated'' \<or>
         \<not> has_string_field J elem ''version''
      then Raise (RuntimeError ''unexpected response: mandatory field missing'')
      else
        res_bind (res_bind (json_at J elem ''namespace'') (as_string J)) (\<lambda>space.
        res_bind (res_bind (json_at J elem ''name'') (as_string J)) (\<lambda>name.
        res_bind (res_bind (json_at J elem ''updated'') (as_uint64 J)) (\<lambda>updated.
        res_bind (res_bind (json_at J elem ''version'') (as_string J)) (\<lambda>version.
        Ret (Action_make space name updated version))))))"

fun list_loop ::
  "('j, 'z) json_api_scheme \<Rightarrow> 'j list \<Rightarrow> (ActionKey \<times> Action) list \<Rightarrow>
     (ActionKey \<times> Action) list res" where
  "list_loop J [] ret = Ret ret"
| "list_loop J (elem # elems) ret =
     res_bind (list_elem J elem) (\<lambda>myAction.
     list_loop J elems (fst (omap_emplace (Action_key myAction) myAction ret)))"

definition Lister_call ::
  "('j, 'z) json_api_scheme \<Rightarrow> 'j wsk_env \<Rightarrow> wsk_command \<Rightarrow> 64 word \<Rightarrow> 64 word \<Rightarrow>
     (ActionKey \<times> Action) list res" where
  "Lister_call J W c aLimit aSkip =
     res_bind (wsk_get W (cApiRoot c) (cAuth c) (cPath c @ ''_/actions/'') (makeQuery aLimit aSkip))
       (\<lambda>res.
     if fst res \<noteq> status_OK then
       Raise (RuntimeError (''unexpected HTTP response: '' @ to_string (fst res)))
     else if \<not> is_array J (snd res) then
       Raise (RuntimeError ''unexpected response: not an array'')
     else res_bind (as_array J (snd res)) (\<lambda>elems. list_loop J elems []))"

section \<open>Lemmas\<close>

lemma ActionKey_eq_iff [simp]: "ActionKey_eq a b \<longleftrightarrow> a = b"
  by (cases a; cases b) (simp add: ActionKey_eq_def)

lemma Action_eq_iff [simp]: "Action_eq a b \<longleftrightarrow> a = b"
  by (cases a; cases b) (simp add: Action_eq_def)

lemma split_first_slash:
  "CHR ''/'' \<notin> set a \<Longrightarrow> CHR ''/'' \<notin> set c \<Longrightarrow> a @ ''/'' @ b = c @ ''/'' @ d \<Longrightarrow> a = c \<and> b = d"
proof (induction a arbitrary: c)
  case Nil
  then show ?case by (cases c) auto
next
  case (Cons x a)
  then show ?case by (cases c) auto
qed

lemma split_last_slash:
  assumes "CHR ''/'' \<notin> set b" "CHR ''/'' \<notin> set d" "a @ ''/'' @ b = c @ ''/'' @ d"
  shows "a = c \<and> b = d"
proof -
  have "rev b @ ''/'' @ rev a = rev d @ ''/'' @ rev c"
    using arg_cong [OF assms(3), of rev] by simp
  then have "rev b = rev d \<and> rev a = rev c"
    using assms(1,2) by (intro split_first_slash) auto
  then show ?thesis by simp
qed

definition slash_free :: "(ActionKey \<Rightarrow> string) \<Rightarrow> (ActionKey \<times> Action) list \<Rightarrow> bool" where
  "slash_free f m \<longleftrightarrow> (\<forall>k \<in> fst ` set m. CHR ''/'' \<notin> set (f k))"

lemma toString_inj_on:
  assumes "slash_free keySpace m \<and> slash_free keySpace m' \<or> slash_free keyName m \<and> slash_free keyName m'"
  shows "inj_on ActionKey_toString (fst ` set m \<union> fst ` set m')"
proof (rule inj_onI)
  fix x y
  assume x: "x \<in> fst ` set m \<union> fst ` set m'" and y: "y \<in> fst ` set m \<union> fst ` set m'"
    and eq: "ActionKey_toString x = ActionKey_toString y"
  from eq have e: "keySpace x @ ''/'' @ keyName x = keySpace y @ ''/'' @ keyName y"
    by (simp add: ActionKey_toString_def)
  from assms have "keySpace x = keySpace y \<and> keyName x = keyName y"
  proof
    assume "slash_free keySpace m \<and> slash_free keySpace m'"
    then show ?thesis using x y e by (intro split_first_slash) (auto simp: slash_free_def)
  next
    assume "slash_free keyName m \<and> slash_free keyName m'"
    then show ?thesis using x y e by (intro split_last_slash) (auto simp: slash_free_def)
  qed
  then show "x = y" by (cases x; cases y) simp
qed

lemma sameKeys_strings:
  "sameKeys m m' \<longleftrightarrow> length m = length m' \<and>
     ActionKey_toString ` fst ` set m = ActionKey_toString ` fst ` set m'"
  by (simp add: sameKeys_def image_comp comp_def)

lemma omap_length_keys: "omap_ok m \<Longrightarrow> length m = card (fst ` set m)"
  by (metis distinct_card length_map omap_ok_distinct set_map)

text \<open>The loop of the lister: the first action of each key is kept.\<close>

definition first_with :: "Action list \<Rightarrow> ActionKey \<Rightarrow> Action option" where
  "first_with as k = find (\<lambda>a. Action_key a = k) as"

lemma list_loop_Ret:
  assumes "list_all2 (\<lambda>e a. list_elem J e = Ret a) elems as" and "omap_ok ret"
  shows "\<exists>ret'. list_loop J elems ret = Ret ret' \<and> omap_ok ret' \<and>
    map_of ret' = (\<lambda>k. case map_of ret k of Some a \<Rightarrow> Some a | None \<Rightarrow> first_with as k)"
  using assms
proof (induction elems as arbitrary: ret rule: list_all2_induct)
  case Nil
  then show ?case by (auto simp: first_with_def fun_eq_iff split: option.split)
next
  case (Cons e elems a as)
  let ?r = "fst (omap_emplace (Action_key a) a ret)"
  obtain ret' where r: "list_loop J elems ?r = Ret ret'" "omap_ok ret'"
    "map_of ret' = (\<lambda>k. case map_of ?r k of Some a \<Rightarrow> Some a | None \<Rightarrow> first_with as k)"
    using Cons.IH [OF omap.ok_insert [OF Cons.prems]] by blast
  have "map_of ?r = (\<lambda>k. case map_of ret k of Some a \<Rightarrow> Some a
      | None \<Rightarrow> if k = Action_key a then Some a else None)"
  proof (cases "map_of ret (Action_key a)")
    case None
    then show ?thesis using omap.lookup_new [OF Cons.prems None, of a]
      by (auto simp: fun_eq_iff split: option.split)
  next
    case (Some b)
    then show ?thesis using omap.insert_old [OF Cons.prems Some, of a]
      by (auto simp: fun_eq_iff split: option.split)
  qed
  then have "map_of ret' = (\<lambda>k. case map_of ret k of Some a \<Rightarrow> Some a | None \<Rightarrow> first_with (a # as) k)"
    unfolding r(3) by (auto simp: first_with_def fun_eq_iff split: option.split)
  then show ?case using r(1,2) Cons.hyps by auto
qed

lemma list_loop_Raise:
  "list_all2 (\<lambda>e a. list_elem J e = Ret a) es as \<Longrightarrow> list_elem J e = Raise ex \<Longrightarrow>
   list_loop J (es @ e # es') ret = Raise ex"
  by (induction es as arbitrary: ret rule: list_all2_induct) simp_all

section \<open>Properties\<close>

text \<open>C36. When the namespaces of both maps contain no slash, or the names of both contain none, sameKeys
  holds iff the two maps have the same keys.\<close>

theorem sameKeys_correct:
  assumes m: "omap_ok m" "omap_ok m'"
    and slash: "slash_free keySpace m \<and> slash_free keySpace m' \<or> slash_free keyName m \<and> slash_free keyName m'"
  shows "sameKeys m m' \<longleftrightarrow> dom (map_of m) = dom (map_of m')"
proof -
  note inj = toString_inj_on [OF slash]
  have "ActionKey_toString ` fst ` set m = ActionKey_toString ` fst ` set m' \<longleftrightarrow> fst ` set m = fst ` set m'"
    by (rule inj_on_image_eq_iff [OF inj]) auto
  moreover have "fst ` set m = fst ` set m' \<Longrightarrow> length m = length m'"
    using omap_length_keys [OF m(1)] omap_length_keys [OF m(2)] by simp
  ultimately show ?thesis by (auto simp: sameKeys_strings dom_map_of_conv_image_fst)
qed

theorem sameKeys_correct_witness:
  "sameKeys [(ActionKey ''a'' ''b'', Action_make ''a'' ''b'' 1 ''0.1'')] [(ActionKey ''a'' ''b'', Action_make ''a'' ''b'' 2 ''0.2'')]"
  by (subst sameKeys_correct) (auto simp: omap_ok_def slash_free_def)

theorem sameKeys_collision:
  "sameKeys [(ActionKey ''a/b'' ''c'', x)] [(ActionKey ''a'' ''b/c'', y)] \<and>
   dom (map_of [(ActionKey ''a/b'' ''c'', x)]) \<noteq> dom (map_of [(ActionKey ''a'' ''b/c'', y)])"
  by (simp add: sameKeys_strings ActionKey_toString_def)

text \<open>C37. The lister fails for a status other than 200 and for a body that is not an array, throws what
  the first element that is not well formed makes it throw, and otherwise returns the ordered map
  that holds the first action of each key.\<close>

theorem Lister_correct:
  assumes get: "wsk_get W (cApiRoot c) (cAuth c) (cPath c @ ''_/actions/'') (makeQuery lim skip) = Ret (status, body)"
    and arr: "is_array J body \<Longrightarrow> as_array J body = Ret elems"
    and good: "list_all2 (\<lambda>e a. list_elem J e = Ret a) (take n elems) as"
    and bad: "n < length elems \<Longrightarrow> list_elem J (elems ! n) = Raise e"
  shows "if status \<noteq> status_OK then Lister_call J W c lim skip =
      Raise (RuntimeError (''unexpected HTTP response: '' @ to_string status))
    else if \<not> is_array J body then Lister_call J W c lim skip =
      Raise (RuntimeError ''unexpected response: not an array'')
    else if n < length elems then Lister_call J W c lim skip = Raise e
    else \<exists>m. Lister_call J W c lim skip = Ret m \<and> omap_ok m \<and> map_of m = first_with as"
proof (cases "status = status_OK \<and> is_array J body")
  case False
  then show ?thesis by (auto simp: Lister_call_def get)
next
  case True
  then have call: "Lister_call J W c lim skip = list_loop J elems []"
    using arr by (simp add: Lister_call_def get)
  show ?thesis
  proof (cases "n < length elems")
    case True
    from list_loop_Raise [OF good bad [OF True]] id_take_nth_drop [OF True]
    have "list_loop J elems [] = Raise e" by metis
    then show ?thesis using True \<open>status = status_OK \<and> is_array J body\<close> call by simp
  next
    case f: False
    from list_loop_Ret [of J elems as "[]"] good f
    have "\<exists>m. list_loop J elems [] = Ret m \<and> omap_ok m \<and> map_of m = first_with as"
      by (simp add: omap_ok_def)
    then show ?thesis using f True call by simp
  qed
qed


definition sample_action :: json where
  "sample_action = JObject [(''name'', JString ''f''), (''namespace'', JString ''guest''),
     (''updated'', JNumber 7), (''version'', JString ''0.1'')]"

definition sample_wsk :: "json wsk_env" where
  "sample_wsk = \<lparr>json_object = JObject [], json_parse = (\<lambda>s. Ret (JString s)), json_serialize = (\<lambda>_. []),
     wsk_post = (\<lambda>_ _ v _ _. Ret (200, JObject [(''payload'', v)])),
     wsk_get = (\<lambda>_ _ _ _. Ret (200, JArray [sample_action]))\<rparr>"

definition sample_command :: wsk_command where
  "sample_command = \<lparr>cApiRoot = ''http://h'', cPath = ''/api/v1/namespaces/'', cAuth = ''Basic t''\<rparr>"

theorem Lister_correct_witness:
  "\<exists>m. Lister_call jrest sample_wsk sample_command 10 0 = Ret m \<and>
     map_of m (ActionKey ''guest'' ''f'') = Some (Action_make ''guest'' ''f'' 7 ''0.1'')"
proof -
  have "list_elem jrest sample_action = Ret (Action_make ''guest'' ''f'' 7 ''0.1'')" by code_simp
  then have good: "list_all2 (\<lambda>e a. list_elem jrest e = Ret a) (take 1 [sample_action]) [Action_make ''guest'' ''f'' 7 ''0.1'']"
    by simp
  have arr: "is_array jrest (JArray [sample_action])" "as_array jrest (JArray [sample_action]) = Ret [sample_action]"
    by (simp_all add: jrest_def)
  have get: "wsk_get sample_wsk (cApiRoot sample_command) (cAuth sample_command)
      (cPath sample_command @ ''_/actions/'') (makeQuery 10 0) = Ret (200, JArray [sample_action])"
    by (simp add: sample_wsk_def)
  from Lister_correct [OF get arr(2) good, of "RuntimeError []"] arr(1)
  show ?thesis by (auto simp: first_with_def Action_key_def Action_make_def)
qed

text \<open>C38. The invoker never throws: it answers true with the payload iff the parameters parse, the POST of
  the action path with the blocking query is answered 200 and the body has a string payload, and
  false with a message otherwise.\<close>

theorem Invoker_outcome:
  assumes R: "rest_laws R" and parse: "survives (json_parse W params)"
    and post: "\<And>v p. survives (wsk_post W (cApiRoot c) (cAuth c) v p theQuery)"
  shows "let path = cPath c @ (if space = [] then ''_'' else space) @ ''/actions/'' @ name;
      payload = (case json_parse W params of
          Ret v \<Rightarrow> (case wsk_post W (cApiRoot c) (cAuth c) v path theQuery of
              Ret (status, body) \<Rightarrow> (if status = status_OK then string_field R body ''payload'' else None)
            | _ \<Rightarrow> None)
        | _ \<Rightarrow> None)
    in case payload of Some text \<Rightarrow> Invoker_call R W c name space params = Ret (True, text)
       | None \<Rightarrow> \<exists>m. Invoker_call R W c name space params = Ret (False, m)"
proof (cases "json_parse W params")
  case (Raise e)
  then show ?thesis by (cases e) (simp_all add: Invoker_call_def)
next
  case (Ret v)
  let ?path = "cPath c @ (if space = [] then ''_'' else space) @ ''/actions/'' @ name"
  have "survives (wsk_post W (cApiRoot c) (cAuth c) v ?path theQuery)" by (rule post)
  then consider e where "wsk_post W (cApiRoot c) (cAuth c) v ?path theQuery = Raise e"
    | st body where "wsk_post W (cApiRoot c) (cAuth c) v ?path theQuery = Ret (st, body)"
    by (cases "wsk_post W (cApiRoot c) (cAuth c) v ?path theQuery") auto
  then show ?thesis
  proof cases
    case (1 e)
    then show ?thesis using Ret by (cases e) (simp_all add: Invoker_call_def)
  next
    case (2 st body)
    note call = Invoker_call_def has_string_field_iff [OF R] json_at_eq [OF R]
    show ?thesis
    proof (cases "string_field R body ''payload''")
      case None
      then show ?thesis using Ret 2 by (cases "space = []") (simp_all add: call)
    next
      case (Some t)
      then obtain p where "json_object_at R body ''payload'' = Ret p" "as_string R p = Ret t"
        by (auto simp: string_field_eq_Some)
      with Some show ?thesis using Ret 2 by (cases "space = []") (simp_all add: call)
    qed
  qed
qed (use parse in simp_all)

theorem Invoker_outcome_witness:
  "Invoker_call jrest sample_wsk sample_command ''f'' [] ''hi'' = Ret (True, ''hi'')"
proof -
  have w: "json_parse sample_wsk ''hi'' = Ret (JString ''hi'')"
    "wsk_post sample_wsk r a (JString ''hi'') p q = Ret (200, JObject [(''payload'', JString ''hi'')])" for r a p q
    by (simp_all add: sample_wsk_def)
  have "string_field jrest (JObject [(''payload'', JString ''hi'')]) ''payload'' = Some ''hi''" by code_simp
  moreover have "survives (json_parse sample_wsk ''hi'')" "\<And>v p. survives (wsk_post sample_wsk
      (cApiRoot sample_command) (cAuth sample_command) v p theQuery)" by (simp_all add: sample_wsk_def)
  note inv = Invoker_outcome [OF jrest_laws this, of "[]" "''f''"]
  ultimately show ?thesis using inv by (simp add: w)
qed

end
