(* ===== verification/Mec_Cli.thy ===== *)
theory Mec_Cli
  imports App_List_Client
begin

text \<open>
  The tools around the proxies: \<open>EtsiMecOptions\<close> (EtsiMec/etsimecoptions.cpp), the commands and
  the Mattermost bridge of Executables/etsimeccli.cpp, and the \<open>main\<close> of that program.

  Parameters: \<open>validate\<close> is \<open>web::uri::validate\<close>; \<open>get\<close> the GET of \<open>rest::Client\<close>; \<open>split_query\<close>,
  \<open>decode\<close> and \<open>split\<close> the functions of cpprest and of the submodule that the bridge calls; the
  options that boost parsed are arguments. \<open>parse\<close> is the outcome of \<open>CliOptions::parse\<close>, the value
  given for \<open>--etsi-api-root\<close> or what boost throws; the options of a program are \<open>None\<close> when the
  parse throws \<open>CliExit\<close>, which both programs treat as success.
\<close>

section \<open>Options\<close>

record etsi_mec_options =
  theApiRoot :: string

definition EtsiMecOptions ::
  "(string \<Rightarrow> bool) \<Rightarrow> string option res \<Rightarrow> string \<Rightarrow> bool \<Rightarrow> etsi_mec_options res" where
  "EtsiMecOptions validate parse aDefaultApiRoot aDefaultApiRootRequired =
     res_bind parse (\<lambda>given.
     let root = (case given of Some r \<Rightarrow> r | None \<Rightarrow> aDefaultApiRoot)
     in if aDefaultApiRootRequired \<and> (root = [] \<or> \<not> validate root)
        then Raise (RuntimeError ''The UE app LCM proxy root cannot be empty or invalid'')
        else Ret \<lparr>theApiRoot = root\<rparr>)"

definition apiRoot :: "etsi_mec_options \<Rightarrow> string" where
  "apiRoot myCli = theApiRoot myCli"

section \<open>The command app_list\<close>

definition newline :: string where
  "newline = [CHR 0x0A]"

definition app_line ::
  "('j, 't, 'z) rest_api_scheme \<Rightarrow> bool \<Rightarrow> bool \<Rightarrow> bool \<Rightarrow> 'j \<Rightarrow> string res" where
  "app_line R nd aVerbose aMattermost myAppInfo =
     (if aMattermost then
        res_bind (appName R nd myAppInfo) (\<lambda>n.
        res_bind (appProvider R nd myAppInfo) (\<lambda>p.
        Ret ('' | '' @ n @ '' | '' @ p @ '' | '' @ appSoftVersion R myAppInfo @ '' | '' @ newline)))
      else if aVerbose then
        res_bind (print_AppInfo R nd myAppInfo) (\<lambda>s. Ret (s @ newline))
      else
        res_bind (appName R nd myAppInfo) (\<lambda>n.
        res_bind (appProvider R nd myAppInfo) (\<lambda>p.
        Ret (n @ '', '' @ p @ '', '' @ appSoftVersion R myAppInfo @ newline))))"

definition table_header :: string where
  "table_header = '' | appName  | appProvider | appSoftVersion |'' @ newline @
     '' | -------- | ----------- | -------------- |'' @ newline"

definition command ::
  "('j, 't, 'z) rest_api_scheme \<Rightarrow> bool \<Rightarrow> (string \<Rightarrow> bool) \<Rightarrow>
     (string \<Rightarrow> string \<Rightarrow> (nat \<times> 'j) res) \<Rightarrow> string \<Rightarrow> string \<Rightarrow> bool \<Rightarrow> bool \<Rightarrow> string res" where
  "command R nd validate get aApiRoot aCommand aVerbose aMattermost =
     res_bind (cassert nd (aApiRoot \<noteq> [])) (\<lambda>_.
     res_bind (cassert nd (validate aApiRoot)) (\<lambda>_.
     if aCommand = ''app_list'' then
       res_bind (AppListClient R get aApiRoot) (\<lambda>apps.
       res_bind (map_res (app_line R nd aVerbose aMattermost) apps) (\<lambda>ls.
       Ret ((if aMattermost then table_header else []) @ concat ls)))
     else Raise (RuntimeError (''Unknown command: '' @ aCommand))))"

section \<open>The Mattermost bridge\<close>

text \<open>The bridge: its URI and token, and the route its constructor registers (\<open>handlePost\<close>).\<close>

record MattermostProxy =
  mmUri :: string
  mmToken :: string

definition MattermostProxy_routes :: "(http_method \<times> string) list" where
  "MattermostProxy_routes = [(POST, ''(.*)'')]"

record post_form =
  myAuthorized :: bool
  myUsername :: string
  myText :: "string list"

text \<open>The loop over the fields: \<open>web::uri::decode\<close> throws for a malformed percent-encoding.\<close>

fun read_form ::
  "(string \<Rightarrow> string res) \<Rightarrow> (string \<Rightarrow> string \<Rightarrow> string list) \<Rightarrow> string \<Rightarrow> (string \<times> string) list \<Rightarrow>
     post_form \<Rightarrow> post_form res" where
  "read_form decode split theToken [] f = Ret f"
| "read_form decode split theToken (myPair # ps) f =
     res_bind (decode (snd myPair)) (\<lambda>myDecoded.
     read_form decode split theToken ps
       (if fst myPair = ''token'' then
          (if myDecoded = theToken then f\<lparr>myAuthorized := True\<rparr> else f)
        else if fst myPair = ''user_name'' then f\<lparr>myUsername := myDecoded\<rparr>
        else if fst myPair = ''text'' then f\<lparr>myText := split myDecoded ''+''\<rparr>
        else f))"

text \<open>The loop over the words: \<open>myFail\<close>, \<open>myCommand\<close>, \<open>myApiRoot\<close>.\<close>

fun read_words :: "string list \<Rightarrow> string \<Rightarrow> string \<Rightarrow> bool \<times> string \<times> string" where
  "read_words [] myCommand myApiRoot = (False, myCommand, myApiRoot)"
| "read_words [w] myCommand myApiRoot =
     (w = ''command'' \<or> w = ''apiroot'', myCommand, myApiRoot)"
| "read_words (w # v # ws) myCommand myApiRoot =
     (if w = ''command'' then read_words ws v myApiRoot
      else if w = ''apiroot'' then read_words ws myCommand v
      else read_words (v # ws) myCommand myApiRoot)"

text \<open>The text of the answer: the two \<open>catch\<close> clauses, \<open>std::runtime_error\<close> first.\<close>

fun answer_text :: "string res \<Rightarrow> string res" where
  "answer_text (Raise (RuntimeError m)) = Ret (''Invalid response from ETSI MEC server: '' @ m)"
| "answer_text (Raise e) = Ret ''Invalid response from ETSI MEC server''"
| "answer_text r = r"

text \<open>
  The replies that the handler sends, in order, with the outcome. \<open>aBody\<close> is what \<open>extract_string\<close>
  gives, the body or an exception, which \<open>wait\<close> throws again. A second reply to one request makes
  cpprest throw (\<open>again\<close>).
\<close>

definition handlePost ::
  "('j, 't, 'z) rest_api_scheme \<Rightarrow> bool \<Rightarrow> (string \<Rightarrow> bool) \<Rightarrow>
     (string \<Rightarrow> string \<Rightarrow> (nat \<times> 'j) res) \<Rightarrow> (string \<Rightarrow> (string \<times> string) list) \<Rightarrow> (string \<Rightarrow> string res) \<Rightarrow>
     (string \<Rightarrow> string \<Rightarrow> string list) \<Rightarrow> exn \<Rightarrow> string \<Rightarrow> string res \<Rightarrow>
     unit res \<times> 'j http_reply list" where
  "handlePost R nd validate get split_query decode split again theToken aBody =
     and_then (aBody, []) (\<lambda>myBody _.
     and_then (read_form decode split theToken (split_query myBody)
         \<lparr>myAuthorized = False, myUsername = [], myText = []\<rparr>, []) (\<lambda>f _.
     let replies = (if myAuthorized f then [] else [Reply status_Unauthorized (Some (json_null R))]);
         (myFail, myCommand, myApiRoot) = read_words (myText f) ''app_list'' [];
         text = (if myApiRoot = [] \<or> myFail then
                   Ret (''Invalid input:'' @ concat (map (\<lambda>v. '' '' @ v) (myText f)))
                 else
                   answer_text (res_bind (command R nd validate get myApiRoot myCommand False True)
                     (\<lambda>c. Ret (''Hello '' @ myUsername f @ '', the list of ETSI MEC applications on '' @
                       myApiRoot @ '' is:'' @ newline @ newline @ c))))
     in and_then (text, replies) (\<lambda>t replies.
          if replies = [] then
            (Ret (), [Reply status_OK (Some (json_set R (json_null R) ''text'' (json_of_string R t)))])
          else (Raise again, replies))))"

section \<open>The programs\<close>

datatype exit_code = EXIT_SUCCESS | EXIT_FAILURE

fun exit_of :: "'a res \<Rightarrow> exit_code res" where
  "exit_of (Ret x) = Ret EXIT_SUCCESS"
| "exit_of (Raise e) = Ret EXIT_FAILURE"
| "exit_of Abort = Abort"
| "exit_of Undef = Undef"

text \<open>
  The options of \<open>etsimeccli\<close> as they stand on the command line, and the variables after the parse,
  with the defaults that the program registers.
\<close>

record cli_given =
  given_command :: "string option"
  given_mm_root :: "string option"
  given_mm_token :: "string option"
  given_mm_output :: bool
  given_verbose :: bool

definition default_value :: "string \<Rightarrow> string option \<Rightarrow> string" where
  "default_value d given = (case given of Some v \<Rightarrow> v | None \<Rightarrow> d)"

text \<open>What the program does: it runs a \<open>MattermostProxy\<close> with its URI and token, or prints.\<close>

datatype cli_action = RunBridge MattermostProxy | Print string

definition etsimeccli ::
  "('j, 't, 'z) rest_api_scheme \<Rightarrow> bool \<Rightarrow> (string \<Rightarrow> bool) \<Rightarrow>
     (string \<Rightarrow> string \<Rightarrow> (nat \<times> 'j) res) \<Rightarrow> string option res \<Rightarrow> cli_given \<Rightarrow> cli_action res" where
  "etsimeccli R nd validate get parse given =
     (let myMmProxyRoot = default_value [] (given_mm_root given);
          myMmToken = default_value [] (given_mm_token given);
          myCommand = default_value ''app_list'' (given_command given)
      in res_bind (EtsiMecOptions validate parse ''http://127.0.0.1:6500'' True) (\<lambda>myCli.
         let myVerbose = given_verbose given; myMattermost = given_mm_output given
         in if myVerbose \<and> myMattermost then
           Raise (RuntimeError ''Incompatible options --verbose and --mattermost-output'')
         else if myMmProxyRoot \<noteq> [] then
           (if \<not> validate myMmProxyRoot then
              Raise (RuntimeError (''Invalid Mattermost root: '' @ myMmProxyRoot))
            else Ret (RunBridge \<lparr>mmUri = myMmProxyRoot, mmToken = myMmToken\<rparr>))
         else res_map Print (command R nd validate get (apiRoot myCli) myCommand myVerbose myMattermost)))"

text \<open>\<open>serve_bridge\<close> is the start of the bridge and the pause that follows, until a signal ends it.\<close>

definition etsimeccli_main ::
  "('j, 't, 'z) rest_api_scheme \<Rightarrow> bool \<Rightarrow> (string \<Rightarrow> bool) \<Rightarrow>
     (string \<Rightarrow> string \<Rightarrow> (nat \<times> 'j) res) \<Rightarrow> (MattermostProxy \<Rightarrow> unit res) \<Rightarrow>
     (string option res \<times> cli_given) option \<Rightarrow> exit_code res" where
  "etsimeccli_main R nd validate get serve_bridge opts =
     (case opts of
        None \<Rightarrow> Ret EXIT_SUCCESS
      | Some (parse, given) \<Rightarrow>
          exit_of (res_bind (etsimeccli R nd validate get parse given)
            (\<lambda>act. case act of RunBridge myMmProxy \<Rightarrow> serve_bridge myMmProxy | Print out \<Rightarrow> Ret ())))"

section \<open>Lemmas\<close>

text \<open>Reference for the words: the last value given to each key, unless a key ends the text.\<close>

fun pairs_of :: "string list \<Rightarrow> (string \<times> string) list option" where
  "pairs_of [] = Some []"
| "pairs_of [w] = (if w = ''command'' \<or> w = ''apiroot'' then None else Some [])"
| "pairs_of (w # v # ws) =
     (if w = ''command'' \<or> w = ''apiroot'' then map_option (\<lambda>ps. ps @ [(w, v)]) (pairs_of ws)
      else pairs_of (v # ws))"

lemma read_words_Cons:
  "w = k \<Longrightarrow> k = ''command'' \<Longrightarrow> read_words (w # v # ws) c r = read_words ws v r"
  "w = k \<Longrightarrow> k = ''apiroot'' \<Longrightarrow> read_words (w # v # ws) c r = read_words ws c v"
  "w \<noteq> ''command'' \<Longrightarrow> w \<noteq> ''apiroot'' \<Longrightarrow> read_words (w # v # ws) c r = read_words (v # ws) c r"
  by simp_all

lemma pairs_of_Cons:
  "w = ''command'' \<or> w = ''apiroot'' \<Longrightarrow>
     pairs_of (w # v # ws) = map_option (\<lambda>ps. ps @ [(w, v)]) (pairs_of ws)"
  "w \<noteq> ''command'' \<Longrightarrow> w \<noteq> ''apiroot'' \<Longrightarrow> pairs_of (w # v # ws) = pairs_of (v # ws)"
  by simp_all

definition last_value :: "(string \<times> string) list \<Rightarrow> string \<Rightarrow> string \<Rightarrow> string" where
  "last_value ps k d = (case map_of ps k of Some v \<Rightarrow> v | None \<Rightarrow> d)"

lemma last_value_snoc:
  "last_value (ps @ [(k, v)]) k d = last_value ps k v"
  "k' \<noteq> k \<Longrightarrow> last_value (ps @ [(k, v)]) k' d = last_value ps k' d"
  by (simp_all add: last_value_def map_add_def split: option.split)

lemma read_words_pairs:
  "(case pairs_of ws of None \<Rightarrow> fst (read_words ws c r)
    | Some ps \<Rightarrow> read_words ws c r =
        (False, last_value ps ''command'' c, last_value ps ''apiroot'' r))"
proof (induction ws c r rule: read_words.induct)
  case (3 w v ws c r)
  consider "w = ''command''" | "w = ''apiroot''" | "w \<noteq> ''command''" "w \<noteq> ''apiroot''" by blast
  then show ?case
  proof cases
    case 1
    then have IH: "case pairs_of ws of None \<Rightarrow> fst (read_words ws v r)
      | Some ps \<Rightarrow> read_words ws v r = (False, last_value ps ''command'' v, last_value ps ''apiroot'' r)"
      by (rule 3(1))
    then show ?thesis
      unfolding read_words_Cons(1) [OF 1 refl] pairs_of_Cons(1) [OF disjI1, OF 1]
      by (cases "pairs_of ws") (simp_all add: 1 last_value_snoc)
  next
    case 2
    then have "w \<noteq> ''command''" by simp
    then have IH: "case pairs_of ws of None \<Rightarrow> fst (read_words ws c v)
      | Some ps \<Rightarrow> read_words ws c v = (False, last_value ps ''command'' c, last_value ps ''apiroot'' v)"
      using 2 by (rule 3(2))
    then show ?thesis
      unfolding read_words_Cons(2) [OF 2 refl] pairs_of_Cons(1) [OF disjI2, OF 2]
      by (cases "pairs_of ws") (simp_all add: 2 last_value_snoc)
  next
    case 3
    then show ?thesis
      unfolding read_words_Cons(3) [OF 3] pairs_of_Cons(2) [OF 3]
      by (rule "3.IH"(3))
  qed
qed (simp_all add: last_value_def)

text \<open>Reference for the form: the fields with their values decoded, in order.\<close>

definition decoded :: "(string \<Rightarrow> string res) \<Rightarrow> (string \<times> string) list \<Rightarrow> (string \<times> string) list res" where
  "decoded decode ps = map_res (\<lambda>p. res_map (Pair (fst p)) (decode (snd p))) ps"

definition text_words :: "(string \<Rightarrow> string \<Rightarrow> string list) \<Rightarrow> (string \<times> string) list \<Rightarrow> string list \<Rightarrow> string list" where
  "text_words split ds ws = (case map_of (rev ds) ''text'' of Some v \<Rightarrow> split v ''+'' | None \<Rightarrow> ws)"

lemma read_form_eq:
  "read_form decode split tok ps f = res_map (\<lambda>ds. f
     \<lparr>myAuthorized := myAuthorized f \<or> (''token'', tok) \<in> set ds,
      myUsername := last_value (rev ds) ''user_name'' (myUsername f),
      myText := text_words split ds (myText f)\<rparr>) (decoded decode ps)"
proof (induction ps arbitrary: f)
  case Nil
  then show ?case by (simp add: decoded_def res_map_def last_value_def text_words_def)
next
  case (Cons p ps)
  show ?case
  proof (cases "decode (snd p)")
    case (Ret d)
    consider "fst p = ''token''" | "fst p = ''user_name''" | "fst p = ''text''"
      | "fst p \<noteq> ''token''" "fst p \<noteq> ''user_name''" "fst p \<noteq> ''text''" by blast
    then show ?thesis
      by cases (cases "decoded decode ps"; auto simp: Cons Ret decoded_def res_map_def last_value_def text_words_def
          split: option.split)+
  qed (simp_all add: decoded_def res_map_def)
qed

lemma answer_text_cases:
  "answer_text m = (case m of Ret s \<Rightarrow> Ret s
     | Raise (RuntimeError e) \<Rightarrow> Ret (''Invalid response from ETSI MEC server: '' @ e)
     | Raise _ \<Rightarrow> Ret ''Invalid response from ETSI MEC server'' | Abort \<Rightarrow> Abort | Undef \<Rightarrow> Undef)"
  by (cases m rule: answer_text.cases) auto

text \<open>The command line with no option at all: the list of applications of the default root.\<close>

lemma etsimeccli_defaults:
  assumes "validate ''http://127.0.0.1:6500''"
  shows "etsimeccli R nd validate get (Ret None) \<lparr>given_command = None, given_mm_root = None,
      given_mm_token = None, given_mm_output = False, given_verbose = False\<rparr> =
    res_map Print (command R nd validate get ''http://127.0.0.1:6500'' ''app_list'' False False)"
  using assms by (simp add: etsimeccli_def EtsiMecOptions_def default_value_def apiRoot_def)

lemma etsimeccli_incompatible:
  "given_verbose g \<Longrightarrow> given_mm_output g \<Longrightarrow>
   \<exists>e. etsimeccli R nd validate get (Ret root) g = Raise e"
  by (simp add: etsimeccli_def EtsiMecOptions_def Let_def)

lemma handlePost_no_body: "handlePost R nd validate get split_query decode split again theToken (Raise e) = (Raise e, [])"
  by (simp add: handlePost_def)

section \<open>Properties\<close>

text \<open>The text that the bridge answers to the words of a message: what is wrong with them, or what comes of
  the command with the last root and command they give.\<close>

definition invalid_input :: "string list \<Rightarrow> string" where
  "invalid_input ws = ''Invalid input:'' @ concat (map (\<lambda>w. '' '' @ w) ws)"

definition bridge_text ::
  "('j, 't, 'z) rest_api_scheme \<Rightarrow> bool \<Rightarrow> (string \<Rightarrow> bool) \<Rightarrow> (string \<Rightarrow> string \<Rightarrow> (nat \<times> 'j) res) \<Rightarrow>
     string \<Rightarrow> string list \<Rightarrow> string res" where
  "bridge_text R nd validate get user ws =
     (case pairs_of ws of
        None \<Rightarrow> Ret (invalid_input ws)
      | Some kvs \<Rightarrow>
          (let root = last_value kvs ''apiroot'' []
           in if root = [] then Ret (invalid_input ws)
              else case command R nd validate get root (last_value kvs ''command'' ''app_list'') False True of
                Ret c \<Rightarrow> Ret (''Hello '' @ user @ '', the list of ETSI MEC applications on '' @ root @
                  '' is:'' @ newline @ newline @ c)
              | Raise (RuntimeError m) \<Rightarrow> Ret (''Invalid response from ETSI MEC server: '' @ m)
              | Raise e \<Rightarrow> Ret ''Invalid response from ETSI MEC server''
              | Abort \<Rightarrow> Abort
              | Undef \<Rightarrow> Undef))"

lemma bridge_text_eq:
  "(case read_words ws ''app_list'' [] of (myFail, myCommand, myApiRoot) \<Rightarrow>
      if myApiRoot = [] \<or> myFail then Ret (''Invalid input:'' @ concat (map (\<lambda>v. '' '' @ v) ws))
      else answer_text (res_bind (command R nd validate get myApiRoot myCommand False True) (\<lambda>c. Ret (''Hello '' @ user @
        '', the list of ETSI MEC applications on '' @ myApiRoot @ '' is:'' @ newline @ newline @ c)))) =
   bridge_text R nd validate get user ws"
proof (cases "pairs_of ws")
  case None
  then have "fst (read_words ws ''app_list'' [])" using read_words_pairs [of ws "''app_list''" "[]"] by simp
  then show ?thesis by (simp only: bridge_text_def None invalid_input_def case_prod_beta option.case simp_thms if_True)
next
  case (Some kvs)
  then have w: "read_words ws ''app_list'' [] =
      (False, last_value kvs ''command'' ''app_list'', last_value kvs ''apiroot'' [])"
    using read_words_pairs [of ws "''app_list''" "[]"] by simp
  show ?thesis
  proof (cases "last_value kvs ''apiroot'' [] = []")
    case True
    then show ?thesis by (simp only: bridge_text_def Some w invalid_input_def prod.case option.case Let_def simp_thms if_True)
  next
    case False
    then show ?thesis
      by (cases "command R nd validate get (last_value kvs ''apiroot'' []) (last_value kvs ''command'' ''app_list'') False True")
        (auto simp: bridge_text_def Some w Let_def answer_text_cases split: exn.split)
  qed
qed

lemma bridge_text_no_throw: "bridge_text R nd validate get user ws \<noteq> Raise e"
  by (auto simp: bridge_text_def Let_def split: option.split res.split exn.split)

text \<open>C39. The Mattermost bridge on a POST with a body: a field that cannot be decoded makes the handler throw
  before it replies. Otherwise, for the right token it sends one 200 that carries the text of
  \<open>bridge_text\<close>, whatever the command throws; for a wrong or missing token it sends a 401, but then
  goes on to a second reply, which throws. The only other outcome is that of a command that stops the
  process, after the 401 if one was due.\<close>

theorem handlePost_replies:
  "handlePost R nd validate get split_query decode split again theToken (Ret body) =
     (case decoded decode (split_query body) of
        Raise e \<Rightarrow> (Raise e, [])
      | Abort \<Rightarrow> (Abort, [])
      | Undef \<Rightarrow> (Undef, [])
      | Ret ds \<Rightarrow>
          (let authorized = (''token'', theToken) \<in> set ds;
               refusal = (if authorized then [] else [Reply status_Unauthorized (Some (json_null R))])
           in case bridge_text R nd validate get (last_value (rev ds) ''user_name'' []) (text_words split ds []) of
                Ret t \<Rightarrow>
                  if authorized
                  then (Ret (), [Reply status_OK (Some (json_set R (json_null R) ''text'' (json_of_string R t)))])
                  else (Raise again, refusal)
              | Raise e \<Rightarrow> (Raise e, refusal)
              | Abort \<Rightarrow> (Abort, refusal)
              | Undef \<Rightarrow> (Undef, refusal)))"
proof (cases "decoded decode (split_query body)")
  case (Ret ds)
  let ?ws = "text_words split ds []" and ?user = "last_value (rev ds) ''user_name'' []"
  let ?first = "if (''token'', theToken) \<in> set ds then [] else [Reply status_Unauthorized (Some (json_null R))]"
  have f: "read_form decode split theToken (split_query body) \<lparr>myAuthorized = False, myUsername = [], myText = []\<rparr> =
      Ret \<lparr>myAuthorized = ((''token'', theToken) \<in> set ds), myUsername = ?user, myText = ?ws\<rparr>"
    by (simp add: read_form_eq Ret res_map_def)
  have "handlePost R nd validate get split_query decode split again theToken (Ret body) =
    and_then (bridge_text R nd validate get ?user ?ws, ?first)
      (\<lambda>t replies. if replies = [] then
         (Ret (), [Reply status_OK (Some (json_set R (json_null R) ''text'' (json_of_string R t)))])
       else (Raise again, replies))"
    by (simp only: handlePost_def and_then.simps f Let_def post_form.select_convs bridge_text_eq [symmetric] case_prod_beta)
  then show ?thesis
    by (cases "bridge_text R nd validate get ?user ?ws") (simp_all add: Ret Let_def)
qed (simp_all add: handlePost_def read_form_eq res_map_def)

end
