(* ===== verification/Client_Cli.thy ===== *)
theory Client_Cli
  imports Grpc_Proxy Mec_Cli Static_File_Proxy
begin

text \<open>
  The command interpreter of Executables/ueapplcmproxyclientmain.cpp, over the operations of
  \<open>GrpcUeAppLcmProxyClient\<close> (record \<open>client_ops\<close>, acting on a state \<open>'s\<close>). The standard input
  is a stream as in \<open>Static_File_Proxy\<close>; \<open>get_line\<close> is \<open>std::getline\<close>, which leaves the string
  as it was when the stream is already at its end. Parameter: \<open>split\<close> is \<open>support::split\<close> on a
  space. The outcome is what was printed, the state, and how the loop ended.
\<close>

record 's client_ops =
  op_associate :: "string \<Rightarrow> string \<Rightarrow> string \<Rightarrow> 's \<Rightarrow> unit res \<times> 's"
  op_remove :: "string \<Rightarrow> string \<Rightarrow> 's \<Rightarrow> unit res \<times> 's"
  op_add :: "string \<Rightarrow> 's \<Rightarrow> unit res \<times> 's"
  op_del :: "string \<Rightarrow> 's \<Rightarrow> unit res \<times> 's"
  op_num :: "'s \<Rightarrow> 64 word res \<times> 's"
  op_table :: "'s \<Rightarrow> (string \<times> string \<times> string) list res \<times> 's"
  op_contexts :: "'s \<Rightarrow> (string \<times> string \<times> string) list res \<times> 's"

text \<open>The operations of the client, over the service of a static proxy.\<close>

definition grpc_ops ::
  "('j, 't, 'z) rest_api_scheme \<Rightarrow> 'j static_env \<Rightarrow> bool \<Rightarrow> (grpc_status \<Rightarrow> unit res) \<Rightarrow>
     'j static_state client_ops" where
  "grpc_ops R E nd chk =
     \<lparr>op_associate = client_associateAddress chk (impl_associateAddress R E nd),
      op_remove = client_removeAddress chk (impl_removeAddress R E nd),
      op_add = client_addLambda chk (impl_addLambda R nd),
      op_del = client_delLambda chk (impl_delLambda R nd),
      op_num = client_numContexts chk (impl_numContexts nd),
      op_table = client_table chk (impl_table E),
      op_contexts = client_contexts chk (impl_contexts E)\<rparr>"

definition myHelp :: string where
  "myHelp =
     ''Commands are read sequentially from standard input until closed. Available commands:'' @ newline @
     ''- help: prints the help'' @ newline @
     ''- associate C A S: associates the address of the edge client C (* means \"any\") and the '' @
     ''application name A to the end-point of the edge router S'' @ newline @
     ''- remove C A: removes the association of edge client C (* means \"any\") and '' @
     ''application name A, if present'' @ newline @
     ''- add-lambda X: adds a lambda function to the list of applications'' @ newline @
     ''- del-lambda X: removes from the list of applications the given lambda'' @ newline @
     ''- num-contexts: returns the number of active UE application contexts'' @ newline @
     ''- table: returns a space-separate table of the address associations'' @ newline @
     ''- contexts: returns a space-separate table of the active contexts associations'' @ newline @
     ''- quit: exits from the application'' @ newline @
     ''Every command is given a response on standard output.'' @ newline @
     ''All the set commands return the string OK if the command was accepted.'' @ newline @
     ''the string Invalid command if the command is not well-formed.'' @ newline"

definition show_row :: "string \<times> string \<times> string \<Rightarrow> string" where
  "show_row elem =
     (case elem of (a, b, c) \<Rightarrow> (if a = [] then ''*'' else a) @ '' '' @ b @ '' '' @ c @ newline)"

definition star :: "string \<Rightarrow> string" where
  "star w = (if w = ''*'' then [] else w)"

text \<open>One line: what it prints, whether it quits, and the state.\<close>

definition run_line ::
  "'s client_ops \<Rightarrow> string list \<Rightarrow> 's \<Rightarrow> (string \<times> bool) res \<times> 's" where
  "run_line C myTokens s =
     (if myTokens = [] then (Ret ([], False), s)
      else let myCommand = myTokens ! 0 in
      if myCommand = ''help'' then (Ret (myHelp @ newline, False), s)
      else if myCommand = ''associate'' \<and> length myTokens = 4 then
        and_then (op_associate C (star (myTokens ! 1)) (myTokens ! 2) (myTokens ! 3) s)
          (\<lambda>_ s. (Ret (''OK'' @ newline, False), s))
      else if myCommand = ''remove'' \<and> length myTokens = 3 then
        and_then (op_remove C (star (myTokens ! 1)) (myTokens ! 2) s)
          (\<lambda>_ s. (Ret (''OK'' @ newline, False), s))
      else if myCommand = ''add-lambda'' \<and> length myTokens = 2 then
        and_then (op_add C (myTokens ! 1) s) (\<lambda>_ s. (Ret (''OK'' @ newline, False), s))
      else if myCommand = ''del-lambda'' \<and> length myTokens = 2 then
        and_then (op_del C (myTokens ! 1) s) (\<lambda>_ s. (Ret (''OK'' @ newline, False), s))
      else if myCommand = ''num-contexts'' \<and> length myTokens = 1 then
        and_then (op_num C s) (\<lambda>n s. (Ret (to_string (unat n) @ newline, False), s))
      else if myCommand = ''table'' \<and> length myTokens = 1 then
        and_then (op_table C s) (\<lambda>t s. (Ret (concat (map show_row t), False), s))
      else if myCommand = ''contexts'' \<and> length myTokens = 1 then
        and_then (op_contexts C s) (\<lambda>t s. (Ret (concat (map show_row t), False), s))
      else if myCommand = ''quit'' \<and> length myTokens = 1 then (Ret ([], True), s)
      else (Ret (''Invalid command'' @ newline, False), s))"

definition get_line :: "istream \<Rightarrow> string \<Rightarrow> string \<times> istream" where
  "get_line i str =
     (if in_eof i \<or> in_fail i then (str, i\<lparr>in_fail := True\<rparr>)
      else
        let l = takeWhile (\<lambda>c. c \<noteq> CHR 0x0A) (in_rest i);
            r = dropWhile (\<lambda>c. c \<noteq> CHR 0x0A) (in_rest i)
        in if r = [] then (l, i\<lparr>in_rest := [], in_eof := True, in_fail := (l = [])\<rparr>)
           else (l, i\<lparr>in_rest := tl r\<rparr>))"

text \<open>The loop \<open>while (std::cin)\<close>, with the output so far.\<close>

function repl ::
  "'s client_ops \<Rightarrow> (string \<Rightarrow> string list) \<Rightarrow> istream \<Rightarrow> string \<Rightarrow> string \<Rightarrow> 's \<Rightarrow>
     unit res \<times> string \<times> 's" where
  "repl C split cin myLine out s =
     (if in_fail cin then (Ret (), out, s)
      else
        case get_line cin myLine of (myLine, cin) \<Rightarrow>
        (case run_line C (split myLine) s of
           (Ret (txt, quit), s) \<Rightarrow>
             (if quit then (Ret (), out @ txt, s) else repl C split cin myLine (out @ txt) s)
         | (Raise e, s) \<Rightarrow> (Raise e, out, s)
         | (Abort, s) \<Rightarrow> (Abort, out, s)
         | (Undef, s) \<Rightarrow> (Undef, out, s)))"
  by pat_completeness auto
termination
proof (relation "measure (\<lambda>(C, split, cin, l, out, s).
    length (in_rest cin) + (if in_eof cin then 0 else 1) + (if in_fail cin then 0 else 1))", goal_cases)
  case (2 C split cin myLine out s l cin')
  let ?r = "dropWhile (\<lambda>c. c \<noteq> CHR 0x0A) (in_rest cin)"
  have "length (tl ?r) < length (in_rest cin)" if "?r \<noteq> []"
    using that length_dropWhile_le [of "\<lambda>c. c \<noteq> CHR 0x0A" "in_rest cin"] by (cases ?r) auto
  then show ?case
    using 2 by (auto simp: get_line_def Let_def split: if_splits simp del: dropWhile_eq_Nil_conv)
qed simp

declare repl.simps [simp del]

definition client_main ::
  "'s client_ops \<Rightarrow> (string \<Rightarrow> string list) \<Rightarrow> string \<Rightarrow> 's \<Rightarrow> exit_code res \<times> string \<times> 's" where
  "client_main C split input s =
     (case repl C split \<lparr>in_rest = input, in_eof = False, in_fail = False\<rparr> [] [] s of
        (r, out, s) \<Rightarrow> (exit_of r, out, s))"

section \<open>Reference: the lines one after the other\<close>

fun run_lines ::
  "'s client_ops \<Rightarrow> (string \<Rightarrow> string list) \<Rightarrow> string list \<Rightarrow> string \<Rightarrow> 's \<Rightarrow>
     unit res \<times> string \<times> 's" where
  "run_lines C split [] out s = (Ret (), out, s)"
| "run_lines C split (l # ls) out s =
     (case run_line C (split l) s of
        (Ret (txt, quit), s) \<Rightarrow>
          (if quit then (Ret (), out @ txt, s) else run_lines C split ls (out @ txt) s)
      | (Raise e, s) \<Rightarrow> (Raise e, out, s)
      | (Abort, s) \<Rightarrow> (Abort, out, s)
      | (Undef, s) \<Rightarrow> (Undef, out, s))"

text \<open>A text of complete lines is run line by line; a last line without its newline twice.\<close>

definition lines_text :: "string list \<Rightarrow> string" where
  "lines_text ls = concat (map (\<lambda>l. l @ newline) ls)"

lemma get_line_full:
  assumes "\<not> in_eof i" "\<not> in_fail i" "in_rest i = l @ newline @ rest" "CHR 0x0A \<notin> set l"
  shows "get_line i str = (l, i\<lparr>in_rest := rest\<rparr>)"
proof -
  have "takeWhile (\<lambda>c. c \<noteq> CHR 0x0A) (l @ CHR 0x0A # rest) = l"
    "dropWhile (\<lambda>c. c \<noteq> CHR 0x0A) (l @ CHR 0x0A # rest) = CHR 0x0A # rest"
    using assms(4) by (induction l) auto
  then show ?thesis
    using assms(1-3) by (simp add: get_line_def newline_def Let_def)
qed

lemma get_line_end:
  assumes "\<not> in_eof i" "\<not> in_fail i" "CHR 0x0A \<notin> set (in_rest i)"
  shows "get_line i str =
    (in_rest i, i\<lparr>in_rest := [], in_eof := True, in_fail := (in_rest i = [])\<rparr>)"
proof -
  have t: "takeWhile (\<lambda>c. c \<noteq> CHR 0x0A) (in_rest i) = in_rest i"
    "dropWhile (\<lambda>c. c \<noteq> CHR 0x0A) (in_rest i) = []"
    using assms(3) by (auto intro: takeWhile_eq_all_conv [THEN iffD2])
  then show ?thesis
    unfolding get_line_def Let_def t using assms(1,2) by simp
qed

lemma repl_lines:
  assumes "split [] = []" and "\<forall>l \<in> set ls. CHR 0x0A \<notin> set l" "CHR 0x0A \<notin> set l"
    and "\<not> in_eof i" "\<not> in_fail i" "in_rest i = lines_text ls @ l"
  shows "repl C split i str out s = run_lines C split (ls @ (if l = [] then [] else [l, l])) out s"
  using assms(2,4-6)
proof (induction ls arbitrary: i str out s)
  case Nil
  then have i: "in_rest i = l" by (simp add: lines_text_def)
  note g = get_line_end [OF Nil(2,3), unfolded i, OF assms(3), of str]
  have again: "repl C split (i\<lparr>in_rest := [], in_eof := True, in_fail := False\<rparr>) l out s =
      run_lines C split [l] out s" for out s
    by (subst repl.simps) (auto simp: get_line_def repl.simps [of C split "_\<lparr>in_fail := True\<rparr>"]
        split: prod.split res.split)
  show ?case
  proof (cases "l = []")
    case True
    then show ?thesis
      using Nil(3) g assms(1) by (subst repl.simps) (simp add: run_line_def repl.simps)
  next
    case False
    then show ?thesis
      using Nil(3) g again by (subst repl.simps) (auto split: prod.split res.split)
  qed
next
  case (Cons x ls)
  have i: "in_rest i = x @ newline @ (lines_text ls @ l)"
    using Cons.prems(4) by (simp add: lines_text_def)
  have x: "CHR 0x0A \<notin> set x" using Cons.prems(1) by simp
  note g = get_line_full [OF Cons.prems(2,3) i x, of str]
  have IH: "repl C split (i\<lparr>in_rest := lines_text ls @ l\<rparr>) str' out' s' =
      run_lines C split (ls @ (if l = [] then [] else [l, l])) out' s'" for str' out' s'
    using Cons.prems by (intro Cons.IH) auto
  have "repl C split i str out s = (case run_line C (split x) s of
          (Ret (txt, quit), s) \<Rightarrow>
            (if quit then (Ret (), out @ txt, s)
             else repl C split (i\<lparr>in_rest := lines_text ls @ l\<rparr>) x (out @ txt) s)
        | (Raise e, s) \<Rightarrow> (Raise e, out, s)
        | (Abort, s) \<Rightarrow> (Abort, out, s)
        | (Undef, s) \<Rightarrow> (Undef, out, s))"
    using Cons.prems(3) g by (subst repl.simps) simp
  then show ?case by (simp only: IH append_Cons run_lines.simps)
qed

section \<open>Properties\<close>

text \<open>C40. The command interpreter runs the lines of its input one after the other until one quits or
  fails, and its exit status is a failure iff one failed; a last line that does not end in a
  newline is run twice.\<close>

theorem repl_runs_lines:
  assumes "split [] = []" and "\<forall>l \<in> set ls. CHR 0x0A \<notin> set l" "CHR 0x0A \<notin> set l"
  shows "client_main C split (lines_text ls @ l) s =
    (case run_lines C split (ls @ (if l = [] then [] else [l, l])) [] s of (r, out, s') \<Rightarrow> (exit_of r, out, s'))"
  using repl_lines [where split = split, OF assms, of "\<lparr>in_rest = lines_text ls @ l, in_eof = False, in_fail = False\<rparr>" C "[]" "[]" s]
  by (simp add: client_main_def)

definition counting_ops :: "nat client_ops" where
  "counting_ops = \<lparr>op_associate = (\<lambda>a n r k. (Ret (), k + 1)), op_remove = (\<lambda>a n k. (Ret (), k + 1)),
     op_add = (\<lambda>v k. (Ret (), k + 1)), op_del = (\<lambda>v k. (Ret (), k + 1)), op_num = (\<lambda>k. (Ret 0, k)),
     op_table = (\<lambda>k. (Ret [], k)), op_contexts = (\<lambda>k. (Ret [], k))\<rparr>"

theorem repl_runs_lines_witness:
  "client_main counting_ops words ''add-lambda f'' 0 =
     (Ret EXIT_SUCCESS, ''OK'' @ newline @ ''OK'' @ newline, 2)"
proof -
  have w: "words [] = []" "words ''add-lambda f'' = [''add-lambda'', ''f'']"
    by (subst words.simps; simp add: is_space_def; subst words.simps; simp add: is_space_def)+
  have r: "run_line counting_ops [''add-lambda'', ''f''] k = (Ret (''OK'' @ newline, False), k + 1)" for k
    by (simp add: run_line_def counting_ops_def)
  have "lines_text [] @ ''add-lambda f'' = ''add-lambda f''" by (simp add: lines_text_def)
  with repl_runs_lines [where split = words, OF w(1), of "[]" "''add-lambda f''" counting_ops 0]
  show ?thesis by (simp add: w r)
qed

section \<open>The table command prints a configuration\<close>

text \<open>A string that the configuration file can hold, and a row of such strings.\<close>

definition clean :: "string \<Rightarrow> bool" where
  "clean w \<longleftrightarrow> w \<noteq> [] \<and> (\<forall>c \<in> set w. \<not> is_space c)"

lemma words_space: "is_space b \<Longrightarrow> words (b # r) = words r"
  by (subst (1 2) words.simps) (simp add: Let_def)

lemma words_clean:
  assumes "clean w" "is_space b"
  shows "words (w @ b # r) = w # words r"
proof -
  have "dropWhile is_space (w @ b # r) = w @ b # r" "w @ b # r \<noteq> []"
    using assms(1) by (cases w; simp add: clean_def)+
  moreover have "takeWhile (\<lambda>c. \<not> is_space c) (w @ b # r) = w"
    "dropWhile (\<lambda>c. \<not> is_space c) (w @ b # r) = b # r"
    using assms by (simp_all add: clean_def takeWhile_tail dropWhile_append3)
  ultimately show ?thesis
    using words_space [OF assms(2)] by (subst words.simps) (simp add: Let_def)
qed

definition clean_row :: "string \<times> string \<times> string \<Rightarrow> bool" where
  "clean_row row \<longleftrightarrow> (case row of (a, n, r) \<Rightarrow> (a = [] \<or> clean a \<and> a \<noteq> ''*'') \<and> clean n \<and> clean r)"

lemma triples_show_row:
  assumes "clean_row row"
  shows "triples (words (show_row row @ cs)) = map_option (\<lambda>ts. row # ts) (triples (words cs))"
proof -
  obtain a n r where row: "row = (a, n, r)" by (cases row)
  have sp: "is_space CHR '' ''" "is_space CHR 0x0A" by (simp_all add: is_space_def)
  have c: "clean (if a = [] then ''*'' else a)" "clean n" "clean r"
    using assms by (auto simp: clean_row_def row clean_def is_space_def)
  have "words (show_row row @ cs) = (if a = [] then ''*'' else a) # n # r # words cs"
    using words_clean [OF c(1) sp(1)] words_clean [OF c(2) sp(1)] words_clean [OF c(3) sp(2)]
    by (simp add: show_row_def row newline_def)
  then show ?thesis using assms by (auto simp: clean_row_def row)
qed

lemma triples_table:
  "\<forall>row \<in> set t. clean_row row \<Longrightarrow> triples (words (concat (map show_row t))) = Some t"
proof (induction t)
  case Nil
  have "words [] = []" by (subst words.simps) simp
  then show ?case by simp
next
  case (Cons row t)
  then show ?case using triples_show_row [of row "concat (map show_row t)"] by simp
qed

lemma table_of_rows:
  assumes "umap_ok xs"
  shows "table_of (map (\<lambda>(k, r). (keyAddress k, keyAppName k, r)) xs) = map_of xs"
proof -
  have "fold (\<lambda>(a, n, r) m. m(AddressAppKey a n \<mapsto> r)) (map (\<lambda>(k, r). (keyAddress k, keyAppName k, r)) xs) m =
      m ++ map_of xs" for m
    using assms
  proof (induction xs arbitrary: m)
    case (Cons x xs)
    obtain k r where x: "x = (k, r)" by (cases x)
    have "map_of xs k = None" using Cons.prems by (simp add: umap_ok_def x map_of_eq_None_iff)
    moreover have "umap_ok xs" using Cons.prems by (simp add: umap_ok_def)
    ultimately show ?case
      using Cons.IH [of "m(k \<mapsto> r)"] by (auto simp: x map_add_def fun_eq_iff split: option.split)
  qed simp
  then show ?thesis by (simp add: table_of_def)
qed

lemma table_command_prints:
  assumes "status_laws chk"
  shows "run_line (grpc_ops R E nd chk) [''table''] s =
    (Ret (concat (map show_row (addressAssociations E s)), False), s)"
proof -
  have "client_table chk (impl_table E) s = (Ret (addressAssociations E s), s)"
    by (simp add: client_table_def impl_table_def call_OK [OF assms] comp_def case_prod_beta)
  then show ?thesis by (simp add: run_line_def grpc_ops_def)
qed

text \<open>C30. The table command of the client prints the table of the proxy. When no string of the table contains
  white space, no application or router is empty and no address is a star, and the table is
  not empty, what it prints is a configuration file for the same table: the static proxy constructed from
  that text has the table of the proxy that printed it. For an empty table it prints nothing, and
  the constructor refuses that text with 'Empty configuration'.\<close>

theorem table_command_is_configuration:
  assumes E: "order_ok E" "order_ok E'" and wf: "umap_ok (theTable s)" and chk: "status_laws chk"
    and rows: "\<forall>row \<in> set (addressAssociations E s). clean_row row"
  shows "\<exists>txt s'. run_line (grpc_ops R E nd chk) [''table''] s = (Ret (txt, False), s) \<and>
    (if theTable s = [] then
       txt = [] \<and> StaticFileUeAppLcmProxy R E' nd f (Some txt) =
         (Raise (RuntimeError (''Empty configuration in '' @ f)), s')
     else StaticFileUeAppLcmProxy R E' nd f (Some txt) = (Ret (), s') \<and> static_inv s' \<and>
       map_of (theTable s') = map_of (theTable s))"
proof -
  let ?t = "addressAssociations E s"
  have m: "mset (iter_table E (theTable s)) = mset (theTable s)" using E(1) by (simp add: order_ok_def)
  note p = map_of_permuted [OF m, folded umap_ok_def, OF wf]
  note prints = table_command_prints [OF chk, of R E nd s] and tri = triples_table [OF rows]
  show ?thesis
  proof (cases ?t)
    case Nil
    then have "theTable s = []" using arg_cong [OF m, of size] by (simp add: addressAssociations_def)
    then show ?thesis
      using prints constructor_triples(2) [OF E(2) tri [unfolded Nil], of R nd f] by (simp add: Nil)
  next
    case (Cons x xs)
    then have ne: "theTable s \<noteq> []" using arg_cong [OF m, of size] by (auto simp: addressAssociations_def)
    from constructor_triples(3) [OF E(2) tri [unfolded Cons], of R nd f]
    obtain s' where s': "StaticFileUeAppLcmProxy R E' nd f (Some (concat (map show_row ?t))) = (Ret (), s')"
      "static_inv s'" "map_of (theTable s') = table_of ?t" unfolding Cons by blast
    moreover have "table_of ?t = map_of (theTable s)"
      using table_of_rows [OF p(1)] p(2) by (simp add: addressAssociations_def)
    ultimately show ?thesis using prints ne by (intro exI [of _ "concat (map show_row ?t)"] exI [of _ s']) simp
  qed
qed

theorem table_command_is_configuration_witness:
  "\<exists>txt s'. run_line (grpc_ops jrest sample_env False sample_check)
       [''table''] sample_static = (Ret (txt, False), sample_static) \<and>
     StaticFileUeAppLcmProxy jrest sample_env False ''f'' (Some txt) = (Ret (), s') \<and>
     map_of (theTable s') = map_of (theTable sample_static)"
proof -
  have "\<forall>row \<in> set (addressAssociations sample_env sample_static). clean_row row"
    by (simp add: addressAssociations_def sample_env_def sample_contexts clean_row_def clean_def is_space_def)
  then show ?thesis
    using table_command_is_configuration [where R = jrest and nd = False and f = "''f''",
        OF sample_env_ok(1) sample_env_ok(1) static_invD(1) [OF sample_static_inv] sample_check_laws]
    by (fastforce simp: sample_contexts)
qed

end
