(* ===== verification/Proxy_Main.thy ===== *)
theory Proxy_Main
  imports Grpc_Proxy Mec_Cli
begin

text \<open>
  The program of Executables/ueapplcmproxymain.cpp: one \<open>StaticUeAppLcmProxy\<close>, the HTTP server
  that it is, and the gRPC server in front of it. The loops of the two servers are in the
  submodules: \<open>start_server\<close> and \<open>run_server\<close> are parameters, and \<open>program_serve\<close> is what one request that either
  of them accepts does to the proxy, whatever thread it is served by.

  Every request, once served, has taken the proxy along a run of the step relation of
  \<open>Static_System\<close>: the front-ends reach no state that the interleaved system does not reach.
\<close>

section \<open>The program\<close>

text \<open>The proxy and the two end-points, when the options are accepted.\<close>

definition ueapplcmproxy ::
  "(string \<Rightarrow> bool) \<Rightarrow> string option res \<Rightarrow> string \<Rightarrow> (string \<times> string \<times> 'j static_state) res" where
  "ueapplcmproxy validate parse myServerEndpoint =
     res_bind (EtsiMecOptions validate parse ''http://127.0.0.1:6500'' True) (\<lambda>myCli.
     if myServerEndpoint = [] then Raise (RuntimeError ''The gRPC end-point cannot be empty'')
     else Ret (UeAppLcmProxy_root (apiRoot myCli), myServerEndpoint, static_init))"

text \<open>
  \<open>main\<close>: the options, \<open>None\<close> when they throw \<open>CliExit\<close>, otherwise with the value of
  \<open>--server-endpoint\<close>, whose default is 0.0.0.0:6477. Then both servers run until the gRPC server ends.
\<close>

definition ueapplcmproxy_main ::
  "(string \<Rightarrow> bool) \<Rightarrow> (string option res \<times> string option) option \<Rightarrow>
     (string \<Rightarrow> 'j static_state \<Rightarrow> unit res \<times> 'j static_state) \<Rightarrow>
     (string \<Rightarrow> 'j static_state \<Rightarrow> unit res \<times> 'j static_state) \<Rightarrow> exit_code res" where
  "ueapplcmproxy_main validate opts start_server run_server =
     (case opts of
        None \<Rightarrow> Ret EXIT_SUCCESS
      | Some (parse, endpoint) \<Rightarrow>
          exit_of (res_bind (ueapplcmproxy validate parse
              (case endpoint of Some e \<Rightarrow> e | None \<Rightarrow> ''0.0.0.0:6477''))
            (\<lambda>(root, ep, myProxy).
               fst (and_then (start_server root myProxy) (\<lambda>_ myProxy. run_server ep myProxy)))))"

text \<open>The requests that the servers accept and what they answer.\<close>

datatype 'j program_request =
    Http lcm_handler "'j http_request"
  | RpcAssociate address_tuple
  | RpcRemove address_tuple
  | RpcAddLambda string
  | RpcDelLambda string
  | RpcNumContexts
  | RpcTable
  | RpcContexts

datatype 'j program_reply =
    HttpReply "'j http_reply"
  | RpcDone grpc_status
  | RpcNumber grpc_status "32 word"
  | RpcRoutes grpc_status "address_tuple list"
  | RpcClients grpc_status "context_tuple list"

abbreviation reply_with :: "('a \<Rightarrow> 'b) \<Rightarrow> 'a res \<times> 's \<Rightarrow> 'b res \<times> 's" where
  "reply_with f p \<equiv> and_then p (\<lambda>x s. (Ret (f x), s))"

primrec program_serve ::
  "('j, 't) rest_api \<Rightarrow> 'j static_env \<Rightarrow> bool \<Rightarrow> string \<Rightarrow> 'j program_request \<Rightarrow> 'j static_state \<Rightarrow>
     'j program_reply res \<times> 'j static_state" where
  "program_serve R E nd uuid (Http h req) s = reply_with HttpReply
     (serve R nd (createContext R nd uuid) (updateContext R nd) (deleteContext nd) h req s)"
| "program_serve R E nd uuid (RpcAssociate t) s =
     reply_with (\<lambda>(st, _). RpcDone st) (impl_associateAddress R E nd t s)"
| "program_serve R E nd uuid (RpcRemove t) s =
     reply_with (\<lambda>(st, _). RpcDone st) (impl_removeAddress R E nd t s)"
| "program_serve R E nd uuid (RpcAddLambda v) s =
     reply_with (\<lambda>(st, _). RpcDone st) (impl_addLambda R nd v s)"
| "program_serve R E nd uuid (RpcDelLambda v) s =
     reply_with (\<lambda>(st, _). RpcDone st) (impl_delLambda R nd v s)"
| "program_serve R E nd uuid RpcNumContexts s =
     reply_with (\<lambda>(st, n). RpcNumber st n) (impl_numContexts nd () s)"
| "program_serve R E nd uuid RpcTable s =
     reply_with (\<lambda>(st, t). RpcRoutes st t) (impl_table E () s)"
| "program_serve R E nd uuid RpcContexts s =
     reply_with (\<lambda>(st, c). RpcClients st c) (impl_contexts E () s)"

text \<open>The context ID that \<open>support::Uuid\<close> draws for a new context is not in use.\<close>

fun request_fresh :: "string \<Rightarrow> 'j program_request \<Rightarrow> 'j static_state \<Rightarrow> bool" where
  "request_fresh uuid (Http HandleContextCreate req) s \<longleftrightarrow>
     map_of (theApplicationsByContextId s) uuid = None"
| "request_fresh uuid q s \<longleftrightarrow> True"

section \<open>Each request is a run of the system\<close>

text \<open>The notifications of a round, one step each.\<close>

lemma notify_loop_unfold:
  assumes ev: "NotificationEvent R r = Ret ev" and c: "nd \<or> c \<noteq> []"
  shows "notify_loop R E nd ((cb, r, c) # ns) i s =
    and_then (notify_loop R (E\<lparr>uri_validate := \<lambda>_. uri_validate E cb,
        client_post := \<lambda>_ _ _. client_post E i cb (datatype_toJson R ev)\<rparr>) nd [(cb, r, c)] 0 s)
      (\<lambda>_ s. notify_loop R E nd ns (Suc i) s)"
  by (cases "nd \<or> cb \<noteq> []"; cases "nd \<or> r \<noteq> []") (auto simp: ev and_then_assoc cassert_def)

lemma round_run:
  assumes R: "rest_laws R" and E: "order_ok E" and "net_inv nd w" "k < length (rounds w)" "rounds w ! k = ns"
    and "notify_loop R E nd ns i (proxy w) = (Ret (), s)"
  shows "\<exists>es. run (static_step R E nd) w es \<lparr>proxy = s, rounds = (rounds w)[k := []]\<rparr>"
  using assms(3-6)
proof (induction ns arbitrary: w i)
  case Nil
  then have "(rounds w)[k := []] = rounds w" by (metis list_update_id)
  then show ?case using Nil(4) by (intro exI [of _ "[]"]) simp
next
  case (Cons n ns)
  obtain cb r c where n: "n = (cb, r, c)" by (cases n)
  have "n # ns \<in> set (rounds w)" using Cons.prems(2,3) nth_mem by metis
  then have ne: "r \<noteq> []" "c \<noteq> []" using net_invD(3) [OF Cons.prems(1)] by (force simp: addressed_def n)+
  obtain ev where ev: "NotificationEvent R r = Ret ev" using NotificationEvent_fields [OF R ne(1)] by blast
  let ?v = "uri_validate E cb" and ?p = "client_post E i cb (datatype_toJson R ev)"
  obtain t where t: "notify_loop R (E\<lparr>uri_validate := \<lambda>_. ?v, client_post := \<lambda>_ _ _. ?p\<rparr>) nd [n] 0 (proxy w) = (Ret (), t)"
    and rest: "notify_loop R E nd ns (Suc i) t = (Ret (), s)"
    using Cons.prems(4) unfolding n notify_loop_unfold [where E = E, OF ev disjI2 [OF ne(2)]]
    by (auto simp: and_then_eq_Ret simp del: notify_loop.simps)
  let ?w = "\<lparr>proxy = t, rounds = (rounds w)[k := ns]\<rparr>"
  have step: "static_step R E nd w (Notify k ?v ?p) ?w" by (rule step_notify [OF Cons.prems(2,3) t])
  have "\<exists>es. run (static_step R E nd) ?w es \<lparr>proxy = s, rounds = (rounds ?w)[k := []]\<rparr>"
    using Cons.prems(2) rest by (intro Cons.IH net_inv_step [OF R E Cons.prems(1) step]) auto
  then obtain es where "run (static_step R E nd) ?w es \<lparr>proxy = s, rounds = (rounds w)[k := []]\<rparr>" by auto
  then show ?case using step by (intro exI [of _ "Notify k ?v ?p # es"]) (auto simp: run_Cons)
qed

text \<open>An operation that queues a round and serves it: the round is the last one, and empty afterwards.\<close>

lemma rerouting_run:
  assumes R: "rest_laws R" and E: "order_ok E" and w: "net_inv nd w" and op: "rerouting E op upd"
    and ret: "\<And>ns t. op (proxy w) = (Ret ns, t) \<Longrightarrow> static_step R E nd w e \<lparr>proxy = t, rounds = rounds w @ [ns]\<rparr>"
    and x: "and_then (op (proxy w)) (\<lambda>ns t. notifyClients R E nd ns t) = (x, s)" "survives x"
  shows "(x = Ret () \<and> (\<exists>es. run (static_step R E nd) w es \<lparr>proxy = s, rounds = rounds w @ [[]]\<rparr>)) \<or> s = proxy w"
proof (cases "op (proxy w)")
  case (Pair y t)
  show ?thesis
  proof (cases y)
    case (Ret ns)
    let ?w = "\<lparr>proxy = t, rounds = rounds w @ [ns]\<rparr>"
    have o: "op (proxy w) = (Ret ns, t)" by (simp add: Pair Ret)
    have "x = Ret ()" using x notify_loop_no_throw [of R E nd ns 0 t] by (cases x) (auto simp: o notifyClients_def)
    then have "notify_loop R E nd ns 0 (proxy ?w) = (Ret (), s)" using x by (simp add: o notifyClients_def)
    from round_run [OF R E rerouting_inv [OF op E w o], of "length (rounds w)", OF _ _ this]
    obtain es where "run (static_step R E nd) ?w es \<lparr>proxy = s, rounds = rounds w @ [[]]\<rparr>" by auto
    with ret [OF o] \<open>x = Ret ()\<close> show ?thesis by (auto simp: run_Cons intro!: exI [of _ "e # es"])
  next
    case (Raise ex)
    then show ?thesis using x rerouting.op_throws [OF op, of "proxy w" ex t] by (auto simp: Pair)
  qed (use x in \<open>auto simp: Pair\<close>)
qed

lemma reply_with_eq: "reply_with f p = (x, s) \<longleftrightarrow> (\<exists>y. p = (y, s) \<and> x = res_map f y)"
  by (cases p; cases "fst p") (auto simp: res_map_def)

lemma survives_res_map [simp]: "survives (res_map f m) = survives m"
  by (cases m) (simp_all add: res_map_def)

definition served :: "('j, 't) rest_api \<Rightarrow> 'j static_env \<Rightarrow> bool \<Rightarrow> 'j net \<Rightarrow> 'j static_state \<Rightarrow> bool" where
  "served R E nd w s \<longleftrightarrow> (\<exists>es rs. run (static_step R E nd) w es \<lparr>proxy = s, rounds = rs\<rparr> \<and>
     (rs = rounds w \<or> rs = rounds w @ [[]]))"

lemma served_nothing [simp]: "served R E nd w (proxy w)"
  unfolding served_def by (intro exI [of _ "[]"] exI [of _ "rounds w"]) simp

lemma served_round:
  "(x = Ret () \<and> (\<exists>es. run (static_step R E nd) w es \<lparr>proxy = s, rounds = rounds w @ [[]]\<rparr>)) \<or> s = proxy w \<Longrightarrow>
   served R E nd w s"
  using served_nothing [of R E nd w] unfolding served_def by blast

lemma served_step: "static_step R E nd w e (w\<lparr>proxy := s\<rparr>) \<Longrightarrow> served R E nd w s"
proof -
  assume "static_step R E nd w e (w\<lparr>proxy := s\<rparr>)"
  then have "run (static_step R E nd) w [e] \<lparr>proxy = s, rounds = rounds w\<rparr>" by (cases w) (auto simp: run_Cons)
  then show ?thesis unfolding served_def by blast
qed

lemma snd_and_then: "(\<And>x. snd (k x s) = s) \<Longrightarrow> snd (and_then (m, s) k) = s"
  by (cases m) auto

lemma create_served:
  assumes R: "rest_laws R" and w: "net_inv nd w"
    and fresh: "request_fresh uuid (Http HandleContextCreate req) (proxy w)"
    and ret: "handleContextCreate R nd (createContext R nd uuid) req (proxy w) = (x, s)" "survives x"
  shows "served R E nd w s"
proof (cases "res_bind (json_body req) (AppContext_of_json R)")
  case (Ret j)
  then obtain j' where j: "json_body req = Ret j'" "AppContext_of_json R j' = Ret j" by (auto simp: res_bind_eq_Ret)
  then have jj: "j = j'" using AppContext_of_json_sound [OF R j(2)] by auto
  obtain y t where c: "createContext R nd uuid (remote_address req) j (proxy w) = (y, t)" by fastforce
  show ?thesis
  proof (cases y)
    case r: (Ret resp)
    have "s = snd (handleContextCreate R nd (createContext R nd uuid) req (proxy w))" using ret by simp
    also have "\<dots> = t" by (simp add: handleContextCreate_def Ret c r snd_and_then)
    finally have "s = t" .
    moreover have "static_step R E nd w (Create uuid (remote_address req) j) (w\<lparr>proxy := t\<rparr>)"
      using fresh j c by (intro step_create) (auto simp: r jj)
    ultimately show ?thesis by (auto intro: served_step)
  next
    case (Raise e)
    then have "s = t" "t = proxy w" using ret Ret createContext_throws [of R nd uuid "remote_address req" j "proxy w" e t]
      by (auto simp: handleContextCreate_def c)
    then show ?thesis by simp
  qed (use ret Ret in \<open>auto simp: handleContextCreate_def c\<close>)
qed (use ret in \<open>auto simp: handleContextCreate_def\<close>)

lemma update_served:
  assumes R: "rest_laws R" and ret: "handleContextUpdate R (updateContext R nd) req (proxy w) = (x, s)" "survives x"
  shows "served R E nd w s"
proof (cases "res_bind (json_body req) (AppContext_of_json R)")
  case (Ret j)
  then obtain j' where j: "json_body req = Ret j'" "AppContext_of_json R j' = Ret j" by (auto simp: res_bind_eq_Ret)
  then have jj: "AppContext_of_json R j = Ret j" using AppContext_of_json_sound [OF R j(2)] by auto
  obtain y t where c: "updateContext R nd j (proxy w) = (y, t)" by fastforce
  show ?thesis
  proof (cases y)
    case r: (Ret b)
    then have "s = t" using ret Ret by (auto simp: handleContextUpdate_def c)
    then show ?thesis using served_step [OF step_update [OF jj c [unfolded r]]] by simp
  next
    case (Raise e)
    then have "s = t" "t = proxy w" using ret Ret updateContext_throws [of R nd j "proxy w" e t]
      by (auto simp: handleContextUpdate_def c)
    then show ?thesis by simp
  qed (use ret Ret in \<open>auto simp: handleContextUpdate_def c\<close>)
qed (use ret in \<open>auto simp: handleContextUpdate_def\<close>)

lemma delete_served:
  assumes ret: "handleContextDelete R nd (deleteContext nd) req (proxy w) = (x, s)" "survives x"
  shows "served R E nd w s"
proof -
  let ?c = "drop (length contexts_prefix) (relative_path req)"
  obtain y t where c: "deleteContext nd ?c (proxy w) = (y, t)" by fastforce
  have "\<exists>b. y = Ret b \<and> s = t"
  proof (cases y)
    case (Ret b)
    then show ?thesis using ret by (auto simp: handleContextDelete_def c cassert_def Let_def split: if_splits)
  next
    case (Raise e)
    then show ?thesis using c deleteContext_no_throw by blast
  qed (use ret in \<open>auto simp: handleContextDelete_def c cassert_def Let_def split: if_splits\<close>)
  then obtain b where "y = Ret b" "s = t" by blast
  then show ?thesis using served_step [OF step_delete] c by blast
qed

lemma http_served:
  assumes R: "rest_laws R" and w: "net_inv nd w" and fresh: "request_fresh uuid (Http h req) (proxy w)"
    and ret: "serve R nd (createContext R nd uuid) (updateContext R nd) (deleteContext nd) h req (proxy w) = (x, s)"
      "survives x"
  shows "served R E nd w s"
  using ret(1) create_served [OF R w _ _ ret(2)] fresh update_served [OF R _ ret(2)] delete_served [OF _ ret(2)]
  by (cases h) (auto simp: serve_def)

text \<open>The RPCs.\<close>

lemma lambda_served:
  assumes R: "rest_laws R" and op: "and_then (lambda_app R v, proxy w) (\<lambda>i s. f i s) = (x, s)"
    and step: "\<And>i b t. AppInfo_of_json R i = Ret i \<Longrightarrow> f i (proxy w) = (Ret b, t) \<Longrightarrow> served R E nd w t"
    and throws: "\<And>i e t. f i (proxy w) = (Raise e, t) \<Longrightarrow> t = proxy w" and x: "survives x"
  shows "served R E nd w s"
proof (cases "lambda_app R v")
  case (Ret i)
  note c = Ret [unfolded lambda_app_def AppCharcs_default_def]
  have i: "AppInfo_of_json R i = Ret i"
    using AppInfo_of_json_complete [OF R constructed_acceptable(3) [OF R c]]
      app_typedD [OF AppInfo_list_Ret(2) [OF R c AppCharcs_is_object [OF R]]] by blast
  show ?thesis using op x step [OF i] throws [of i] by (cases x) (auto simp: Ret)
qed (use op x in auto)

lemma CATCH_ALL_survives: "CATCH_ALL p = (y, s) \<Longrightarrow> survives y \<Longrightarrow> \<exists>x. p = (x, s) \<and> survives x"
  by (cases p; cases "fst p") (auto simp: res_map_def)

lemma rpc_survives:
  assumes "and_then (cassert nd c, s) (\<lambda>_ s. and_then (CATCH_ALL (op s)) (\<lambda>_ s. (Ret (StatusOK, ()), s))) = (x, t)"
    and "survives x"
  shows "\<exists>y. op s = (y, t) \<and> survives y"
proof -
  from assms have e: "and_then (CATCH_ALL (op s)) (\<lambda>_ s. (Ret (StatusOK, ()), s)) = (x, t)"
    by (auto simp: cassert_def split: if_splits)
  obtain y u where c: "CATCH_ALL (op s) = (y, u)" by fastforce
  have "survives y \<and> u = t" using e assms(2) by (cases y) (auto simp: c)
  with CATCH_ALL_survives [OF c] show ?thesis by blast
qed

lemma associate_served:
  assumes R: "rest_laws R" and E: "order_ok E" and w: "net_inv nd w"
    and ret: "impl_associateAddress R E nd q (proxy w) = (x, s)" "survives x"
  shows "served R E nd w s"
proof -
  obtain y where y: "and_then (associateAddress_locked E nd (a_client q) (a_appName q) (a_server q) (proxy w))
      (\<lambda>ns t. notifyClients R E nd ns t) = (y, s)" "survives y"
    using rpc_survives [OF ret(1) [unfolded impl_associateAddress_def] ret(2)] by (auto simp: associateAddress_def)
  show ?thesis
    by (rule served_round [OF
          rerouting_run [where e = "Associate (a_client q) (a_appName q) (a_server q)", OF R E w associating.rerouting_axioms step_associate y]])
qed

lemma remove_served:
  assumes R: "rest_laws R" and E: "order_ok E" and w: "net_inv nd w"
    and ret: "impl_removeAddress R E nd q (proxy w) = (x, s)" "survives x"
  shows "served R E nd w s"
proof -
  have "nd \<or> a_appName q \<noteq> []" using ret by (auto simp: impl_removeAddress_def cassert_def split: if_splits)
  then have "and_then (cassert nd (a_server q = []), proxy w) (\<lambda>_ s.
      and_then (CATCH_ALL (removeAddress R E nd (a_client q) (a_appName q) s)) (\<lambda>_ s. (Ret (StatusOK, ()), s))) = (x, s)"
    using ret(1) by (auto simp: impl_removeAddress_def cassert_def)
  from rpc_survives [OF this ret(2)] obtain y where
    y: "and_then (removeAddress_locked E nd (a_client q) (a_appName q) (proxy w))
      (\<lambda>ns t. notifyClients R E nd ns t) = (y, s)" "survives y"
    by (auto simp: removeAddress_def)
  show ?thesis
    by (rule served_round [OF
          rerouting_run [where e = "Remove (a_client q) (a_appName q)", OF R E w removing.rerouting_axioms step_remove y]])
qed

lemma add_served:
  assumes R: "rest_laws R" and ret: "impl_addLambda R nd v (proxy w) = (x, s)" "survives x"
  shows "served R E nd w s"
proof (cases "v = []")
  case False
  obtain y where y: "and_then (lambda_app R v, proxy w) (\<lambda>i s. addApp R nd i s) = (y, s)" "survives y"
    using rpc_survives [where op = "\<lambda>s. and_then (lambda_app R v, s) (\<lambda>i s. addApp R nd i s)" and c = True, OF _ ret(2)] ret(1) False
    by (auto simp: impl_addLambda_def)
  show ?thesis by (rule lambda_served [OF R y(1) served_step [OF step_add] addApp_throws y(2)])
qed (use ret in \<open>auto simp: impl_addLambda_def cassert_def split: if_splits\<close>)

lemma del_served:
  assumes R: "rest_laws R" and ret: "impl_delLambda R nd v (proxy w) = (x, s)" "survives x"
  shows "served R E nd w s"
proof (cases "v = []")
  case False
  obtain y where y: "and_then (lambda_app R v, proxy w) (\<lambda>i s. delApp R nd i s) = (y, s)" "survives y"
    using rpc_survives [where op = "\<lambda>s. and_then (lambda_app R v, s) (\<lambda>i s. delApp R nd i s)" and c = True, OF _ ret(2)] ret(1) False
    by (auto simp: impl_delLambda_def)
  show ?thesis by (rule lambda_served [OF R y(1) served_step [OF step_del] delApp_throws y(2)])
qed (use ret in \<open>auto simp: impl_delLambda_def cassert_def split: if_splits\<close>)

lemma program_served:
  assumes R: "rest_laws R" and E: "order_ok E" and w: "net_inv nd w" and fresh: "request_fresh uuid q (proxy w)"
    and ret: "program_serve R E nd uuid q (proxy w) = (x, s)" "survives x"
  shows "served R E nd w s"
proof (cases q)
  case (Http h req)
  then show ?thesis using http_served [OF R w fresh [unfolded Http]] ret by (auto simp: reply_with_eq)
next
  case (RpcAssociate q)
  then show ?thesis using associate_served [OF R E w] ret by (auto simp: reply_with_eq)
next
  case (RpcRemove q)
  then show ?thesis using remove_served [OF R E w] ret by (auto simp: reply_with_eq)
next
  case (RpcAddLambda v)
  then show ?thesis using add_served [OF R] ret by (auto simp: reply_with_eq)
next
  case (RpcDelLambda v)
  then show ?thesis using del_served [OF R] ret by (auto simp: reply_with_eq)
next
  case RpcNumContexts
  then have "s = snd (impl_numContexts nd () (proxy w))" using ret by (auto simp: reply_with_eq)
  then have "s = proxy w" by (simp add: impl_numContexts_def snd_and_then)
  then show ?thesis by simp
qed (use ret in \<open>auto simp: impl_table_def impl_contexts_def\<close>)

section \<open>The program reaches no other states\<close>

text \<open>
  One request of a thread, with the validity of the URIs and the answers to the POSTs of its own.
\<close>

definition program_step ::
  "('j, 't) rest_api \<Rightarrow> 'j static_env \<Rightarrow> bool \<Rightarrow> 'j static_state \<Rightarrow> string \<times> 'j program_request \<Rightarrow>
     'j static_state \<Rightarrow> bool" where
  "program_step R E nd s l s' \<longleftrightarrow> request_fresh (fst l) (snd l) s \<and>
     (\<exists>v p x. program_serve R (E\<lparr>uri_validate := v, client_post := p\<rparr>) nd (fst l) (snd l) s = (x, s') \<and> survives x)"

lemma locked_env:
  "associateAddress_locked (E\<lparr>uri_validate := v, client_post := p\<rparr>) = associateAddress_locked E"
  "removeAddress_locked (E\<lparr>uri_validate := v, client_post := p\<rparr>) = removeAddress_locked E"
  by (simp_all add: fun_eq_iff associateAddress_locked_def removeAddress_locked_def Let_def case_prod_beta)

lemma static_step_env: "static_step R (E\<lparr>uri_validate := v, client_post := p\<rparr>) nd w e w' \<Longrightarrow> static_step R E nd w e w'"
  by (induction rule: static_step.induct) (auto simp: locked_env intro: static_step.intros)

lemma run_mono: "run step s es t \<Longrightarrow> (\<And>s e t. step s e t \<Longrightarrow> step' s e t) \<Longrightarrow> run step' s es t"
  by (induction rule: run.induct) (auto intro: run.intros)

lemma order_ok_env [simp]: "order_ok (E\<lparr>uri_validate := v, client_post := p\<rparr>) = order_ok E"
  by (simp add: order_ok_def)

text \<open>C33. Whatever requests the HTTP server and the gRPC server of the program serve one after the other, in both
  builds, each creation with an unused context ID, as long as none stops the process, whether they are
  answered or throw: the proxy is in a state that the interleaved system reaches, with no
  notification left to serve. So its maps are well formed, no iterator of the index dangles and
  every context records its router; in a debug build the index is complete as well.\<close>

theorem program_reaches_system_states:
  assumes R: "rest_laws R" and E: "order_ok E"
    and s: "reachable (\<lambda>s. s = static_init) (program_step R E nd) s"
  shows "(\<exists>w. reachable net_init (static_step R E nd) w \<and> proxy w = s \<and> concat (rounds w) = []) \<and>
    proxy_inv nd s"
proof -
  have "\<exists>w. reachable net_init (static_step R E nd) w \<and> proxy w = s \<and> concat (rounds w) = []"
    using s
  proof (induction rule: reachable.induct)
    case (reachable_init s)
    then show ?case
      by (intro exI [of _ "\<lparr>proxy = static_init, rounds = []\<rparr>"]) (auto simp: net_init_def intro: reachable.reachable_init)
  next
    case (reachable_step s l s')
    then obtain w where w: "reachable net_init (static_step R E nd) w" "proxy w = s" "concat (rounds w) = []" by blast
    have inv: "net_inv nd w" using static_system.inv_reachable [OF w(1)] R E by blast
    obtain v p x where fresh: "request_fresh (fst l) (snd l) s"
      and x: "program_serve R (E\<lparr>uri_validate := v, client_post := p\<rparr>) nd (fst l) (snd l) s = (x, s')" "survives x"
      using reachable_step(2) unfolding program_step_def by blast
    have "served R (E\<lparr>uri_validate := v, client_post := p\<rparr>) nd w s'"
      by (rule program_served [OF R _ inv, unfolded w(2), OF _ fresh x]) (simp add: E)
    then obtain es rs where "run (static_step R (E\<lparr>uri_validate := v, client_post := p\<rparr>) nd) w es \<lparr>proxy = s', rounds = rs\<rparr>"
      "rs = rounds w \<or> rs = rounds w @ [[]]" by (auto simp: served_def)
    then have "run (static_step R E nd) w es \<lparr>proxy = s', rounds = rs\<rparr>" "concat rs = []"
      using w(3) by (auto intro: run_mono static_step_env)
    with run_reachable [OF this(1) w(1)] show ?case by (intro exI [of _ "\<lparr>proxy = s', rounds = rs\<rparr>"]) simp
  qed
  then obtain w where w: "reachable net_init (static_step R E nd) w" "proxy w = s" "concat (rounds w) = []" by blast
  have "net_inv nd w" using static_system.inv_reachable [OF w(1)] R E by blast
  with w net_invD(1) show ?thesis by blast
qed

lemma program_stepI:
  "request_fresh u q s \<Longrightarrow> survives (fst (program_serve R E nd u q s)) \<Longrightarrow>
   program_step R E nd s (u, q) (snd (program_serve R E nd u q s))"
  unfolding program_step_def fst_conv snd_conv
  by (intro conjI exI [of _ "uri_validate E"] exI [of _ "client_post E"] exI [of _ "fst (program_serve R E nd u q s)"])
    simp_all

definition sample_served :: "json static_state" where
  "sample_served = snd (program_serve jrest sample_env False [] (RpcAddLambda ''f'')
     (snd (program_serve jrest sample_env False []
       (RpcAssociate \<lparr>a_client = ''10.0.0.1'', a_appName = ''f'', a_server = ''http://r1''\<rparr>) static_init)))"

theorem program_reaches_system_states_witness:
  "static_inv sample_served \<and> edgeRouter False ''10.0.0.1'' ''f'' sample_served = Ret ''http://r1''"
proof -
  let ?q1 = "RpcAssociate \<lparr>a_client = ''10.0.0.1'', a_appName = ''f'', a_server = ''http://r1''\<rparr>"
    and ?q2 = "RpcAddLambda ''f''"
  let ?s1 = "snd (program_serve jrest sample_env False [] ?q1 static_init)"
  have "survives (fst (program_serve jrest sample_env False [] ?q1 static_init))"
    "survives (fst (program_serve jrest sample_env False [] ?q2 ?s1))"
    "edgeRouter False ''10.0.0.1'' ''f'' sample_served = Ret ''http://r1''" by code_simp+
  then have "program_step jrest sample_env False static_init ([], ?q1) ?s1"
    "program_step jrest sample_env False ?s1 ([], ?q2) sample_served"
    unfolding sample_served_def by (auto intro!: program_stepI simp del: program_serve.simps)
  then have "reachable (\<lambda>s. s = static_init) (program_step jrest sample_env False) sample_served"
    by (blast intro: reachable.intros)
  with program_reaches_system_states [OF jrest_laws sample_env_ok(1), where nd = False]
    \<open>edgeRouter _ _ _ _ = _\<close> show ?thesis by simp
qed

text \<open>The exit code of the program.\<close>

lemma ueapplcmproxy_main_success:
  "ueapplcmproxy_main validate opts start_server run_server = Ret EXIT_SUCCESS \<longleftrightarrow>
     opts = None \<or> (\<exists>parse endpoint root ep s. opts = Some (parse, endpoint) \<and>
       ueapplcmproxy validate parse (case endpoint of Some e \<Rightarrow> e | None \<Rightarrow> ''0.0.0.0:6477'') = Ret (root, ep, s) \<and>
       fst (and_then (start_server root s) (\<lambda>_ s. run_server ep s)) = Ret ())"
proof (cases opts)
  case (Some o')
  have "exit_of m = Ret EXIT_SUCCESS \<longleftrightarrow> (\<exists>x. m = Ret x)" for m :: "unit res" by (cases m) auto
  then show ?thesis by (cases o') (auto simp: ueapplcmproxy_main_def Some res_bind_eq_Ret split: option.split)
qed (simp add: ueapplcmproxy_main_def)

lemma ueapplcmproxy_accepts:
  "ueapplcmproxy validate (Ret given) ep = Ret (root, e, s) \<longleftrightarrow>
     (let r = (case given of Some r \<Rightarrow> r | None \<Rightarrow> ''http://127.0.0.1:6500'')
      in r \<noteq> [] \<and> validate r \<and> ep \<noteq> [] \<and> root = UeAppLcmProxy_root r \<and> e = ep \<and> s = static_init)"
  by (auto simp: ueapplcmproxy_def EtsiMecOptions_def apiRoot_def Let_def)

end
