(* ===== verification/Static_Locks.thy ===== *)
theory Static_Locks
  imports Static_Properties
begin

text \<open>
  The mutexes of the static proxy, one step finer than \<open>Static_System\<close>. The class has two: the
  \<open>theMutex\<close> of \<open>StaticUeAppLcmProxy\<close>, which guards the table and the contexts, and the \<open>theMutex\<close>
  of its base class \<open>UeAppLcmProxy\<close>, which guards the applications. \<open>createContext\<close> holds the first
  and takes the second for the duration of \<open>exists\<close>, so that \<open>addApp\<close> and \<open>delApp\<close> of other threads
  can run between the check and the rest of the creation.

  A machine is the shared state of the system, the owners of the two mutexes and the point that
  each thread has reached. The result: creations are atomic all the same (they take effect when
  \<open>exists\<close> looks the application up), and the two mutexes exclude what they are meant to exclude.
  That threads cannot deadlock on them is in \<open>Static_Deadlock\<close>.

  A section is the code between the acquisition and the release of a mutex, taken in one step
  because no other section of that mutex can run in between. The POST of a notification is made
  outside of any mutex; its answer is a parameter, and \<open>Notify\<close> takes the mutex for \<open>purge\<close>.
\<close>

section \<open>The critical sections\<close>

text \<open>\<open>createContext\<close> after the check, whose result is \<open>ex\<close>.\<close>

definition createContext_checked ::
  "('j, 't, 'z) rest_api_scheme \<Rightarrow> bool \<Rightarrow> string \<Rightarrow> string \<Rightarrow> 'j \<Rightarrow> bool \<Rightarrow> 'j static_state \<Rightarrow>
     'j res \<times> 'j static_state" where
  "createContext_checked R nd uuid aClientAddress aRequest ex s =
     (if \<not> ex then (Ret aRequest, s)
     else
     and_then (res_bind (appInfo R nd aRequest) (\<lambda>i. res_bind (appName R nd i) (\<lambda>n.
       find_route nd (theTable s) aClientAddress n)), s) (\<lambda>it s.
     case it of
       None \<Rightarrow> (Ret aRequest, s)
     | Some router \<Rightarrow>
     and_then (makeResponse R nd aRequest uuid router, s) (\<lambda>myResponse s.
     and_then (associateUeAppId R nd aRequest, s) (\<lambda>myUeAppId s.
     and_then (res_bind (appInfo R nd aRequest) (appName R nd), s) (\<lambda>myAppName s.
     let (ctxs, new) = umap_emplace (contextId R myResponse)
           \<lparr>theAssociateUeAppId = myUeAppId,
            theCallbackReference = callbackReference R aRequest,
            theClientAddress = aClientAddress, theAppName = myAppName,
            theEdgeRouterEndpoint = router\<rparr> (theApplicationsByContextId s);
         s = s\<lparr>theApplicationsByContextId := ctxs\<rparr>
     in and_then (cassert nd new, s) (\<lambda>_ s.
     let (ues, new) = umap_emplace myUeAppId (contextId R myResponse)
           (theApplicationsByUeAppId s);
         s = s\<lparr>theApplicationsByUeAppId := ues\<rparr>
     in and_then (cassert nd new, s) (\<lambda>_ s.
     (Ret myResponse, s))))))))"

lemma createContext_split:
  "createContext R nd uuid addr j s =
     and_then (res_bind (appInfo R nd j) (\<lambda>i. exists_app R nd i s), s)
       (\<lambda>ex s. createContext_checked R nd uuid addr j ex s)"
  by (simp add: createContext_def createContext_checked_def)

text \<open>The section that an operation runs under its mutex: how it ends, and the system afterwards.\<close>

primrec section_body ::
  "('j, 't) rest_api \<Rightarrow> 'j static_env \<Rightarrow> bool \<Rightarrow> 'j event \<Rightarrow> 'j net \<Rightarrow> unit res \<times> 'j net" where
  "section_body R E nd (Associate a n r) w =
     (case associateAddress_locked E nd a n r (proxy w) of
        (Ret ns, s) \<Rightarrow> (Ret (), \<lparr>proxy = s, rounds = rounds w @ [ns]\<rparr>)
      | (x, s) \<Rightarrow> (res_map (\<lambda>_. ()) x, w\<lparr>proxy := s\<rparr>))"
| "section_body R E nd (Remove a n) w =
     (case removeAddress_locked E nd a n (proxy w) of
        (Ret ns, s) \<Rightarrow> (Ret (), \<lparr>proxy = s, rounds = rounds w @ [ns]\<rparr>)
      | (x, s) \<Rightarrow> (res_map (\<lambda>_. ()) x, w\<lparr>proxy := s\<rparr>))"
| "section_body R E nd (Create uuid addr j) w =
     (case createContext R nd uuid addr j (proxy w) of (x, s) \<Rightarrow> (res_map (\<lambda>_. ()) x, w\<lparr>proxy := s\<rparr>))"
| "section_body R E nd (Update j) w =
     (case updateContext R nd j (proxy w) of (x, s) \<Rightarrow> (res_map (\<lambda>_. ()) x, w\<lparr>proxy := s\<rparr>))"
| "section_body R E nd (Delete c) w =
     (case deleteContext nd c (proxy w) of (x, s) \<Rightarrow> (res_map (\<lambda>_. ()) x, w\<lparr>proxy := s\<rparr>))"
| "section_body R E nd (AddApp i) w =
     (case addApp R nd i (proxy w) of (x, s) \<Rightarrow> (res_map (\<lambda>_. ()) x, w\<lparr>proxy := s\<rparr>))"
| "section_body R E nd (DelApp i) w =
     (case delApp R nd i (proxy w) of (x, s) \<Rightarrow> (res_map (\<lambda>_. ()) x, w\<lparr>proxy := s\<rparr>))"
| "section_body R E nd (Notify k v p) w =
     (if k < length (rounds w) then
        (case rounds w ! k of
           [] \<Rightarrow> (Ret (), w)
         | n # ns \<Rightarrow>
             (case notify_loop R (E\<lparr>uri_validate := \<lambda>_. v, client_post := \<lambda>_ _ _. p\<rparr>) nd [n] 0 (proxy w) of
                (x, s) \<Rightarrow> (x, \<lparr>proxy = s, rounds = (rounds w)[k := ns]\<rparr>)))
      else (Ret (), w))"

fun base_section :: "'j event \<Rightarrow> bool" where
  "base_section (AddApp i) \<longleftrightarrow> True"
| "base_section (DelApp i) \<longleftrightarrow> True"
| "base_section e \<longleftrightarrow> False"

text \<open>The caller has parsed its argument.\<close>

fun parsed :: "('j, 't) rest_api \<Rightarrow> 'j event \<Rightarrow> bool" where
  "parsed R (Create uuid addr j) \<longleftrightarrow> AppContext_of_json R j = Ret j"
| "parsed R (Update j) \<longleftrightarrow> AppContext_of_json R j = Ret j"
| "parsed R (AddApp i) \<longleftrightarrow> AppInfo_of_json R i = Ret i"
| "parsed R (DelApp i) \<longleftrightarrow> AppInfo_of_json R i = Ret i"
| "parsed R e \<longleftrightarrow> True"

text \<open>\<open>support::Uuid\<close> draws an unused ID.\<close>

fun creatable :: "'j event \<Rightarrow> 'j static_state \<Rightarrow> bool" where
  "creatable (Create uuid addr j) s \<longleftrightarrow> map_of (theApplicationsByContextId s) uuid = None"
| "creatable e s \<longleftrightarrow> True"

lemma section_step:
  assumes "parsed R e" "creatable e (proxy w)" "section_body R E nd e w = (Ret (), w')"
  shows "static_step R E nd w e w' \<or> w' = w"
proof (cases e)
  case (Notify k v p)
  then show ?thesis
    using assms(3) by (auto simp del: notify_loop.simps split: if_splits list.splits prod.splits intro: step_notify)
qed (use assms in \<open>auto simp: res_map_def res_bind_eq_Ret split: prod.splits res.splits intro: static_step.intros\<close>)

lemma section_throws:
  assumes "section_body R E nd e w = (Raise x, w')"
  shows "w' = w"
proof (cases e)
  case (Notify k v p)
  then show ?thesis
    using assms by (auto simp: notify_loop_no_throw simp del: notify_loop.simps split: if_splits list.splits prod.splits)
next
  case (Delete c)
  then show ?thesis
    using assms by (auto simp: deleteContext_def and_then_eq_Raise Let_def res_map_def res_bind_eq_Raise option.case_eq_if
        split: prod.splits if_split_asm)
qed (use assms in \<open>auto simp: res_map_def res_bind_eq_Raise split: prod.splits res.splits
      dest!: associating.op_throws removing.op_throws createContext_throws updateContext_throws addApp_throws delApp_throws\<close>)

section \<open>Threads\<close>

text \<open>
  Where a thread is: outside, called and waiting for its first mutex, in the section under the
  mutex of the static proxy, in \<open>exists\<close> under both, past \<open>exists\<close> with its result, in the section
  under the mutex of the base class, or about to release.
\<close>

datatype 'j point =
    Idle
  | Called "'j event"
  | InStatic "'j event"
  | InExists "'j event"
  | PastExists "'j event" bool
  | InBase "'j event"
  | LeavingStatic
  | LeavingBase

record 'j machine =
  shared :: "'j net"
  static_owner :: "nat option"
  base_owner :: "nat option"
  thread :: "nat \<Rightarrow> 'j point"

fun running :: "'j point \<Rightarrow> 'j event option" where
  "running (Called e) = Some e"
| "running (InStatic e) = Some e"
| "running (InExists e) = Some e"
| "running (PastExists e ex) = Some e"
| "running (InBase e) = Some e"
| "running _ = None"

abbreviation at :: "'j machine \<Rightarrow> nat \<Rightarrow> 'j point \<Rightarrow> 'j machine" where
  "at m t q \<equiv> m\<lparr>thread := (thread m)(t := q)\<rparr>"

text \<open>
  A step of one thread. An exception releases the mutex (\<open>lock_guard\<close>), so only a crash has no step.
\<close>

inductive micro_step ::
  "('j, 't) rest_api \<Rightarrow> 'j static_env \<Rightarrow> bool \<Rightarrow> 'j machine \<Rightarrow> nat \<Rightarrow> 'j machine \<Rightarrow> bool"
  for R E nd where
  m_call: "thread m t = Idle \<Longrightarrow> parsed R e \<Longrightarrow> micro_step R E nd m t (at m t (Called e))"
| m_lock: "thread m t = Called e \<Longrightarrow> \<not> base_section e \<Longrightarrow> static_owner m = None \<Longrightarrow>
    creatable e (proxy (shared m)) \<Longrightarrow>
    micro_step R E nd m t ((at m t (InStatic e))\<lparr>static_owner := Some t\<rparr>)"
| m_section: "thread m t = InStatic e \<Longrightarrow> (\<forall>u a j. e \<noteq> Create u a j) \<Longrightarrow>
    section_body R E nd e (shared m) = (x, w) \<Longrightarrow> survives x \<Longrightarrow>
    micro_step R E nd m t ((at m t LeavingStatic)\<lparr>shared := w\<rparr>)"
| m_lock_both: "thread m t = InStatic (Create u a j) \<Longrightarrow> base_owner m = None \<Longrightarrow>
    micro_step R E nd m t ((at m t (InExists (Create u a j)))\<lparr>base_owner := Some t\<rparr>)"
| m_exists: "thread m t = InExists (Create u a j) \<Longrightarrow>
    res_bind (appInfo R nd j) (\<lambda>i. exists_app R nd i (proxy (shared m))) = Ret ex \<Longrightarrow>
    micro_step R E nd m t ((at m t (PastExists (Create u a j) ex))\<lparr>base_owner := None\<rparr>)"
| m_exists_throws: "thread m t = InExists (Create u a j) \<Longrightarrow>
    res_bind (appInfo R nd j) (\<lambda>i. exists_app R nd i (proxy (shared m))) = Raise x \<Longrightarrow>
    micro_step R E nd m t ((at m t LeavingStatic)\<lparr>base_owner := None\<rparr>)"
| m_create: "thread m t = PastExists (Create u a j) ex \<Longrightarrow>
    createContext_checked R nd u a j ex (proxy (shared m)) = (x, s) \<Longrightarrow> survives x \<Longrightarrow>
    micro_step R E nd m t ((at m t LeavingStatic)\<lparr>shared := (shared m)\<lparr>proxy := s\<rparr>\<rparr>)"
| m_unlock: "thread m t = LeavingStatic \<Longrightarrow>
    micro_step R E nd m t ((at m t Idle)\<lparr>static_owner := None\<rparr>)"
| m_base_lock: "thread m t = Called e \<Longrightarrow> base_section e \<Longrightarrow> base_owner m = None \<Longrightarrow>
    micro_step R E nd m t ((at m t (InBase e))\<lparr>base_owner := Some t\<rparr>)"
| m_base_section: "thread m t = InBase e \<Longrightarrow> section_body R E nd e (shared m) = (x, w) \<Longrightarrow> survives x \<Longrightarrow>
    micro_step R E nd m t ((at m t LeavingBase)\<lparr>shared := w\<rparr>)"
| m_base_unlock: "thread m t = LeavingBase \<Longrightarrow>
    micro_step R E nd m t ((at m t Idle)\<lparr>base_owner := None\<rparr>)"

definition machine_init :: "'j machine \<Rightarrow> bool" where
  "machine_init m \<longleftrightarrow> net_init (shared m) \<and> static_owner m = None \<and> base_owner m = None \<and> thread m = (\<lambda>t. Idle)"

text \<open>Mutual exclusion: a thread is inside a section exactly when it owns the mutex of it.\<close>

fun holds_static :: "'j point \<Rightarrow> bool" where
  "holds_static (InStatic e) \<longleftrightarrow> True"
| "holds_static (InExists e) \<longleftrightarrow> True"
| "holds_static (PastExists e ex) \<longleftrightarrow> True"
| "holds_static LeavingStatic \<longleftrightarrow> True"
| "holds_static _ \<longleftrightarrow> False"

fun holds_base :: "'j point \<Rightarrow> bool" where
  "holds_base (InExists e) \<longleftrightarrow> True"
| "holds_base (InBase e) \<longleftrightarrow> True"
| "holds_base LeavingBase \<longleftrightarrow> True"
| "holds_base _ \<longleftrightarrow> False"

text \<open>What is true of the operation that a thread is in.\<close>

fun point_ok :: "('j, 't) rest_api \<Rightarrow> bool \<Rightarrow> 'j net \<Rightarrow> 'j point \<Rightarrow> bool" where
  "point_ok R nd w (Called e) \<longleftrightarrow> parsed R e"
| "point_ok R nd w (InStatic e) \<longleftrightarrow> parsed R e \<and> \<not> base_section e \<and> creatable e (proxy w)"
| "point_ok R nd w (InExists e) \<longleftrightarrow> parsed R e \<and> creatable e (proxy w) \<and> (\<exists>u a j. e = Create u a j)"
| "point_ok R nd w (PastExists e ex) \<longleftrightarrow> parsed R e \<and> creatable e (proxy w) \<and> (\<exists>u a j. e = Create u a j)"
| "point_ok R nd w (InBase e) \<longleftrightarrow> parsed R e \<and> base_section e"
| "point_ok R nd w _ \<longleftrightarrow> True"

definition machine_inv :: "('j, 't) rest_api \<Rightarrow> bool \<Rightarrow> 'j machine \<Rightarrow> bool" where
  "machine_inv R nd m \<longleftrightarrow>
     (\<forall>t. holds_static (thread m t) \<longleftrightarrow> static_owner m = Some t) \<and>
     (\<forall>t. holds_base (thread m t) \<longleftrightarrow> base_owner m = Some t) \<and>
     (\<forall>t. point_ok R nd (shared m) (thread m t))"

abbreviation with_apps :: "(string \<times> 'j) list \<Rightarrow> 'j net \<Rightarrow> 'j net" where
  "with_apps apps w \<equiv> w\<lparr>proxy := (proxy w)\<lparr>theApplications := apps\<rparr>\<rparr>"

lemma base_section_frame:
  assumes "base_section e" and "section_body R E nd e w = (x, w')"
  obtains apps where "w' = with_apps apps w"
proof -
  have "\<exists>apps. snd (addApp R nd i s) = s\<lparr>theApplications := apps\<rparr>"
    "\<exists>apps. snd (delApp R nd i s) = s\<lparr>theApplications := apps\<rparr>" for i and s :: "'a static_state"
    by (cases "mangle R nd i"; auto simp: addApp_def delApp_def case_prod_beta intro: exI [of _ "theApplications s"])+
  then show thesis
    using assms that by (cases e) (auto split: prod.splits; metis snd_conv)+
qed

lemma creatable_with_apps [simp]:
  "creatable e (s\<lparr>theApplications := apps\<rparr>) = creatable e s"
  by (cases e) simp_all

lemma point_ok_with_apps [simp]: "point_ok R nd (with_apps apps w) p = point_ok R nd w p"
  by (cases p) simp_all

lemma point_ok_outside: "\<not> holds_static p \<Longrightarrow> point_ok R nd w p = point_ok R nd w' p"
  by (cases p) simp_all

lemma machine_invD:
  assumes "machine_inv R nd m"
  shows "holds_static (thread m t) \<longleftrightarrow> static_owner m = Some t" "holds_base (thread m t) \<longleftrightarrow> base_owner m = Some t"
    "point_ok R nd (shared m) (thread m t)"
  using assms by (simp_all add: machine_inv_def)

text \<open>A step of thread \<open>t\<close> is to be checked at its own point, if the rest is left as it is.\<close>

lemma machine_invI:
  assumes inv: "machine_inv R nd m" and others: "\<And>u. u \<noteq> t \<Longrightarrow> thread m' u = thread m u"
    and owners: "static_owner m' = (if holds_static (thread m' t) then Some t else if holds_static (thread m t) then None else static_owner m)"
      "base_owner m' = (if holds_base (thread m' t) then Some t else if holds_base (thread m t) then None else base_owner m)"
    and free: "holds_static (thread m' t) \<Longrightarrow> holds_static (thread m t) \<or> static_owner m = None"
      "holds_base (thread m' t) \<Longrightarrow> holds_base (thread m t) \<or> base_owner m = None"
    and shared: "holds_static (thread m t) \<or> (\<exists>apps. shared m' = with_apps apps (shared m))"
    and p: "point_ok R nd (shared m') (thread m' t)"
  shows "machine_inv R nd m'"
  unfolding machine_inv_def
proof (intro conjI allI)
  fix u
  note at = machine_invD [OF inv, of u] machine_invD [OF inv, of t]
  show "holds_static (thread m' u) \<longleftrightarrow> static_owner m' = Some u"
    using at(1,4) free(1) owners(1) others [of u] by (cases "u = t") auto
  show "holds_base (thread m' u) \<longleftrightarrow> base_owner m' = Some u"
    using at(2,5) free(2) owners(2) others [of u] by (cases "u = t") auto
  show "point_ok R nd (shared m') (thread m' u)"
  proof (cases "u = t")
    case False
    note u = others [OF False]
    show ?thesis
      using shared
    proof
      assume "holds_static (thread m t)"
      then have "\<not> holds_static (thread m u)" using at(1,4) False by auto
      from point_ok_outside [OF this, of R nd "shared m'" "shared m"] show ?thesis using at(3) by (simp add: u)
    next
      assume "\<exists>apps. shared m' = with_apps apps (shared m)"
      then show ?thesis using at(3) by (auto simp: u)
    qed
  qed (simp add: p)
qed

lemma machine_inv_step:
  assumes inv: "machine_inv R nd m" and step: "micro_step R E nd m t m'"
  shows "machine_inv R nd m'"
proof -
  note at = machine_invD [OF inv, of t]
  have same: "\<exists>apps. shared m = with_apps apps (shared m)"
    by (intro exI [of _ "theApplications (proxy (shared m))"]) simp
  have free: "static_owner m = None \<Longrightarrow> \<not> holds_static (thread m t)" "base_owner m = None \<Longrightarrow> \<not> holds_base (thread m t)"
    using at by auto
  from step show ?thesis
  proof cases
    case (m_base_section e x w)
    then have "base_section e" using at(3) by simp
    from base_section_frame [OF this m_base_section(3)] obtain apps where "w = with_apps apps (shared m)" .
    then show ?thesis
      using at m_base_section by (intro machine_invI [OF inv, where t = t]) auto
  qed (rule machine_invI [OF inv, where t = t]; use at same free in auto)+
qed

section \<open>Creations are atomic\<close>

text \<open>The system as if the creation that is past its check had been completed.\<close>

fun completed :: "('j, 't) rest_api \<Rightarrow> bool \<Rightarrow> 'j net \<Rightarrow> 'j point \<Rightarrow> 'j net" where
  "completed R nd w (PastExists (Create u a j) ex) =
     (case createContext_checked R nd u a j ex (proxy w) of (Ret resp, s) \<Rightarrow> w\<lparr>proxy := s\<rparr> | _ \<Rightarrow> w)"
| "completed R nd w p = w"

definition linear :: "('j, 't) rest_api \<Rightarrow> bool \<Rightarrow> 'j machine \<Rightarrow> 'j net" where
  "linear R nd m =
     (case static_owner m of None \<Rightarrow> shared m | Some t \<Rightarrow> completed R nd (shared m) (thread m t))"

lemma checked_with_apps:
  "createContext_checked R nd u a j ex (s\<lparr>theApplications := apps\<rparr>) =
     apsnd (\<lambda>s. s\<lparr>theApplications := apps\<rparr>) (createContext_checked R nd u a j ex s)"
proof -
  have "and_then (m, s\<lparr>theApplications := apps\<rparr>) k' = apsnd (\<lambda>s. s\<lparr>theApplications := apps\<rparr>) (and_then (m, s) k)"
    if "\<And>x. k' x (s\<lparr>theApplications := apps\<rparr>) = apsnd (\<lambda>s. s\<lparr>theApplications := apps\<rparr>) (k x s)"
    for m :: "'d res" and s :: "'a static_state" and k :: "'d \<Rightarrow> 'a static_state \<Rightarrow> 'a res \<times> 'a static_state" and k'
    using that by (cases m) auto
  note seq = this
  show ?thesis
    by (auto simp: createContext_checked_def Let_def case_prod_beta cassert_def intro!: seq split: option.split)
qed

lemma checked_throws: "createContext_checked R nd u a j ex s = (Raise e, s') \<Longrightarrow> s' = s"
  by (auto simp: createContext_checked_def and_then_eq_Raise Let_def case_prod_beta option.case_eq_if split: if_split_asm)

lemma checked_apps: "theApplications (snd (createContext_checked R nd u a j ex s)) = theApplications s"
  using arg_cong [OF checked_with_apps [of R nd u a j ex "theApplications s" s], of "\<lambda>p. theApplications (snd p)"]
  by (simp add: apsnd_def map_prod_def split: prod.splits)

lemma completed_with_apps: "completed R nd (with_apps apps w) p = with_apps apps (completed R nd w p)"
proof (cases "(R, nd, w, p)" rule: completed.cases)
  case (1 R nd w u a j ex)
  then show ?thesis
    using checked_with_apps [of R nd u a j ex apps "proxy w"]
    by (auto simp: split: prod.splits res.splits)
qed simp_all

lemma completed_apps: "theApplications (proxy (completed R nd w p)) = theApplications (proxy w)"
proof (cases "(R, nd, w, p)" rule: completed.cases)
  case (1 R nd w u a j ex)
  then show ?thesis
    using checked_apps [of R nd u a j ex "proxy w"] by (auto split: prod.splits res.splits)
qed simp_all

lemma base_section_apps:
  assumes "base_section e" "section_body R E nd e w = (x, w')" "theApplications (proxy v) = theApplications (proxy w)"
  shows "section_body R E nd e v = (x, with_apps (theApplications (proxy w')) v)"
proof (cases e)
  case (AddApp i)
  then show ?thesis using assms by (cases "mangle R nd i") (auto simp: addApp_def case_prod_beta Let_def)
next
  case (DelApp i)
  then show ?thesis using assms by (cases "mangle R nd i") (auto simp: delApp_def case_prod_beta Let_def)
qed (use assms in auto)

lemma linear_owner:
  "machine_inv R nd m \<Longrightarrow> holds_static (thread m t) \<Longrightarrow> linear R nd m = completed R nd (shared m) (thread m t)"
  by (simp add: linear_def machine_invD)

lemma linear_other:
  assumes inv: "machine_inv R nd m" and t: "\<not> holds_static (thread m t)"
    and m': "static_owner m' = static_owner m" "shared m' = shared m" "\<And>u. u \<noteq> t \<Longrightarrow> thread m' u = thread m u"
  shows "linear R nd m' = linear R nd m"
  using m' machine_invD(1) [OF inv, of t] t by (auto simp: linear_def split: option.split)

text \<open>A section of the base class, beside a creation that is past its check.\<close>

lemma base_section_linear:
  assumes inv: "machine_inv R nd m" and t: "thread m t = InBase e" and s: "section_body R E nd e (shared m) = (x, w)"
    and x: "survives x" and m': "m' = (at m t LeavingBase)\<lparr>shared := w\<rparr>"
  shows "linear R nd m' = linear R nd m \<or> static_step R E nd (linear R nd m) e (linear R nd m')"
proof -
  have e: "base_section e" "parsed R e" using machine_invD(3) [OF inv, of t] t by simp_all
  obtain apps where w: "w = with_apps apps (shared m)" by (rule base_section_frame [OF e(1) s])
  have other: "static_owner m \<noteq> Some t" using machine_invD(1) [OF inv, of t] t by auto
  have lin: "linear R nd m' = with_apps apps (linear R nd m)"
    using other by (auto simp: linear_def m' w completed_with_apps split: option.split)
  have apps: "theApplications (proxy (linear R nd m)) = theApplications (proxy (shared m))"
    by (auto simp: linear_def completed_apps split: option.split)
  have sec: "section_body R E nd e (linear R nd m) = (x, linear R nd m')"
    using base_section_apps [OF e(1) s apps] by (simp add: lin w)
  have c: "creatable e (proxy (linear R nd m))" using e(1) by (cases e) simp_all
  show ?thesis
  proof (cases x)
    case (Ret u)
    then show ?thesis using section_step [where E = E, OF e(2) c] sec by auto
  next
    case (Raise ex)
    then show ?thesis using section_throws [OF sec [unfolded Raise]] by simp
  qed (use x in simp_all)
qed

lemma micro_linear:
  assumes inv: "machine_inv R nd m" and step: "micro_step R E nd m t m'"
  shows "linear R nd m' = linear R nd m \<or>
    (\<exists>e. running (thread m t) = Some e \<and> static_step R E nd (linear R nd m) e (linear R nd m'))"
proof -
  note inv' = machine_inv_step [OF inv step]
  note own = linear_owner [OF inv, of t] linear_owner [OF inv', of t]
  note at = machine_invD [OF inv, of t] and other = linear_other [OF inv, of t m']
  from step show ?thesis
  proof cases
    case (m_lock e)
    then show ?thesis using own by (simp add: linear_def)
  next
    case (m_section e x w)
    then have lin: "linear R nd m = shared m" "linear R nd m' = w" using own by simp_all
    show ?thesis
    proof (cases x)
      case (Ret u)
      then show ?thesis using section_step [of R e "shared m" E nd w] m_section at(3) lin by auto
    next
      case (Raise ex)
      then show ?thesis using section_throws m_section(4) lin by auto
    qed (use m_section in simp_all)
  next
    case (m_exists u a j ex)
    let ?c = "Create u a j"
    obtain x s where c: "createContext_checked R nd u a j ex (proxy (shared m)) = (x, s)" by fastforce
    have lin: "linear R nd m = shared m" "linear R nd m' = completed R nd (shared m) (PastExists ?c ex)"
      using m_exists own by simp_all
    show ?thesis
    proof (cases x)
      case (Ret resp)
      have "createContext R nd u a j (proxy (shared m)) = (Ret resp, s)"
        by (simp add: createContext_split m_exists(3) c Ret)
      moreover have "parsed R ?c" "creatable ?c (proxy (shared m))" using at(3) m_exists(2) by auto
      ultimately have "static_step R E nd (shared m) ?c ((shared m)\<lparr>proxy := s\<rparr>)" by (intro step_create) auto
      then show ?thesis using m_exists(2) by (simp add: lin c Ret)
    qed (simp_all add: lin c)
  next
    case (m_create u a j ex x s)
    have "linear R nd m' = (shared m)\<lparr>proxy := s\<rparr>" using m_create own by simp
    moreover have "linear R nd m = completed R nd (shared m) (PastExists (Create u a j) ex)" using m_create own by simp
    ultimately show ?thesis
      using m_create checked_throws [of R nd u a j ex "proxy (shared m)" _ s] by (cases x) auto
  next
    case m_unlock
    then show ?thesis using own(1) by (simp add: linear_def)
  next
    case (m_base_section e x w)
    then show ?thesis using base_section_linear [OF inv m_base_section(2-4,1)] by auto
  qed (use own other in auto)
qed

interpretation static_machine: step_system machine_init "micro_step R E nd" "machine_inv R nd" for R E nd
  by unfold_locales (simp add: machine_init_def machine_inv_def, rule machine_inv_step)

lemma linear_reachable:
  assumes "reachable machine_init (micro_step R E nd) m"
  shows "reachable net_init (static_step R E nd) (linear R nd m)"
  using assms
proof (induction rule: reachable.induct)
  case (reachable_init m)
  then show ?case by (auto simp: machine_init_def linear_def intro: reachable.reachable_init)
next
  case (reachable_step m t m')
  from micro_linear [OF static_machine.inv_reachable [OF reachable_step(1)] reachable_step(2)] reachable_step(3)
  show ?case by (auto intro: reachable.reachable_step)
qed

text \<open>C5. Two mutexes: in every state that threads reach, whatever they call and however their critical
  sections and the lookup of \<open>exists\<close> interleave, completing the creation that is past its lookup,
  if there is one, gives a state of the interleaved system, in which every operation is one step;
  when the mutex of the static proxy is free, the state itself is one. The invariant holds there in a
  debug build; in a release build all of it but the completeness of the index, which only a creation
  with a UE application ID in use can end.\<close>

theorem mutexes_make_atomic:
  assumes R: "rest_laws R" and E: "order_ok E"
    and m: "reachable machine_init (micro_step R E nd) m"
  shows "reachable net_init (static_step R E nd) (linear R nd m) \<and>
    (static_owner m = None \<longrightarrow> linear R nd m = shared m \<and>
       static_sound (proxy (shared m)) \<and> (\<not> nd \<longrightarrow> static_inv (proxy (shared m)))) \<and>
    (\<forall>t m'. micro_step R E nd m t m' \<longrightarrow>
       (linear R nd m' = linear R nd m \<or>
         (\<exists>e. running (thread m t) = Some e \<and> static_step R E nd (linear R nd m) e (linear R nd m'))) \<and>
       (static_inv (proxy (linear R nd m)) \<longrightarrow> static_inv (proxy (linear R nd m')) \<or>
         nd \<and> (\<exists>e. running (thread m t) = Some e \<and> reuses R (linear R nd m) e)))"
proof -
  note reach = linear_reachable [OF m]
  have inv: "net_inv nd (linear R nd m)"
    using static_system.inv_reachable [OF reach] R E by blast
  have kept: "static_inv (proxy w)"
    if "static_step R E nd (linear R nd m) e w" "static_inv (proxy (linear R nd m))" "\<not> (nd \<and> reuses R (linear R nd m) e)" for e w
    using sound_step [OF R E inv that(1)] that(2,3) net_invD(2) unfolding static_inv_iff by blast
  have steps: "linear R nd m' = linear R nd m \<or>
      (\<exists>e. running (thread m t) = Some e \<and> static_step R E nd (linear R nd m) e (linear R nd m'))"
    if "micro_step R E nd m t m'" for t m'
    using micro_linear [OF static_machine.inv_reachable [OF m] that] .
  have "static_sound (proxy (linear R nd m)) \<and> (\<not> nd \<longrightarrow> static_inv (proxy (linear R nd m)))"
    using net_invD(1,2) [OF inv] by (cases nd) simp_all
  then show ?thesis using reach steps kept by (auto simp: linear_def) metis+
qed

section \<open>A sample machine\<close>

text \<open>A call that finds its mutex free, from start to end.\<close>

lemma machine_same:
  "thread m t = Idle \<Longrightarrow> static_owner m = None \<Longrightarrow>
     m\<lparr>shared := w, thread := (thread m)(t := Idle), static_owner := None\<rparr> = m\<lparr>shared := w\<rparr>"
  "thread m t = Idle \<Longrightarrow> base_owner m = None \<Longrightarrow>
     m\<lparr>shared := w, thread := (thread m)(t := Idle), base_owner := None\<rparr> = m\<lparr>shared := w\<rparr>"
  by (cases m; auto simp: fun_upd_idem)+

lemma static_call:
  assumes m: "reachable machine_init (micro_step R E nd) m"
    and t: "thread m t = Idle" "static_owner m = None" and e: "parsed R e" "\<not> base_section e" "\<forall>u a j. e \<noteq> Create u a j"
    and s: "section_body R E nd e (shared m) = (x, w)" "survives x"
  shows "reachable machine_init (micro_step R E nd) (m\<lparr>shared := w\<rparr>)"
proof -
  have c: "creatable e (proxy (shared m))" using e(3) by (cases e) auto
  note 1 = reachable_step [OF m, OF m_call [OF t(1) e(1)]]
  note 2 = reachable_step [OF 1, OF m_lock [OF _ e(2), of _ t]]
  have "reachable machine_init (micro_step R E nd) ((at (at m t (Called e)) t (InStatic e))\<lparr>static_owner := Some t\<rparr>)"
    by (rule 2) (simp_all add: t c)
  note 3 = reachable_step [OF this, OF m_section [of _ t e R E nd x w]]
  have "reachable machine_init (micro_step R E nd)
      (at ((at (at m t (Called e)) t (InStatic e))\<lparr>static_owner := Some t\<rparr>) t LeavingStatic\<lparr>shared := w\<rparr>)"
    by (rule 3) (use e s in simp_all)
  note 4 = reachable_step [OF this, OF m_unlock [of _ t]]
  from 4 machine_same(1) [OF t, of w] show ?thesis by simp
qed

lemma base_call:
  assumes m: "reachable machine_init (micro_step R E nd) m"
    and t: "thread m t = Idle" "base_owner m = None" and e: "parsed R e" "base_section e"
    and s: "section_body R E nd e (shared m) = (x, w)" "survives x"
  shows "reachable machine_init (micro_step R E nd) (m\<lparr>shared := w\<rparr>)"
proof -
  note 1 = reachable_step [OF m, OF m_call [OF t(1) e(1)]]
  note 2 = reachable_step [OF 1, OF m_base_lock [OF _ e(2), of _ t]]
  have "reachable machine_init (micro_step R E nd) ((at (at m t (Called e)) t (InBase e))\<lparr>base_owner := Some t\<rparr>)"
    by (rule 2) (simp_all add: t)
  note 3 = reachable_step [OF this, OF m_base_section [of _ t e R E nd x w]]
  have "reachable machine_init (micro_step R E nd)
      (at ((at (at m t (Called e)) t (InBase e))\<lparr>base_owner := Some t\<rparr>) t LeavingBase\<lparr>shared := w\<rparr>)"
    by (rule 3) (use e s in simp_all)
  note 4 = reachable_step [OF this, OF m_base_unlock [of _ t]]
  from 4 machine_same(2) [OF t, of w] show ?thesis by simp
qed

text \<open>A creation that is past its check when another thread removes the application.\<close>

definition sample_machine :: "json machine" where
  "sample_machine =
     \<lparr>shared = \<lparr>proxy = sample_table\<lparr>theApplications := []\<rparr>, rounds = [[]]\<rparr>, static_owner = Some 0, base_owner = None,
      thread = (\<lambda>t. Idle)(0 := PastExists (Create ''c1'' ''10.0.0.1'' sample_request) True)\<rparr>"

lemma sample_machine_reachable: "reachable machine_init (micro_step jrest sample_env False) sample_machine"
proof -
  let ?c = "Create ''c1'' ''10.0.0.1'' sample_request"
  let ?m = "\<lambda>w. \<lparr>shared = w, static_owner = None, base_owner = None, thread = (\<lambda>t. Idle)\<rparr> :: json machine"
  let ?apps = "\<lparr>proxy = static_init\<lparr>theApplications := [(''app+prov+1.0'', sample_info)]\<rparr>, rounds = []\<rparr> :: json net"
    and ?table = "\<lparr>proxy = sample_table, rounds = [[]]\<rparr> :: json net"
  have eval: "AppInfo_of_json jrest sample_info = Ret sample_info" "AppContext_of_json jrest sample_request = Ret sample_request"
    "section_body jrest sample_env False (AddApp sample_info) \<lparr>proxy = static_init, rounds = []\<rparr> = (Ret (), ?apps)"
    "section_body jrest sample_env False (Associate ''10.0.0.1'' ''app'' ''http://r1'') ?apps = (Ret (), ?table)"
    "res_bind (appInfo jrest False sample_request) (\<lambda>i. exists_app jrest False i sample_table) = Ret True"
    "section_body jrest sample_env False (DelApp sample_info) ?table = (Ret (), with_apps [] ?table)" by code_simp+
  have 0: "reachable machine_init (micro_step jrest sample_env False) (?m \<lparr>proxy = static_init, rounds = []\<rparr>)"
    by (rule reachable_init) (simp add: machine_init_def net_init_def)
  from base_call [OF 0, of 1 "AddApp sample_info" "Ret ()" ?apps] eval
  have 1: "reachable machine_init (micro_step jrest sample_env False) (?m ?apps)" by simp
  from static_call [OF 1, of 1 "Associate ''10.0.0.1'' ''app'' ''http://r1''" "Ret ()" ?table] eval
  have 2: "reachable machine_init (micro_step jrest sample_env False) (?m ?table)" by simp
  note 3 = reachable_step [OF 2, OF m_call [of _ 0 jrest ?c]]
  have "reachable machine_init (micro_step jrest sample_env False) (at (?m ?table) 0 (Called ?c))"
    by (rule 3) (simp_all add: eval)
  note 4 = reachable_step [OF this, OF m_lock [of _ 0 ?c]]
  have "reachable machine_init (micro_step jrest sample_env False)
      ((at (at (?m ?table) 0 (Called ?c)) 0 (InStatic ?c))\<lparr>static_owner := Some 0\<rparr>)"
    by (rule 4) (simp_all add: sample_table_def)
  then have "reachable machine_init (micro_step jrest sample_env False)
      ((at (?m ?table) 0 (InStatic ?c))\<lparr>static_owner := Some 0\<rparr>)" by simp
  note 5 = reachable_step [OF this, OF m_lock_both [of _ 0 "''c1''" "''10.0.0.1''" sample_request]]
  have "reachable machine_init (micro_step jrest sample_env False)
      ((at (?m ?table) 0 (InExists ?c))\<lparr>static_owner := Some 0, base_owner := Some 0\<rparr>)"
    using 5 by simp
  note 6 = reachable_step [OF this, OF m_exists [of _ 0 "''c1''" "''10.0.0.1''" sample_request jrest False True]]
  have "reachable machine_init (micro_step jrest sample_env False)
      ((at (?m ?table) 0 (PastExists ?c True))\<lparr>static_owner := Some 0\<rparr>)"
    using 6 eval(5) by simp
  from base_call [OF this, of 1 "DelApp sample_info" "Ret ()" "with_apps [] ?table"] eval
  show ?thesis by (simp add: sample_machine_def)
qed

theorem mutexes_make_atomic_witness:
  "reachable net_init (static_step jrest sample_env False) (linear jrest False sample_machine) \<and>
   map_of (theApplicationsByContextId (proxy (linear jrest False sample_machine))) ''c1'' \<noteq> None \<and>
   theApplications (proxy (linear jrest False sample_machine)) = []"
proof -
  have "map_of (theApplicationsByContextId (proxy (linear jrest False sample_machine))) ''c1'' \<noteq> None"
    "theApplications (proxy (linear jrest False sample_machine)) = []" by code_simp+
  with mutexes_make_atomic [OF jrest_laws sample_env_ok(1) sample_machine_reachable] show ?thesis by blast
qed

end
