(* ===== verification/Static_Crashes.thy ===== *)
theory Static_Crashes
  imports Static_Locks
begin

text \<open>
  What ends the process. The sections of \<open>Static_Locks\<close> have an outcome but for the causes that
  \<open>fatal\<close> lists with the state they are run in: an association that finds a context without a
  route, a notification whose POST crashes or (in a debug build) that goes to no callback, a creation
  with a context ID in use or, in a debug build, with a UE application ID in use or a request that is
  not plain, and in a release build the deletion of a context that the index does not lead to. Also the invariant of the shared state in
  the middle of a section: it holds there as well, so the threads outside a mutex may rely on it.
\<close>

section \<open>Fatal calls\<close>

fun fatal :: "('j, 't) rest_api \<Rightarrow> bool \<Rightarrow> 'j event \<Rightarrow> 'j net \<Rightarrow> bool" where
  "fatal R nd (Associate a n r) w \<longleftrightarrow> n \<noteq> [] \<and> r \<noteq> [] \<and>
     routeless ((map_of (theTable (proxy w)))(AddressAppKey a n \<mapsto> r)) n (proxy w)"
| "fatal R nd (Create uuid addr j) w \<longleftrightarrow>
     map_of (theApplicationsByContextId (proxy w)) uuid \<noteq> None \<or>
     \<not> nd \<and> (map_of (theApplicationsByUeAppId (proxy w)) (stringOrEmpty R j ''associateUeAppId'') \<noteq> None \<or>
       \<not> plain_request R j)"
| "fatal R nd (Delete c) w \<longleftrightarrow> nd \<and> (\<exists>d. map_of (theApplicationsByContextId (proxy w)) c = Some d \<and>
     map_of (theApplicationsByUeAppId (proxy w)) (theAssociateUeAppId d) = None)"
| "fatal R nd (Notify k v p) w \<longleftrightarrow> k < length (rounds w) \<and>
     (case rounds w ! k of [] \<Rightarrow> False | (cb, r, c) # ns \<Rightarrow> \<not> nd \<and> cb = [] \<or> v \<and> \<not> survives p)"
| "fatal R nd _ w \<longleftrightarrow> False"

lemma not_creatable_fatal: "\<not> creatable e (proxy w) \<Longrightarrow> fatal R nd e w"
  by (cases e) auto

section \<open>Sections survive\<close>

lemma associate_survives:
  assumes "order_ok E" "static_sound s"
    and "\<not> (n \<noteq> [] \<and> r \<noteq> [] \<and> routeless ((map_of (theTable s))(AddressAppKey a n \<mapsto> r)) n s)"
  shows "survives (fst (associateAddress_locked E nd a n r s))"
proof (cases "n = [] \<or> r = []")
  case True
  then show ?thesis by (auto simp: associateAddress_locked_def)
next
  case False
  then show ?thesis
    using associate_locked_eq(2) [OF assms(1,2) _ _ refl, of n r a nd] assms(3) by auto
qed

lemma remove_survives:
  assumes "order_ok E" "static_sound s"
  shows "survives (fst (removeAddress_locked E nd a n s))"
proof (cases "n = []")
  case False
  then show ?thesis using remove_locked_eq [OF assms False refl, of nd a] by auto
qed (simp add: removeAddress_locked_def)

lemma update_survives:
  assumes R: "rest_laws R" and inv: "static_sound s" and j: "AppContext_of_json R j = Ret j"
  shows "survives (fst (updateContext R nd j s))"
proof -
  obtain ue info where c: "context_ok R j ue info" by (rule parsed_context [OF R j])
  show ?thesis
  proof (cases "map_of (theApplicationsByUeAppId s) ue")
    case (Some cid)
    from static_sound_index [OF inv this] obtain d where "map_of (theApplicationsByContextId s) cid = Some d" .
    then show ?thesis using Some by (simp add: updateContext_def context_ok_getters(1) [OF R c])
  qed (simp add: updateContext_def context_ok_getters(1) [OF R c])
qed

lemma app_survives:
  assumes R: "rest_laws R" and inv: "static_sound s" and i: "AppInfo_of_json R i = Ret i"
  shows "survives (fst (addApp R nd i s))" "survives (fst (delApp R nd i s))"
proof -
  note k = mangle_app_key [OF R parsed_info [OF R i], of nd] and ok = static_soundD(4) [OF inv]
  show "survives (fst (addApp R nd i s))" by (rule addApp_Ret [OF ok k]) simp
  show "survives (fst (delApp R nd i s))" by (rule delApp_Ret [OF ok k]) simp
qed

lemma notify_survives:
  assumes R: "rest_laws R" and w: "net_inv nd w" and k: "k < length (rounds w)" "rounds w ! k = (cb, r, c) # ns"
    and ok: "nd \<or> cb \<noteq> []" "v \<longrightarrow> survives p"
  shows "survives (fst (notify_loop R (E\<lparr>uri_validate := \<lambda>_. v, client_post := \<lambda>_ _ _. p\<rparr>) nd [(cb, r, c)] 0 (proxy w)))"
proof -
  have "addressed ((cb, r, c) # ns)" using net_invD(3) [OF w] k nth_mem by metis
  then have n: "r \<noteq> []" "c \<noteq> []" by (simp_all add: addressed_def)
  show ?thesis
  proof (cases v)
    case True
    then have "posts_survive (E\<lparr>uri_validate := \<lambda>_. v, client_post := \<lambda>_ _ _. p\<rparr>)"
      using ok(2) by (simp add: posts_survive_def)
    from notify_loop_eq [OF R this net_invD(1) [OF w], of "[(cb, r, c)]" 0] ok(1) n show ?thesis
      by (simp add: addressed_def del: notify_loop.simps)
  next
    case False
    then show ?thesis using ok(1) n by (simp add: cassert_def)
  qed
qed

text \<open>The lookup of \<open>createContext\<close> never fails, the rest only as \<open>fatal\<close> says.\<close>

lemma exists_survives:
  assumes R: "rest_laws R" and j: "AppContext_of_json R j = Ret j"
  shows "survives (res_bind (appInfo R nd j) (\<lambda>i. exists_app R nd i s))"
proof -
  obtain ue info where c: "context_ok R j ue info" by (rule parsed_context [OF R j])
  then have "AppInfo_of_json R info = Ret info" by (simp add: context_ok_def)
  then show ?thesis
    by (simp add: context_ok_getters [OF R c] exists_app_def mangle_app_key [OF R parsed_info [OF R]])
qed

lemma makeResponse_survives:
  assumes R: "rest_laws R" and ok: "context_ok R j ue info" and plain: "nd \<or> plain_request R j"
  shows "survives (makeResponse R nd j cid uri)"
proof (cases "string_field R j ''contextId'' = None \<and> request_info R info")
  case True
  then have req: "string_field R j ''contextId'' = None" "request_info R info" by simp_all
  show ?thesis
  proof (cases "cid = [] \<or> uri = []")
    case True
    then show ?thesis using AppContext_type_eq(1) [OF R ok req] by (auto simp: makeResponse_def)
  next
    case False
    then obtain resp where "makeResponse R nd j cid uri = Ret resp"
      using makeResponse_request [OF R ok req, of cid uri nd] by metis
    then show ?thesis by simp
  qed
next
  case False
  moreover have "nd" using plain False ok by (auto simp: plain_request_def context_ok_def)
  ultimately show ?thesis using makeResponse_refused [OF R ok, of nd cid uri] by auto
qed

lemma checked_survives:
  assumes R: "rest_laws R" and j: "AppContext_of_json R j = Ret j"
    and new: "map_of (theApplicationsByContextId s) uuid = None"
      "nd \<or> map_of (theApplicationsByUeAppId s) (stringOrEmpty R j ''associateUeAppId'') = None"
    and plain: "nd \<or> plain_request R j"
  shows "survives (fst (createContext_checked R nd uuid addr j ex s))"
proof (cases ex)
  case True
  obtain ue info where c: "context_ok R j ue info" "stringOrEmpty R j ''associateUeAppId'' = ue"
    by (rule parsed_context [OF R j])
  note g = context_ok_getters [OF R c(1)]
  obtain n where n: "fName (app_fields_of R info) = Some n" by (rule context_ok_name [OF R c(1)])
  then have "n \<noteq> []"
    using c(1) parsed_info [OF R, of info] by (auto simp: context_ok_def app_acceptable_def)
  note simps = createContext_checked_def True g fields_appName(1) [OF R n] find_route_eq \<open>n \<noteq> []\<close>
  show ?thesis
  proof (cases "route (map_of (theTable s)) addr n")
    case (Some r)
    from makeResponse_survives [OF R c(1) plain, of uuid r]
    show ?thesis
    proof (cases "makeResponse R nd j uuid r")
      case (Ret resp)
      have "contextId R resp = uuid"
        using makeResponse_Ret [OF R c(1) Ret] makeResponse_accepted [OF R c(1) _ _ _ _ Ret] by blast
      then show ?thesis
        using new c(2) by (auto simp: simps Some Ret umap_emplace_def Let_def cassert_def)
    qed (simp_all add: simps Some)
  qed (simp add: simps)
qed (simp add: createContext_checked_def)

lemma section_survives:
  assumes R: "rest_laws R" and E: "order_ok E" and w: "net_inv nd w" and e: "parsed R e"
    and "\<forall>u a j. e \<noteq> Create u a j" and ok: "\<not> fatal R nd e w"
  shows "survives (fst (section_body R E nd e w))"
proof -
  note inv = net_invD(2) [OF w]
  have put: "survives (fst (case p of (x, s) \<Rightarrow> (res_map f x, g s))) = survives (fst p)"
    for p :: "'d res \<times> 'a static_state" and f :: "'d \<Rightarrow> unit" and g :: "'a static_state \<Rightarrow> 'a net"
    by (cases p; cases "fst p") (auto simp: res_map_def)
  have round: "survives (fst (case p of (Ret ns, s) \<Rightarrow> (Ret (), h ns s) | (x, s) \<Rightarrow> (res_map f x, g s))) = survives (fst p)"
    for p :: "notification list res \<times> 'a static_state" and f :: "notification list \<Rightarrow> unit"
      and g :: "'a static_state \<Rightarrow> 'a net" and h
    by (cases p; cases "fst p") (auto simp: res_map_def)
  show ?thesis
  proof (cases e)
    case (Associate a n r)
    then show ?thesis using associate_survives [OF E inv, of n r a nd] ok by (simp add: round)
  next
    case (Remove a n)
    then show ?thesis using remove_survives [OF E inv] by (simp add: round)
  next
    case (Update j)
    then show ?thesis using update_survives [OF R inv] e by (simp add: put)
  next
    case (Delete c)
    then have "nd \<or> linked (proxy w)" and "\<not> fatal R nd (Delete c) w"
      using net_invD(1) [OF w] ok by (auto simp: proxy_inv_def)
    then have "survives (fst (deleteContext nd c (proxy w)))"
      using linked_context [of "proxy w" c] by (auto simp: deleteContext_cases split: option.split)
    then show ?thesis by (simp add: Delete put)
  next
    case (AddApp i)
    then show ?thesis using app_survives(1) [OF R inv] e by (simp add: put)
  next
    case (DelApp i)
    then show ?thesis using app_survives(2) [OF R inv] e by (simp add: put)
  next
    case (Notify k v p)
    show ?thesis
    proof (cases "k < length (rounds w) \<and> rounds w ! k \<noteq> []")
      case True
      then obtain cb r c ns where k: "k < length (rounds w)" "rounds w ! k = (cb, r, c) # ns"
        by (metis list.exhaust prod_cases3)
      then have "nd \<or> cb \<noteq> []" "v \<longrightarrow> survives p" using ok by (auto simp: Notify)
      from notify_survives [OF R w k this, of E] show ?thesis
        by (auto simp: Notify k simp del: notify_loop.simps split: prod.splits)
    qed (auto simp: Notify)
  qed (use assms(5) in simp)
qed

section \<open>The shared state in the middle of a section\<close>

lemma section_inv:
  assumes R: "rest_laws R" and E: "order_ok E" and w: "net_inv nd w" and e: "parsed R e" "creatable e (proxy w)"
    and s: "section_body R E nd e w = (x, w')" "survives x"
  shows "net_inv nd w'"
proof (cases x)
  case (Ret u)
  then show ?thesis using section_step [where E = E, OF e] s net_inv_step [OF R E w] w by auto
next
  case (Raise ex)
  then show ?thesis using section_throws s w by blast
qed (use s(2) in simp_all)

text \<open>Past the lookup, the state is behind \<open>linear\<close>, which has the invariant; the rest of the creation
  catches up with it.\<close>

lemma shared_inv:
  assumes R: "rest_laws R" and E: "order_ok E" and m: "reachable machine_init (micro_step R E nd) m"
  shows "net_inv nd (shared m)"
  using m
proof (induction rule: reachable.induct)
  case (reachable_init m)
  then show ?case by (simp add: machine_init_def net_init_def net_inv_def static_inv_proxy [OF static_inv_init])
next
  case (reachable_step m t m')
  note inv = static_machine.inv_reachable [OF reachable_step(1)]
  note at = machine_invD(3) [OF inv, of t] and inv' = machine_inv_step [OF inv reachable_step(2)]
  from reachable_step(2) show ?case
  proof cases
    case (m_section e x w)
    then show ?thesis using section_inv [OF R E reachable_step(3), of e x w] at by simp
  next
    case (m_base_section e x w)
    then show ?thesis
      using section_inv [OF R E reachable_step(3), of e x w] at by (cases e) simp_all
  next
    case (m_create u a j ex x s)
    have "reachable machine_init (micro_step R E nd) m'"
      using reachable_step(1,2) by (rule reachable.reachable_step)
    from static_system.inv_reachable [OF linear_reachable [OF this]] R E
    have "net_inv nd (linear R nd m')" by simp
    moreover have "linear R nd m' = shared m'"
      using linear_owner [OF inv', of t] m_create(1) by simp
    ultimately show ?thesis by simp
  qed (use reachable_step(3) in simp_all)
qed

end
