(* ===== verification/Static_Deadlock.thy ===== *)
theory Static_Deadlock
  imports Static_Crashes
begin

text \<open>
  The threads of \<open>Static_Locks\<close> always get on: the owner of the mutex of the base class waits for
  nothing, the owner of the mutex of the static proxy at most for that one, everyone else for one of
  them. A thread only stops where its section has no outcome (\<open>gives_up\<close>), and that is in one of the
  calls that \<open>fatal\<close> lists.
\<close>

section \<open>No deadlock\<close>

text \<open>
  A critical section that ends the process, or a creation whose context ID is in use: what the model
  gives no step.
\<close>

definition gives_up :: "('j, 't) rest_api \<Rightarrow> 'j static_env \<Rightarrow> bool \<Rightarrow> 'j machine \<Rightarrow> nat \<Rightarrow> bool" where
  "gives_up R E nd m t \<longleftrightarrow>
     (case thread m t of
        Called e \<Rightarrow> \<not> creatable e (proxy (shared m))
      | InStatic e \<Rightarrow> (\<forall>u a j. e \<noteq> Create u a j) \<and> \<not> survives (fst (section_body R E nd e (shared m)))
      | InExists e \<Rightarrow> (\<exists>u a j. e = Create u a j \<and>
          \<not> survives (res_bind (appInfo R nd j) (\<lambda>i. exists_app R nd i (proxy (shared m)))))
      | PastExists e ex \<Rightarrow> (\<exists>u a j. e = Create u a j \<and>
          \<not> survives (fst (createContext_checked R nd u a j ex (proxy (shared m)))))
      | InBase e \<Rightarrow> \<not> survives (fst (section_body R E nd e (shared m)))
      | _ \<Rightarrow> False)"

text \<open>The owner of the mutex of the base class waits for nothing.\<close>

lemma base_owner_moves:
  assumes inv: "machine_inv R nd m" and t: "holds_base (thread m t)" and ok: "\<not> gives_up R E nd m t"
  shows "\<exists>m'. micro_step R E nd m t m'"
proof (cases "thread m t")
  case (InExists e)
  then obtain u a j where e: "e = Create u a j" using machine_invD(3) [OF inv, of t] by auto
  let ?x = "res_bind (appInfo R nd j) (\<lambda>i. exists_app R nd i (proxy (shared m)))"
  have "survives ?x" using ok by (simp add: gives_up_def InExists e)
  then show ?thesis
    using m_exists [of m t u a j R nd] m_exists_throws [of m t u a j R nd] InExists e by (cases ?x) auto
next
  case (InBase e)
  then show ?thesis
    using ok m_base_section [OF InBase, where R = R and E = E and nd = nd]
    by (cases "section_body R E nd e (shared m)") (auto simp: gives_up_def)
next
  case LeavingBase
  from m_base_unlock [OF this] show ?thesis by blast
qed (use t in auto)

text \<open>The owner of the mutex of the static proxy waits at most for the other one.\<close>

lemma static_owner_moves:
  assumes inv: "machine_inv R nd m" and t: "holds_static (thread m t)" and ok: "\<not> gives_up R E nd m t"
    and free: "base_owner m = None"
  shows "\<exists>m'. micro_step R E nd m t m'"
proof (cases "thread m t")
  case (InStatic e)
  show ?thesis
  proof (cases "\<exists>u a j. e = Create u a j")
    case True
    then obtain u a j where "thread m t = InStatic (Create u a j)" using InStatic by blast
    from m_lock_both [OF this free] show ?thesis by blast
  next
    case False
    then show ?thesis
      using ok m_section [OF InStatic, where R = R and E = E and nd = nd]
      by (cases "section_body R E nd e (shared m)") (auto simp: gives_up_def InStatic)
  qed
next
  case (InExists e)
  then show ?thesis using machine_invD(2) [OF inv, of t] free by simp
next
  case (PastExists e ex)
  then obtain u a j where e: "e = Create u a j" using machine_invD(3) [OF inv, of t] by auto
  obtain x s where "createContext_checked R nd u a j ex (proxy (shared m)) = (x, s)" by fastforce
  then show ?thesis using m_create [of m t u a j ex R nd x s E] ok by (auto simp: PastExists e gives_up_def)
next
  case LeavingStatic
  from m_unlock [OF this] show ?thesis by blast
qed (use t in auto)

lemma someone_moves:
  assumes inv: "machine_inv R nd m" and busy: "thread m t \<noteq> Idle" and ok: "\<And>u. \<not> gives_up R E nd m u"
  shows "\<exists>u m'. thread m u \<noteq> Idle \<and> micro_step R E nd m u m'"
proof (cases "base_owner m")
  case (Some u)
  then have u: "holds_base (thread m u)" using machine_invD(2) [OF inv] by simp
  then have "thread m u \<noteq> Idle" by auto
  with base_owner_moves [OF inv u ok] show ?thesis by blast
next
  case free: None
  show ?thesis
  proof (cases "static_owner m")
    case (Some u)
    then have u: "holds_static (thread m u)" using machine_invD(1) [OF inv] by simp
    then have "thread m u \<noteq> Idle" by auto
    with static_owner_moves [OF inv u ok free] show ?thesis by blast
  next
    case None
    then have "\<not> holds_static (thread m t)" "\<not> holds_base (thread m t)"
      using machine_invD(1,2) [OF inv, of t] free by simp_all
    then obtain e where e: "thread m t = Called e" using busy by (cases "thread m t") auto
    have "creatable e (proxy (shared m))" using ok [of t] by (simp add: gives_up_def e)
    then have "\<exists>m'. micro_step R E nd m t m'"
      using m_lock [OF e] m_base_lock [OF e] None free by (cases "base_section e") blast+
    then show ?thesis using busy by blast
  qed
qed

text \<open>A thread that gives up is in one of the calls listed.\<close>

lemma gives_up_fatal:
  assumes R: "rest_laws R" and E: "order_ok E" and m: "reachable machine_init (micro_step R E nd) m"
    and up: "gives_up R E nd m t"
  shows "\<exists>e. running (thread m t) = Some e \<and> fatal R nd e (shared m)"
proof -
  note at = machine_invD(3) [OF static_machine.inv_reachable [OF m], of t] and w = shared_inv [OF R E m]
  note sec = section_survives [OF R E w]
  show ?thesis
  proof (cases "thread m t")
    case (Called e)
    then show ?thesis using up not_creatable_fatal by (auto simp: gives_up_def)
  next
    case (InStatic e)
    then show ?thesis using up at sec [of e] by (auto simp: gives_up_def)
  next
    case (InExists e)
    then obtain u a j where e: "e = Create u a j" "AppContext_of_json R j = Ret j" using at by auto
    then show ?thesis
      using up exists_survives [OF R e(2), of nd "proxy (shared m)"] by (simp add: gives_up_def InExists)
  next
    case (PastExists e ex)
    then obtain u a j where e: "e = Create u a j" "AppContext_of_json R j = Ret j" using at by auto
    then show ?thesis
      using up checked_survives [OF R e(2), of "proxy (shared m)" u nd a ex] by (auto simp: gives_up_def PastExists)
  next
    case (InBase e)
    then have "\<forall>u a j. e \<noteq> Create u a j" "parsed R e" using at by auto
    then show ?thesis using up sec [of e] by (auto simp: gives_up_def InBase)
  qed (use up in \<open>simp_all add: gives_up_def\<close>)
qed

text \<open>How far a thread is from the end of its call.\<close>

fun distance :: "'j point \<Rightarrow> nat" where
  "distance Idle = 0"
| "distance (Called e) = 5"
| "distance (InStatic e) = 4"
| "distance (InExists e) = 3"
| "distance (PastExists e ex) = 2"
| "distance (InBase e) = 2"
| "distance LeavingStatic = 1"
| "distance LeavingBase = 1"

lemma distance_le: "distance p \<le> 5"
  by (cases p) simp_all

lemma micro_step_distance:
  "micro_step R E nd m t m' \<Longrightarrow> thread m t \<noteq> Idle \<Longrightarrow>
   distance (thread m' t) < distance (thread m t) \<and> (\<forall>u. u \<noteq> t \<longrightarrow> thread m' u = thread m u)"
  by (induction rule: micro_step.induct) simp_all

text \<open>Every call comes to its end unless one gives up: each step brings its thread nearer to its end.\<close>

lemma calls_end_or_give_up:
  assumes inv: "machine_inv R nd m" and fin: "finite B" "\<And>t. thread m t \<noteq> Idle \<Longrightarrow> t \<in> B"
  shows "\<exists>ts m'. run (micro_step R E nd) m ts m' \<and> set ts \<subseteq> B \<and> length ts \<le> 5 * card B \<and>
    ((\<forall>t. thread m' t = Idle) \<or> (\<exists>t. gives_up R E nd m' t))"
proof -
  let ?W = "\<lambda>m. \<Sum>t \<in> B. distance (thread m t)"
  have "\<exists>ts m'. run (micro_step R E nd) m ts m' \<and> set ts \<subseteq> B \<and> length ts \<le> ?W m \<and>
      ((\<forall>t. thread m' t = Idle) \<or> (\<exists>t. gives_up R E nd m' t))"
    using inv fin(2)
  proof (induction "?W m" arbitrary: m rule: less_induct)
    case less
    show ?case
    proof (cases "(\<forall>t. thread m t = Idle) \<or> (\<exists>t. gives_up R E nd m t)")
      case True
      then show ?thesis by (intro exI [of _ "[]"] exI [of _ m]) simp
    next
      case False
      then obtain u m1 where u: "thread m u \<noteq> Idle" "micro_step R E nd m u m1"
        using someone_moves [OF less.prems(1)] by blast
      note d = micro_step_distance [OF u(2,1)]
      have "u \<in> B" by (rule less.prems(2) [OF u(1)])
      then have W: "?W m1 < ?W m"
        using fin(1) d by (intro sum_strict_mono_ex1) (force simp: le_less)+
      have "thread m1 t \<noteq> Idle \<Longrightarrow> t \<in> B" for t
        using d less.prems(2) \<open>u \<in> B\<close> by (cases "t = u") auto
      from less.hyps [OF W machine_inv_step [OF less.prems(1) u(2)] this] obtain ts m' where
        "run (micro_step R E nd) m1 ts m'" "set ts \<subseteq> B" "length ts \<le> ?W m1"
        "(\<forall>t. thread m' t = Idle) \<or> (\<exists>t. gives_up R E nd m' t)" by blast
      then show ?thesis
        using u(2) \<open>u \<in> B\<close> W by (intro exI [of _ "u # ts"] exI [of _ m']) (auto simp: run_Cons)
    qed
  qed
  moreover have "?W m \<le> 5 * card B"
    using sum_bounded_above [of B "\<lambda>t. distance (thread m t)" 5, OF distance_le] by (simp add: mult.commute)
  ultimately show ?thesis by (meson le_trans)
qed

text \<open>C6. No deadlock: whatever finitely many threads have called, and wherever they are with their two
  mutexes, they can all return without another call, in at most five steps each, unless one of them
  comes to a call that \<open>fatal\<close> lists: an association that finds a context without a route; a
  notification whose POST crashes or (in a debug build) has no callback; a creation with a context ID
  in use or (in a debug build) with a UE application ID in use or a request that is not plain; (in a
  release build) the deletion of a context that the index does not lead to.\<close>

theorem calls_complete:
  assumes R: "rest_laws R" and E: "order_ok E"
    and m: "reachable machine_init (micro_step R E nd) m" and fin: "finite B" "\<And>t. thread m t \<noteq> Idle \<Longrightarrow> t \<in> B"
  shows "\<exists>ts m'. run (micro_step R E nd) m ts m' \<and> set ts \<subseteq> B \<and> length ts \<le> 5 * card B \<and>
    ((\<forall>t. thread m' t = Idle) \<or>
     (\<exists>t e. running (thread m' t) = Some e \<and> fatal R nd e (shared m')))"
proof -
  obtain ts m' where r: "run (micro_step R E nd) m ts m'" "set ts \<subseteq> B" "length ts \<le> 5 * card B"
      "(\<forall>t. thread m' t = Idle) \<or> (\<exists>t. gives_up R E nd m' t)"
    using calls_end_or_give_up [OF static_machine.inv_reachable [OF m] fin] by blast
  note gives_up_fatal [OF R E run_reachable [OF r(1) m]]
  with r show ?thesis by blast
qed

theorem calls_complete_witness:
  "\<exists>ts m'. run (micro_step jrest sample_env False) sample_machine ts m' \<and> length ts \<le> 5 \<and>
     ((\<forall>t. thread m' t = Idle) \<or>
      (\<exists>t e. running (thread m' t) = Some e \<and> fatal jrest False e (shared m')))"
proof -
  have "thread sample_machine t \<noteq> Idle \<Longrightarrow> t \<in> {0}" for t by (auto simp: sample_machine_def split: if_splits)
  from calls_complete [OF jrest_laws sample_env_ok(1) sample_machine_reachable _ this] show ?thesis by auto
qed

end
