(* ===== verification/Unit_Tests.thy ===== *)
theory Unit_Tests
  imports Trivial_Proxy App_List_Client Static_File_Proxy Grpc_Proxy Manager_And_Proxy
begin

text \<open>
  The unit tests of the repository (src/Test), replayed on the definitions: every assertion of a
  test that does not depend on time holds of the model. The library of JSON values is the concrete
  one of \<open>Rest_Instance\<close>, the maps are visited in the order of the list, and the build is a debug
  build, so that no assertion of the code fails either.
\<close>

section \<open>testetsimec.cpp\<close>

text \<open>\<open>test_appcontext\<close>: what the constructors and \<open>makeResponse\<close> accept.\<close>

definition test_request :: json where
  "test_request = (case AppInfo_request jrest ''my-app'' ''my-provider'' ''v1.0'' [] ''package-source'' of Ret i \<Rightarrow> i)"

definition test_response :: json where
  "test_response = (case AppInfo_response jrest ''my-app'' ''my-provider'' ''v1.0'' [] ''ref-uri'' ''package-source'' of
     Ret i \<Rightarrow> i)"

definition test_wrong :: json where
  "test_wrong = (case AppInfo_list jrest ''my-app'' ''my-provider'' ''v1.0'' [] (AppCharcs_default jrest) of Ret i \<Rightarrow> i)"

fun throws :: "'a res \<Rightarrow> bool" where
  "throws (Raise (RuntimeError m)) = True"
| "throws m = False"

lemma test_appcontext:
  "res_bind (AppContext_request jrest False ''ue-app-id'' ''callback-ref'' test_request) (AppContext_type jrest False) = Ret Request"
  "res_bind (AppContext_response jrest False ''context-id'' ''ue-app-id'' ''callback-ref'' test_response)
     (AppContext_type jrest False) = Ret Response"
  "returns (AppContext_request jrest False ''ue-app-id'' [] test_request)"
  "returns (AppContext_response jrest False ''context-id'' ''ue-app-id'' [] test_response)"
  "returns (res_bind (AppContext_request jrest False ''ue-app-id'' ''callback-ref'' test_request)
     (\<lambda>c. makeResponse jrest False c ''context-id'' ''ref-uri''))"
  "throws (AppContext_response jrest False ''context-id'' ''ue-app-id'' ''callback-ref'' test_request)"
  "throws (AppContext_request jrest False ''ue-app-id'' ''callback-ref'' test_response)"
  "throws (AppContext_request jrest False ''ue-app-id'' ''callback-ref'' test_wrong)"
  "throws (AppContext_response jrest False ''context-id'' ''ue-app-id'' ''callback-ref'' test_wrong)"
  "throws (AppContext_request jrest False [] ''callback-ref'' test_request)"
  "throws (AppContext_response jrest False [] ''ue-app-id'' ''callback-ref'' test_request)"
  "throws (AppContext_response jrest False ''context-id'' [] ''callback-ref'' test_request)"
  "throws (res_bind (AppContext_request jrest False ''ue-app-id'' ''callback-ref'' test_request)
     (\<lambda>c. makeResponse jrest False c [] ''ref-uri''))"
  "throws (res_bind (AppContext_request jrest False ''ue-app-id'' ''callback-ref'' test_request)
     (\<lambda>c. makeResponse jrest False c ''context-id'' []))"
  "throws (res_bind (AppContext_request jrest False ''ue-app-id'' ''callback-ref'' test_response)
     (\<lambda>c. makeResponse jrest False c ''context-id'' ''ref-uri''))"
  by code_simp+

text \<open>\<open>test_ueapplcmproxy_applist\<close>: the number of applications that \<open>app_list\<close> returns after each call.\<close>

datatype app_op = Add string | Del string

fun test_apps :: "app_op list \<Rightarrow> json trivial_state \<Rightarrow> nat list res" where
  "test_apps [] s = Ret []"
| "test_apps (e # es) s =
     (let op = (case e of Add n \<Rightarrow> addApp jrest False | Del n \<Rightarrow> delApp jrest False);
          n = (case e of Add n \<Rightarrow> n | Del n \<Rightarrow> n)
      in res_bind (AppInfo_list jrest n ''my-provider'' ''v1.0'' [] (AppCharcs_default jrest)) (\<lambda>i.
         case op i s of
           (Ret b, s) \<Rightarrow>
             (case AppListClient jrest (\<lambda>root path. Ret (reply_status (handleAppList jrest s),
                  the (reply_body (handleAppList jrest s)))) ''http://localhost:10000'' of
                Ret apps \<Rightarrow> res_map (\<lambda>ns. length apps # ns) (test_apps es s)
              | Raise x \<Rightarrow> Raise x | Abort \<Rightarrow> Abort | Undef \<Rightarrow> Undef)
         | (Raise x, s) \<Rightarrow> Raise x | (Abort, s) \<Rightarrow> Abort | (Undef, s) \<Rightarrow> Undef))"

lemma test_ueapplcmproxy_applist:
  "test_apps [Add ''my-app'', Add ''my-app'', Add ''my-app2'', Del ''my-app2'', Del ''my-app2'', Del ''my-app3'',
     Del ''my-app''] trivial_init = Ret [1, 1, 2, 1, 1, 1, 0]"
  by code_simp

text \<open>\<open>test_ueapplcmproxy_appcontext\<close>: the statuses of the replies, and what the test proxy saw.\<close>

definition test_http :: "lcm_handler \<Rightarrow> json res \<Rightarrow> string \<Rightarrow> json trivial_state \<Rightarrow> json http_reply res \<times> json trivial_state" where
  "test_http h body path = serve jrest False (trivial_createContext jrest False) trivial_updateContext trivial_deleteContext h
     \<lparr>remote_address = ''127.0.0.1'', json_body = body, relative_path = path, relative_uri = path\<rparr>"

definition test_context :: "json res" where
  "test_context = res_bind (AppInfo_request jrest ''my-app'' ''my-provider'' ''v1.0'' [] ''package'')
     (AppContext_request jrest False ''unique-id'' ''callback-ref'')"

definition test_statuses ::
  "json trivial_state \<Rightarrow> (nat res \<times> string res \<times> nat res \<times> nat res) \<times> json trivial_state" where
  "test_statuses s =
     (let (created, s) = test_http HandleContextCreate test_context ''app_contexts'' s;
          (updated, s) = test_http HandleContextUpdate test_context ''app_contexts/xxx'' s;
          (deleted, s) = test_http HandleContextDelete (Ret JNull) ''app_contexts/xxx'' s
      in ((res_map reply_status created, res_map (\<lambda>r. contextId jrest (the (reply_body r))) created,
           res_map reply_status updated, res_map reply_status deleted), s))"

lemma test_ueapplcmproxy_appcontext:
  "tClientAddress (trivial_init :: json trivial_state) = []"
  "fst (test_statuses trivial_init) = (Ret 201, Ret ''context-id-1'', Ret 204, Ret 204)"
  "tClientAddress (snd (test_statuses trivial_init)) \<noteq> []"
  "theUpdated (snd (test_statuses trivial_init)) = 1"
  "theContextId (snd (test_statuses trivial_init)) = ''xxx''"
  "fst (fst (test_statuses (snd (test_statuses trivial_init) \<lparr>theValidRequest := False\<rparr>))) = Ret 403"
  "snd (snd (fst (test_statuses (snd (test_statuses trivial_init) \<lparr>theValidRequest := False\<rparr>)))) = (Ret 403, Ret 403)"
  "theUpdated (snd (test_statuses (snd (test_statuses trivial_init) \<lparr>theValidRequest := False\<rparr>))) = 2"
  by code_simp+

text \<open>\<open>test_staticfileueapplcmproxy\<close>.\<close>

definition test_file :: "string option \<Rightarrow> unit res \<times> json static_state" where
  "test_file = StaticFileUeAppLcmProxy jrest sample_env False ''to_remove/staticfile.txt''"

lemma test_staticfileueapplcmproxy:
  "throws (fst (test_file None))" "throws (fst (test_file (Some [])))" "throws (fst (test_file (Some ''a c'')))"
  "throws (fst (test_file (Some ''a b c d'')))"
  "fst (test_file (Some (''earth is planet'' @ [CHR 0x0A] @ ''mars is planet'' @ [CHR 0x0A] @
     ''pluto is-not planet'' @ [CHR 0x0A] @ ''* wants-to-be planet''))) = Ret ()"
  "numAddresses (snd (test_file (Some (''earth is planet'' @ [CHR 0x0A] @ ''mars is planet'' @ [CHR 0x0A] @
     ''pluto is-not planet'' @ [CHR 0x0A] @ ''* wants-to-be planet'')))) = 4"
  by code_simp+

section \<open>teststaticueapplcmproxy.cpp and testgrpcueapplcmproxy.cpp\<close>

text \<open>\<open>TrivialStaticUeAppLcmProxy\<close>: its constructor and \<open>add\<close>, the context IDs being numbered here.\<close>

definition add_apps :: "string list \<Rightarrow> json static_state" where
  "add_apps ns = fold (\<lambda>n s. case AppInfo_list jrest n ''provider'' ''version'' ''description'' (AppCharcs_default jrest) of
       Ret i \<Rightarrow> snd (addApp jrest False i s)) ns static_init"

definition test_add :: "nat \<Rightarrow> string \<Rightarrow> string \<Rightarrow> json static_state \<Rightarrow> bool res \<times> json static_state" where
  "test_add theCounter aAddress aName s =
     and_then (res_bind (AppInfo_request jrest aName ''provider'' ''version'' ''description'' ''package source'')
         (AppContext_request jrest False (to_string theCounter) []), s) (\<lambda>c s.
     and_then (createContext jrest False (''id'' @ to_string theCounter) aAddress c s) (\<lambda>r s.
     (res_map (\<lambda>ty. ty = Response) (AppContext_type jrest False r), s)))"

definition test_proxy :: "json static_state" where
  "test_proxy = snd (associateAddress jrest sample_env False ''1.1.1.1'' ''lambda1'' ''edge1''
     (snd (associateAddress jrest sample_env False [] ''lambda0'' ''edge0'' (add_apps [''lambda0'', ''lambda1'']))))"

fun test_adds :: "nat \<Rightarrow> (string \<times> string) list \<Rightarrow> json static_state \<Rightarrow> bool res list \<times> json static_state" where
  "test_adds k [] s = ([], s)"
| "test_adds k ((a, n) # xs) s =
     (let (b, s) = test_add k a n s; (bs, s) = test_adds (Suc k) xs s in (b # bs, s))"

definition test_clients :: "(string \<times> string \<times> string) list" where
  "test_clients = [(''1.1.1.2'', ''lambda0'', ''edge0''), (''1.1.1.1'', ''lambda1'', ''edge1''),
     (''1.1.1.1'', ''lambda0'', ''edge0''), (''1.1.1.1'', ''lambda0'', ''edge0'')]"

text \<open>\<open>test_contexts\<close> of both files: the proxy, and the gRPC client of the proxy.\<close>

lemma test_no_contexts:
  "numContexts False (add_apps [''lambda0'', ''lambda1'']) = Ret 0"
  "contexts sample_env (add_apps [''lambda0'', ''lambda1'']) = []"
  "fst (test_add 1 ''1.1.1.1'' ''lambda0'' (add_apps [''lambda0'', ''lambda1''])) = Ret False"
  by code_simp+

lemma test_contexts:
  "(case test_adds 2 [(''1.1.1.1'', ''lambda0''), (''1.1.1.1'', ''lambda0''), (''1.1.1.1'', ''lambda1''),
       (''1.1.1.2'', ''lambda0''), (''1.1.1.2'', ''lambda1'')] test_proxy of
      (added, s) \<Rightarrow> (added, numContexts False s, contexts sample_env s,
        fst (client_numContexts sample_check (impl_numContexts False) s),
        fst (client_contexts sample_check (impl_contexts sample_env) s))) =
   ([Ret True, Ret True, Ret True, Ret True, Ret False], Ret 4, test_clients, Ret 4, Ret test_clients)"
  by code_simp

text \<open>\<open>test_addresses\<close>: the table after each call of the client, and the individual routes.\<close>

datatype client_op = Assoc string string string | Rem string string

fun test_client :: "client_op \<Rightarrow> json static_state \<Rightarrow> unit res \<times> json static_state" where
  "test_client (Assoc a n r) = client_associateAddress sample_check (impl_associateAddress jrest sample_env False) a n r"
| "test_client (Rem a n) = client_removeAddress sample_check (impl_removeAddress jrest sample_env False) a n"

fun test_table :: "client_op list \<Rightarrow> json static_state \<Rightarrow> bool list \<times> (string \<times> string \<times> string) list res \<times> json static_state" where
  "test_table [] s = ([], fst (client_table sample_check (impl_table sample_env) s), s)"
| "test_table (e # es) s =
     (let (x, s) = test_client e s; (xs, rest) = test_table es s in (throws x # xs, rest))"

definition five :: "(string \<Rightarrow> client_op) \<Rightarrow> client_op list" where
  "five f = map (\<lambda>i. f (''10.0.0.'' @ to_string i)) [0, 1, 2, 3, 4]"

lemma test_addresses:
  "(case test_table (five (\<lambda>a. Assoc a ''lambda0'' ''1.1.1.1'')) static_init of (xs, t, s) \<Rightarrow>
      (xs, res_map set t)) =
   (replicate 5 False, Ret ((\<lambda>i. (''10.0.0.'' @ to_string i, ''lambda0'', ''1.1.1.1'')) ` {0, 1, 2, 3, 4}))"
  "(case test_table (five (\<lambda>a. Assoc a ''lambda0'' ''1.1.1.1'') @ [Assoc ''10.0.0.2'' ''lambda0'' ''1.1.1.2'',
        Assoc ''10.0.0.2'' [] ''1.1.1.1'', Assoc ''10.0.0.2'' ''lambda0'' []]) static_init of (xs, t, s) \<Rightarrow>
      (drop 5 xs, res_map set t)) =
   ([False, True, True], Ret ((\<lambda>i. (''10.0.0.'' @ to_string i, ''lambda0'', if i = 2 then ''1.1.1.2'' else ''1.1.1.1'')) `
      {0, 1, 2, 3, 4}))"
  "fst (snd (test_table (five (\<lambda>a. Assoc a ''lambda0'' ''1.1.1.1'') @ five (\<lambda>a. Rem a ''lambda0'')) static_init)) = Ret []"
  by code_simp+

fun test_routes :: "client_op list \<Rightarrow> json static_state \<Rightarrow> string res list" where
  "test_routes [] s = []"
| "test_routes (e # es) s =
     edgeRouter False ''1.1.1.1'' ''lambda0'' (snd (test_client e s)) # test_routes es (snd (test_client e s))"

lemma test_individual_routes:
  "edgeRouter False ''1.1.1.1'' ''lambda0'' (static_init :: json static_state) = Ret []"
  "test_routes [Assoc ''1.1.1.1'' ''lambda0'' ''edge0'', Assoc ''1.1.1.2'' ''lambda0'' ''edge1'',
     Assoc ''1.1.1.1'' ''lambda2'' ''edge1'', Assoc [] ''lambda2'' ''edge1'', Assoc ''1.1.1.1'' ''lambda0'' ''edge1'',
     Rem ''1.1.1.1'' ''lambda0''] static_init =
   map Ret [''edge0'', ''edge0'', ''edge0'', ''edge0'', ''edge1'', []]"
  by code_simp+

text \<open>\<open>test_lambda\<close>: whether the lambda exists after no call, two additions and a removal.\<close>

definition test_lambda_exists :: "json static_state \<Rightarrow> bool res" where
  "test_lambda_exists s =
     res_bind (AppInfo_list jrest ''lambda0'' ''OpenLambdaMec'' ''1.0'' [] (AppCharcs_default jrest))
       (\<lambda>i. exists_app jrest False i s)"

lemma test_lambda:
  "(let add = client_addLambda sample_check (impl_addLambda jrest False) ''lambda0'';
        s1 = snd (add (static_init :: json static_state)); s2 = snd (add s1);
        s3 = snd (client_delLambda sample_check (impl_delLambda jrest False) ''lambda0'' s2)
    in map test_lambda_exists [static_init, s1, s2, s3]) = [Ret False, Ret True, Ret True, Ret False]"
  by code_simp

text \<open>
  \<open>test_appcontextmanager_notifications\<close>, with one manager and one context: the router that the
  manager answers after each change of the table, once the notifications are delivered.
\<close>

definition test_manager :: "manager" where
  "test_manager = AppContextManager ''http://localhost:10001'' ''http://localhost:10000''"

definition test_open :: "json static_state \<Rightarrow> (string \<times> string) res \<times> manager \<times> json static_state" where
  "test_open s =
     (case AppInfo_request jrest ''name'' ''provider'' ''1.0.0'' ''example app'' [] of
        Ret i \<Rightarrow> contextCreate jrest False (post_to_proxy jrest False Raise ''id'' ''127.0.0.1'') ''ue'' i (test_manager, s))"

definition test_deliver ::
  "notification list res \<times> json static_state \<Rightarrow> manager \<Rightarrow> manager \<times> json static_state" where
  "test_deliver p m = (case p of (Ret ns, s) \<Rightarrow> (fold (notify_manager jrest False (\<lambda>s _. [tl s])) ns m, s))"

fun test_moves :: "client_op list \<Rightarrow> manager \<times> json static_state \<Rightarrow> (string res \<times> nat res) list" where
  "test_moves [] ms = []"
| "test_moves (e # es) (m, s) =
     (let ms = test_deliver (case e of Assoc a n r \<Rightarrow> associateAddress_locked sample_env False a n r s
                                     | Rem a n \<Rightarrow> removeAddress_locked sample_env False a n s) m
      in (manager_referenceUri ''ue'' (fst ms), numContexts False (snd ms)) # test_moves es ms)"

definition test_offered :: "json static_state" where
  "test_offered = (case AppInfo_list jrest ''name'' ''provider'' ''1.0.0'' ''example app'' (AppCharcs_default jrest) of
     Ret i \<Rightarrow> snd (addApp jrest False i static_init))"

lemma test_appcontextmanager_notifications:
  "throws (edgeRouter False [] ''name'' (static_init :: json static_state))"
  "throws (edgeRouter False ''1.1.1.1'' [] (static_init :: json static_state))"
  "throws (edgeRouter False [] [] (static_init :: json static_state))"
  "throws (fst (test_open static_init))"
  "throws (fst (test_open test_offered))"
  "(case test_open (snd (associateAddress_locked sample_env False [] ''name'' ''default'' test_offered)) of (ret, m, s) \<Rightarrow>
      (ret, manager_referenceUri ''ue'' m, numContexts False s, contexts sample_env s,
       test_moves [Assoc [] ''name'' ''another-default'', Assoc ''::2'' ''name'' ''mars'', Assoc ''127.0.0.1'' ''name'' ''moon'',
         Rem ''127.0.0.1'' ''name'', Assoc [] ''name'' ''venus''] (m, s))) =
   (Ret (''ue'', ''default''), Ret ''default'', Ret 1, [(''127.0.0.1'', ''name'', ''default'')],
    [(Ret ''another-default'', Ret 1), (Ret ''another-default'', Ret 1), (Ret ''moon'', Ret 1),
     (Ret ''another-default'', Ret 1), (Ret ''venus'', Ret 1)])"
  by code_simp+

end
