(* ===== verification/Findings.thy ===== *)
theory Findings
  imports Unit_Tests Mec_Cli Wsk
begin

text \<open>
  Where the code does not do what it means to, on concrete inputs: each lemma evaluates the model on
  the smallest input that shows it. The general statements are with the components.
\<close>

section \<open>The static proxy\<close>

text \<open>
  A context without a callback, which \<open>createContext\<close> accepts, aborts a debug build as soon as its
  router changes: \<open>notifyClients\<close> asserts that the callback is not empty (staticueapplcmproxy.cpp).
\<close>

lemma empty_callback_aborts:
  "(case test_add 2 ''1.1.1.1'' ''lambda0'' test_proxy of
      (created, s) \<Rightarrow> (created, fst (associateAddress jrest sample_env False [] ''lambda0'' ''edge9'' s))) =
   (Ret True, Abort)"
  by code_simp

text \<open>
  Two creations with the same UE application ID: a debug build aborts, a release build answers both,
  and deleting the two contexts erases the end iterator.
\<close>

definition create_twice :: "bool \<Rightarrow> json res \<times> json static_state" where
  "create_twice nd = createContext jrest nd ''c2'' ''10.0.0.1'' sample_request
     (snd (createContext jrest nd ''c1'' ''10.0.0.1'' sample_request sample_table))"

lemma same_ue_app_id:
  "fst (create_twice False) = Abort"
  "res_bind (fst (create_twice True)) (AppContext_type jrest True) = Ret Response"
  "fst (deleteContext True ''c1'' (snd (create_twice True))) = Ret True"
  "fst (deleteContext True ''c2'' (snd (deleteContext True ''c1'' (snd (create_twice True))))) = Undef"
  by code_simp+

text \<open>The two other ends of that state: \<open>numContexts\<close> counts two contexts and indexes one.\<close>

lemma same_ue_app_id_counts:
  "numContexts True (snd (create_twice True)) = Ret 2"
  "length (theApplicationsByUeAppId (snd (create_twice True))) = 1"
  by code_simp+

text \<open>Different applications with one key: the second \<open>addApp\<close> replaces the first (ueapplcmproxy.cpp).\<close>

definition app_named :: "string \<Rightarrow> string \<Rightarrow> json" where
  "app_named n p = (case AppInfo_list jrest n p ''1'' [] (AppCharcs_default jrest) of Ret i \<Rightarrow> i)"

lemma mangle_collides:
  "mangle jrest False (app_named ''a+b'' ''c'') = mangle jrest False (app_named ''a'' ''b+c'')"
  "app_named ''a+b'' ''c'' \<noteq> app_named ''a'' ''b+c''"
  "fst (addApp jrest False (app_named ''a'' ''b+c'') (snd (addApp jrest False (app_named ''a+b'' ''c'')
     (static_init :: json static_state)))) = Ret False"
  by code_simp+

text \<open>The PUT handler updates the context of the UE application ID of the body, whatever the path says.\<close>

lemma put_ignores_path:
  "handleContextUpdate jrest (updateContext jrest False) (req\<lparr>relative_path := p\<rparr>) s =
   handleContextUpdate jrest (updateContext jrest False) req s"
  by (simp add: handleContextUpdate_def)

text \<open>The number of contexts over gRPC wraps around at 2^32 (\<open>uint32\<close>).\<close>

lemma contexts_truncated:
  assumes "static_inv s" and "length (theApplicationsByContextId s) = 2 ^ 32"
  shows "fst (client_numContexts sample_check (impl_numContexts nd) s) = Ret 0"
  using linked_sizes [OF assms(1)] assms(2)
  by (simp add: client_numContexts_def call_def impl_numContexts_def numContexts_def sample_check_def)

section \<open>The other programs\<close>

text \<open>\<open>Command::auth\<close> returns the path (command.h).\<close>

lemma auth_is_path: "command_auth \<lparr>cApiRoot = r, cPath = p, cAuth = a\<rparr> = p"
  by (simp add: command_auth_def)

text \<open>\<open>sameKeys\<close> takes /a/b + c and /a + b/c for the same key (action.cpp).\<close>

lemma sameKeys_collides:
  "sameKeys [(ActionKey ''a/b'' ''c'', x)] [(ActionKey ''a'' ''b/c'', y)]"
  "ActionKey ''a/b'' ''c'' \<noteq> ActionKey ''a'' ''b/c''"
  by (simp_all add: sameKeys_def ActionKey_toString_def)

text \<open>A chat message with an API root that is no URI aborts a debug build of the bridge (etsimeccli.cpp).\<close>

lemma bridge_aborts:
  "fst (handlePost jrest False (\<lambda>uri. uri = ''http://h'') (\<lambda>_ _. Ret (200, JNull))
     (\<lambda>body. [(''token'', ''t''), (''text'', body)]) Ret (\<lambda>s _. [''apiroot'', s]) (RuntimeError []) ''t'' (Ret ''nonsense'')) = Abort"
  by code_simp

end
