(* ===== verification/Spec2Isabelle.thy ===== *)
theory Spec2Isabelle
  imports Static_System Static_Http Trivial_Proxy Static_File_Proxy Grpc_Proxy App_List_Client
    Mec_Catch_Up Mec_Overtaken Wsk Client_Cli Proxy_Main
    Static_Deadlock Findings
begin

text \<open>
  A verification of etsimec: the messages, proxies and clients of the ETSI MEC Mx2 interface
  (src/EtsiMec), the OpenWhisk client (src/OpenWhisk) and the programs around them
  (src/Executables).

  THE PROGRAM. A user equipment asks a UE application LCM proxy, over HTTP, for the list of
  applications and for application contexts; the answer to a creation names the router that
  serves the application (the referenceURI). \<open>UeAppLcmProxy\<close> keeps the applications and the four
  HTTP handlers; a derived class decides: \<open>TrivialUeAppLcmProxy\<close> grants or refuses everything,
  \<open>StaticUeAppLcmProxy\<close> looks the router up in a table from (client address, application) to
  router, with a default entry per application, and notifies the clients whose router changes.
  \<open>StaticFileUeAppLcmProxy\<close> fills the table from a file, \<open>GrpcUeAppLcmProxy\<close> offers the operations
  of the table over gRPC and \<open>GrpcUeAppLcmProxyClient\<close>, with the interpreter of
  ueapplcmproxyclientmain.cpp, calls them. On the side of the user equipment \<open>AppListClient\<close> reads
  the list and \<open>AppContextManager\<close> opens the contexts, receives the notifications and closes the
  contexts in its destructor.

  THE THEORIES, in the order of their imports.

  \<^item> Prelude: outcomes \<open>'a res\<close> (\<open>Ret\<close>, \<open>Raise\<close> an exception, \<open>Abort\<close> a failed assertion, \<open>Undef\<close>
    undefined behaviour), their composition \<open>res_bind\<close> and, with a state, \<open>and_then\<close>; unordered and
    ordered maps as association lists behind a map interface; transition systems with the locales
    \<open>step_system\<close> and \<open>simulation\<close>.
  \<^item> Rest_Api, Rest_Instance: the JSON values of cpprest and the helpers of the submodules
    src/rest and src/support, as a record of functions with the documented behaviour the sources
    rely on (\<open>rest_laws\<close>), and an instance \<open>jrest\<close> that satisfies all of it.
  \<^item> App_Charcs, App_Info, App_Context: appcharcs.cpp, appinfo.cpp, appcontext.cpp,
    notificationevent.cpp and applicationlist.cpp: an object is the JSON that the class stores;
    constructors, getters and conversions, with which arguments they accept and that they
    round-trip.
  \<^item> Ue_App_Lcm_Proxy: ueapplcmproxy.cpp. \<open>addApp\<close>, \<open>delApp\<close>, \<open>exists_app\<close> and \<open>mangle\<close> implement a
    dictionary; the handlers are functions of the three virtual functions, whose contract is the
    locales \<open>lcm_backend\<close> and \<open>lcm_store\<close>.
  \<^item> Static_Proxy: staticueapplcmproxy.h and staticueapplcmproxy.cpp, operation by operation, the
    part under the mutex apart from the notifications. Static_Routing: routes, the invariant
    (\<open>static_sound\<close> in every build, \<open>static_inv\<close> where no two contexts have one UE application ID,
    \<open>proxy_inv nd\<close> for the one that every run keeps) and the contract \<open>rerouting\<close> of the two operations
    that change the table.
    Static_Contexts: dropping, creating and updating contexts, a round of notifications, and the
    proxy as an \<open>lcm_store\<close>. Static_System: the proxy with any number of rounds of notifications
    under way, its invariant in every reachable state, and its refinement of a specification
    whose contexts store no router. Static_Properties and Static_Http: what every operation and
    every HTTP handler does on every branch. Static_Locks, Static_Crashes, Static_Deadlock: the
    two mutexes of the proxy, with \<open>createContext\<close> in two critical sections; creations are atomic
    all the same, and threads do not deadlock.
  \<^item> Etsi_Utils: utils.cpp, etsimecserver.h. Trivial_Proxy: trivialueapplcmproxy.h.
    Static_File_Proxy: staticfileueapplcmproxy.cpp, with the state bits of the input stream.
  \<^item> Grpc_Proxy: grpcueapplcmproxy.cpp and grpcueapplcmproxyclient.cpp. App_List_Client:
    applistclient.cpp. App_Context_Manager: appcontextmanager.cpp. Manager_And_Proxy: the manager
    and the static proxy over the network: creation end to end, agreement after notifications,
    the race between two rounds, and the destructor.
  \<^item> Mec_System: the static proxy, its administrators, one manager and any other clients as one
    system (\<open>mec_step\<close>), in which the manager opens contexts and answers the notifications that
    the proxy sends. In every state that an orderly run (\<open>orderly\<close>) reaches, its contexts are
    contexts of the proxy, and its router is the one of the table or a notification with that one is
    pending; Mec_Catch_Up: serving the pending notifications brings it up to date; Mec_Overtaken:
    a notification that overtakes the answer to the creation purges the context.
  \<^item> Spec2Isabelle: this text, and a whole HTTP conversation (POST, PUT, DELETE) with the static
    proxy through the routes that the constructor of \<open>UeAppLcmProxy\<close> registers.
  \<^item> Wsk: action.h, action.cpp, command.h, command.cpp, invoker.cpp, lister.cpp.
  \<^item> Mec_Cli: etsimecoptions.cpp, etsimeccli.cpp. Client_Cli: ueapplcmproxyclientmain.cpp, with
    the configuration file that the table command prints. Proxy_Main: ueapplcmproxymain.cpp, and
    that whatever its HTTP and gRPC servers serve is a run of \<open>static_step\<close>.
  \<^item> Unit_Tests: the assertions of the repository's tests (testetsimec.cpp,
    teststaticueapplcmproxy.cpp, testgrpcueapplcmproxy.cpp) evaluated on the model. Findings: the
    defects of the code on concrete inputs.

  THE STATE. Every class is a record of its members; a member function takes the state and
  returns its outcome with the new state, also when it throws. An iterator into
  \<open>theApplicationsByContextId\<close> is the key it points to; \<open>index_sound\<close> says that none dangles,
  \<open>linked\<close> that moreover every context has its entry in the index: the assertions of a debug build
  ensure it, while a release build that creates a second context for a UE application ID has
  one that the index does not lead to, and deleting it erases the end iterator (\<open>Undef\<close>). The
  flag \<open>nd\<close> is NDEBUG: with it false a failed assertion is \<open>Abort\<close>, with it true the code goes on and
  the dereference of an end iterator is \<open>Undef\<close>. Counters have their width (32 and 64 bits).

  PARAMETERS. What is not under src/ is an argument: the REST and support submodules
  (\<open>rest_laws\<close>, \<open>split_laws\<close>, \<open>status_laws\<close>), the order in which an unordered map is visited (any
  permutation, \<open>order_ok\<close>), UUIDs (only that one is unused), the answers of the network (any
  that do not crash the process, \<open>posts_survive\<close>), \<open>web::uri::validate\<close>, the command line that
  boost parsed, how the servers start and end. Each hypothesis is met by a concrete instance in
  the theorem that ends in \<open>_witness\<close> after the property.

  CONCURRENCY. The members of the static proxy hold a mutex except while they notify, so a step
  of \<open>static_step\<close> is the locked part of an operation or one notification of one round; all
  interleavings of these are runs. \<open>createContext\<close> takes a second mutex for the lookup of the
  application: \<open>micro_step\<close> has the acquisitions and releases of both, and every state that threads
  reach in it is, once the creation past its lookup is completed (\<open>linear\<close>), one that \<open>static_step\<close>
  reaches. A step that crashes the process is no step of the relation: that crashes can happen is
  stated on the operations, and \<open>fatal\<close> lists the calls and states in which they may. In
  \<open>mec_step\<close> the others may do anything; the claims on the manager are about its orderly runs
  (\<open>orderly\<close>): \<open>contextCreate\<close> is one step, the table changes only while no notification to
  the manager is pending, as with a single administrator whose calls return after the notifications,
  those notifications reach the manager, and the others use neither its notification URI nor its IDs.
  \<open>stale_router_after_race\<close> and \<open>early_notification_purges\<close> show what happens without the first two.

  TERMINATION. All functions are total: the loops run over lists, over the rest of an input
  stream or over the characters of a string, with a measure where the recursion is not
  structural. No fuel is used.

  NOT MODELLED. The submodules, the generated gRPC code and the proto file beyond its messages,
  the start and the loops of the servers, the parsing of the command line, the build files and the
  tests that need an OpenWhisk server (testinvoker.cpp, testlister.cpp). That iterators into an
  unordered map may be invalidated by a rehash is not modelled: an iterator is its key; nor are the buckets and the hash function of those maps,
  which are association lists here. Logging,
  and what \<open>VLOG\<close> evaluates when it is on, are left out.
\<close>

subsection \<open>A conversation over HTTP\<close>

lemma assign_with_context:
  assumes "map_of (theApplicationsByContextId s) c = None"
    and "theAssociateUeAppId d' = theAssociateUeAppId d"
  shows "(with_context c d s)\<lparr>theApplicationsByContextId :=
      umap_assign c d' (theApplicationsByContextId (with_context c d s))\<rparr> = with_context c d' s"
  using assms by (simp add: with_context_def umap_assign_def map_entry_absent)

abbreviation serve_static ::
  "('j, 't) rest_api \<Rightarrow> bool \<Rightarrow> string \<Rightarrow> lcm_handler \<Rightarrow> 'j http_request \<Rightarrow> 'j static_state \<Rightarrow>
     'j http_reply res \<times> 'j static_state" where
  "serve_static R nd uuid \<equiv> serve R nd (createContext R nd uuid) (updateContext R nd) (deleteContext nd)"

text \<open>C16. A conversation of one client over HTTP leaves the static proxy as it found it: an acceptable POST on
  app_contexts for a known application with a route is answered 201 with the new identifier, a PUT of a
  context with the same associated identifier is answered 204, the DELETE of the identifier is
  answered 204, and the state after it is the state before the POST.\<close>

theorem http_conversation:
  fixes R :: "('j, 't) rest_api" and s :: "'j static_state"
  assumes R: "rest_laws R" and inv: "static_inv s"
    and post: "json_body post = Ret j" "AppContext_of_json R j = Ret j" "plain_request R j"
    and info: "appInfo R nd j = Ret info" "mangle R nd info = Ret k" "appName R nd info = Ret n"
    and granted: "map_of (theApplications s) k \<noteq> None"
      "route (map_of (theTable s)) (remote_address post) n = Some r"
    and fresh: "uuid \<noteq> []" "map_of (theApplicationsByContextId s) uuid = None"
      "associateUeAppId R nd j = Ret ue" "map_of (theApplicationsByUeAppId s) ue = None"
    and put: "json_body put = Ret j'" "AppContext_of_json R j' = Ret j'" "associateUeAppId R nd j' = Ret ue"
    and del: "relative_path del = contexts_prefix @ uuid"
  shows "\<exists>resp s1 s2. contextId R resp = uuid \<and>
    serve_static R nd uuid HandleContextCreate post s = (Ret (Reply status_Created (Some resp)), s1) \<and>
    serve_static R nd uuid' HandleContextUpdate put s1 = (Ret (Reply status_NoContent None), s2) \<and>
    serve_static R nd uuid'' HandleContextDelete del s2 = (Ret (Reply status_NoContent None), s)"
proof -
  obtain ue' info' where c: "context_ok R j ue' info'" "request_info R info'"
    and id: "string_field R j ''contextId'' = None"
    using post(3) by (auto simp: plain_request_def)
  have eqs: "ue' = ue" "info' = info"
    using context_ok_getters(1,2) [OF R c(1), of nd] fresh(3) info(1) by simp_all
  note c = c [unfolded eqs]
  have acc: "app_acceptable R info"
    using c(1) AppInfo_of_json_sound [OF R, of info info] by (auto simp: context_ok_def)
  have known: "map_of (theApplications s) (app_key R info) \<noteq> None"
    using granted(1) info(2) mangle_app_key [OF R acc, of nd] by simp
  obtain n' where "fName (app_fields_of R info) = Some n'" by (rule context_ok_name [OF R c(1)])
  with info(3) fields_appName(1) [OF R this, of nd] have n: "fName (app_fields_of R info) = Some n" by simp
  have r0: "r \<noteq> []" using table_ok_route [OF static_invD(5) [OF inv] granted(2)] .
  let ?d = "new_desc R j ue (remote_address post) n r"
  obtain resp where create: "createContext R nd uuid (remote_address post) j s = (Ret resp, with_context uuid ?d s)"
    by (rule createContext_fresh [OF R c(1) id c(2) n known granted(2) r0 fresh(1,2,4)])
  from createContext_inv [OF R static_inv_sound [OF inv] c(1) create _ n] fresh(2,4) known granted(2)
  have resp: "accepted_response R resp" "contextId R resp = uuid" by auto
  let ?d' = "?d\<lparr>theCallbackReference := callbackReference R j'\<rparr>"
  have "updateContext R nd j' (with_context uuid ?d s) = (Ret True, with_context uuid ?d' s)"
    using put(3) assign_with_context [OF fresh(2), of ?d' ?d]
    by (simp add: updateContext_def new_desc_def)
  moreover have "deleteContext nd uuid (with_context uuid ?d' s) = (Ret True, s)"
  proof -
    have "static_inv (with_context uuid ?d' s)"
      using inv fresh(1,2,4) n acc granted(2)
      by (intro static_inv_with_context) (auto simp: new_desc_def desc_route_def app_acceptable_def)
    from deleteContext_eq [OF static_invD(6) [OF this], of nd uuid] drop_with_context [of s uuid ?d'] inv fresh(2,4)
    show ?thesis by (simp add: static_inv_def new_desc_def)
  qed
  ultimately show ?thesis
    using handleContextCreate_accepted [where create = "createContext R nd uuid", OF R post(1,2) create resp(1)]
      put(1,2) del resp(2)
    by (intro exI [of _ resp] exI [of _ "with_context uuid ?d s"] exI [of _ "with_context uuid ?d' s"])
      (simp add: serve_def handleContextUpdate_def handleContextDelete_def Let_def)
qed

theorem http_conversation_witness:
  "\<exists>resp s1 s2.
    serve_static jrest False ''c1'' HandleContextCreate sample_post sample_table = (Ret (Reply status_Created (Some resp)), s1) \<and>
    serve_static jrest False [] HandleContextUpdate sample_post s1 = (Ret (Reply status_NoContent None), s2) \<and>
    serve_static jrest False [] HandleContextDelete (sample_post\<lparr>relative_path := contexts_prefix @ ''c1''\<rparr>) s2 =
      (Ret (Reply status_NoContent None), sample_table)"
proof -
  have f: "AppContext_of_json jrest sample_request = Ret sample_request"
    "associateUeAppId jrest False sample_request = Ret ''ue1''" "appInfo jrest False sample_request = Ret sample_info"
    by code_simp+
  have "plain_request jrest sample_request" using sample_parsed unfolding plain_request_def by blast
  from http_conversation [OF jrest_laws sample_table_inv _ f(1) this f(3) sample_parsed(5,4) _ _ _ _ f(2) _ _ f(1,2),
      of sample_post "''http://r1''" "''c1''" sample_post "sample_post\<lparr>relative_path := contexts_prefix @ ''c1''\<rparr>" "[]" "[]"]
  show ?thesis by (simp add: sample_post_def sample_table_def route_def) blast
qed

end
